(* ===== verification/Prelude.thy ===== *)
theory Prelude
  imports Main "HOL-Library.Word"
begin

unbundle bit_operations_syntax

text \<open>
  Shared vocabulary of the development: the machine integer types of the kernel
  (RISC-V, LP64: \<open>char\<close> is unsigned), the outcome of a kernel routine, the error numbers of
  \<^verbatim>\<open>kern/error.h\<close>, the C conversions between integer widths, and the lemmas on lists,
  singly linked structures and words that several components use.
\<close>

section \<open>Machine types\<close>

type_synonym u8 = "8 word"
type_synonym u16 = "16 word"
type_synonym u32 = "32 word"
type_synonym u64 = "64 word"

text \<open>
  The conversions C inserts: \<open>int_of\<close> is the value of an expression converted to \<open>int\<close>
  (32 bits, two's complement), \<open>long_of\<close> the same for \<open>long\<close>.
\<close>

definition int_of :: "u64 \<Rightarrow> int" where
  "int_of w = sint (ucast w :: u32)"

definition long_of :: "u64 \<Rightarrow> int" where
  "long_of w = sint w"

section \<open>Outcomes\<close>

text \<open>
  A kernel routine returns a value, or stops the machine in \<open>panic\<close> (\<^verbatim>\<open>kern/halt.c\<close>; a failed
  \<open>assert\<close> of \<^verbatim>\<open>kern/halt.h\<close> panics too), or accesses storage outside the object it was given:
  the C program then has no defined behaviour, which the model calls \<open>Fault\<close>. Where a loop of the
  source has no bound, the model bounds it by a fuel argument, and \<open>Running\<close> means that the fuel ended
  first. \<open>Halted\<close> is the regular end of the machine, \<open>halt_success\<close>.
\<close>

datatype 'a outcome = Ret 'a | Panic string | Fault | Running | Halted

fun obind :: "'a outcome \<Rightarrow> ('a \<Rightarrow> 'b outcome) \<Rightarrow> 'b outcome" where
  "obind (Ret x) f = f x"
| "obind (Panic m) f = Panic m"
| "obind Fault f = Fault"
| "obind Running f = Running"
| "obind Halted f = Halted"

text \<open>\<open>assert(c)\<close> of \<^verbatim>\<open>kern/halt.h\<close>.\<close>

definition c_assert :: "bool \<Rightarrow> unit outcome" where
  "c_assert c = (if c then Ret () else Panic ''ASSERTION FAILED'')"

text \<open>
  \<open>ofold f xs s\<close>: the loop that runs \<open>f\<close> on the successive values \<open>xs\<close> of its variable, and
  \<open>for_range p q d\<close>: the values of the variable of \<open>for (v = p; v < q; v += d)\<close> when the last
  increment does not wrap around.
\<close>

fun ofold :: "('a \<Rightarrow> 's \<Rightarrow> 's outcome) \<Rightarrow> 'a list \<Rightarrow> 's \<Rightarrow> 's outcome" where
  "ofold f [] s = Ret s"
| "ofold f (x # xs) s = obind (f x s) (ofold f xs)"

definition for_range :: "u64 \<Rightarrow> u64 \<Rightarrow> u64 \<Rightarrow> u64 list" where
  "for_range p q d =
     map (\<lambda>i. p + of_nat i * d) [0..<(unat q - unat p + unat d - 1) div unat d]"

section \<open>Error numbers\<close>

definition EINVAL :: int where "EINVAL = 1"
definition EBUSY :: int where "EBUSY = 2"
definition ENOTSUP :: int where "ENOTSUP = 3"
definition ENODEV :: int where "ENODEV = 4"
definition EIO :: int where "EIO = 5"
definition EBADFMT :: int where "EBADFMT = 6"
definition ENOENT :: int where "ENOENT = 7"
definition EFILESYS :: int where "EFILESYS = 8"
definition EACCESS :: int where "EACCESS = 8"
definition EBADFD :: int where "EBADFD = 9"
definition EMFILE :: int where "EMFILE = 10"

section \<open>Lemma collections\<close>

named_theorems errno_defs \<open>the values of the error numbers\<close>
named_theorems cint_simps \<open>the C integer conversions\<close>

lemmas errno_values [errno_defs] =
  EINVAL_def EBUSY_def ENOTSUP_def ENODEV_def EIO_def EBADFMT_def ENOENT_def EFILESYS_def
  EACCESS_def EBADFD_def EMFILE_def

lemma obind_eq_Ret [simp]: "obind m f = Ret y \<longleftrightarrow> (\<exists>x. m = Ret x \<and> f x = Ret y)"
  by (cases m) auto

lemma obind_assoc: "obind (obind m f) g = obind m (\<lambda>x. obind (f x) g)"
  by (cases m) auto

lemma obind_cong [fundef_cong]:
  "m = m' \<Longrightarrow> (\<And>x. m' = Ret x \<Longrightarrow> f x = g x) \<Longrightarrow> obind m f = obind m' g"
  by (cases m') auto

lemma obind_Ret_right [simp]: "obind m Ret = m"
  by (cases m) auto

lemma c_assert_eq_Ret [simp]: "c_assert c = Ret u \<longleftrightarrow> c"
  by (simp add: c_assert_def)

lemma c_assert_True [simp]: "c_assert True = Ret ()"
  by (simp add: c_assert_def)

lemma ofold_Nil_eta [simp]: "ofold f [] = Ret"
  by (rule ext) simp

lemma ofold_append: "ofold f (xs @ ys) s = obind (ofold f xs s) (ofold f ys)"
proof -
  have "ofold f (xs @ ys) = (\<lambda>s. obind (ofold f xs s) (ofold f ys))"
  proof (induction xs)
    case (Cons x xs)
    show ?case
    proof
      fix s
      show "ofold f ((x # xs) @ ys) s = obind (ofold f (x # xs) s) (ofold f ys)"
        using Cons.IH by (simp add: obind_assoc)
    qed
  qed simp
  then show ?thesis by simp
qed

lemma ofold_snoc: "ofold f (xs @ [x]) s = obind (ofold f xs s) (f x)"
  by (cases "ofold f xs s") (simp_all add: ofold_append)

lemma ofold_id: "(\<And>x. x \<in> set xs \<Longrightarrow> f x s = Ret s) \<Longrightarrow> ofold f xs s = Ret s"
  by (induction xs) auto

subsection \<open>Lists\<close>

lemma list_update_append_same [simp]:
  "length xs = n \<Longrightarrow> (xs @ y # ys)[n := z] = xs @ z # ys"
  by (auto simp: list_update_append)

lemma take_Suc_snoc: "n < length xs \<Longrightarrow> take (Suc n) xs = take n xs @ [xs ! n]"
  by (rule take_Suc_conv_app_nth)

lemma set_update_unique:
  assumes n: "n < length xs" and uniq: "\<And>i. i < length xs \<Longrightarrow> xs ! i = xs ! n \<Longrightarrow> i = n"
  shows "set (xs[n := y]) = insert y (set xs - {xs ! n})"
proof (rule set_eqI, rule iffI)
  fix x
  assume "x \<in> set (xs[n := y])"
  then obtain i where i: "i < length xs" "xs[n := y] ! i = x" by (auto simp: in_set_conv_nth)
  then show "x \<in> insert y (set xs - {xs ! n})"
    using uniq [of i] by (cases "i = n") auto
next
  fix x
  assume "x \<in> insert y (set xs - {xs ! n})"
  then consider "x = y" | "x \<in> set xs" "x \<noteq> xs ! n" by auto
  then show "x \<in> set (xs[n := y])"
  proof cases
    case 2
    then obtain i where "i < length xs" "xs ! i = x" "i \<noteq> n" by (auto simp: in_set_conv_nth)
    then show ?thesis by (metis length_list_update nth_list_update_neq nth_mem)
  qed (simp add: n set_update_memI)
qed

subsection \<open>Linked lists\<close>

text \<open>\<open>chain nx p xs\<close>: following \<open>nx\<close> from \<open>p\<close> visits the non-null addresses \<open>xs\<close> and ends at \<open>NULL\<close>.\<close>

fun chain :: "(u64 \<Rightarrow> u64) \<Rightarrow> u64 \<Rightarrow> u64 list \<Rightarrow> bool" where
  "chain nx p [] \<longleftrightarrow> p = 0"
| "chain nx p (x # xs) \<longleftrightarrow> p = x \<and> x \<noteq> 0 \<and> chain nx (nx x) xs"

lemma chain_unique: "chain nx p xs \<Longrightarrow> chain nx p ys \<Longrightarrow> xs = ys"
proof (induction xs arbitrary: p ys)
  case Nil
  then show ?case by (cases ys) auto
next
  case (Cons x xs)
  then show ?case by (cases ys) auto
qed

lemma chain_suffix: "chain nx p (xs @ y # ys) \<Longrightarrow> chain nx y (y # ys)"
  by (induction xs arbitrary: p) auto

lemma chain_distinct: "chain nx p xs \<Longrightarrow> distinct xs"
proof (induction xs arbitrary: p)
  case (Cons x xs)
  have "x \<notin> set xs"
  proof
    assume "x \<in> set xs"
    then obtain us vs where xs: "xs = us @ x # vs" by (meson split_list)
    with Cons.prems have "chain nx x (x # vs)" and "chain nx x (x # us @ x # vs)"
      using chain_suffix [of nx p "x # us" x vs] by auto
    from chain_unique [OF this] show False by simp
  qed
  with Cons show ?case by auto
qed simp

lemma chain_nonzero: "chain nx p xs \<Longrightarrow> x \<in> set xs \<Longrightarrow> x \<noteq> 0"
  by (induction xs arbitrary: p) auto

lemma chain_agree: "(\<And>x. x \<in> set xs \<Longrightarrow> nx x = nx' x) \<Longrightarrow> chain nx p xs = chain nx' p xs"
  by (induction xs arbitrary: p) auto

lemma chain_head: "chain nx p xs \<Longrightarrow> p = 0 \<longleftrightarrow> xs = []"
  by (cases xs) auto

text \<open>Relinking the last element joins two chains.\<close>

lemma chain_join:
  "chain nx p xs \<Longrightarrow> chain nx q ys \<Longrightarrow> xs \<noteq> [] \<Longrightarrow> set xs \<inter> set ys = {} \<Longrightarrow>
     chain (nx(last xs := q)) p (xs @ ys)"
proof (induction xs arbitrary: p)
  case (Cons x xs)
  note d = chain_distinct [OF Cons.prems(1)]
  show ?case
  proof (cases xs)
    case Nil
    have "chain (nx(x := q)) q ys = chain nx q ys" by (rule chain_agree) (use Cons.prems Nil in auto)
    with Cons.prems Nil show ?thesis by (simp add: fun_upd_def)
  next
    case (Cons z zs)
    with Cons.prems Cons.IH [of "nx x"] d show ?thesis by auto
  qed
qed simp

subsection \<open>Words\<close>

lemma unat_u64_lt: "unat (w :: u64) < 2 ^ 64"
  using unsigned_less [of w, where ?'a = nat] by simp

lemma unat_of_nat_small:
  "n < 2 ^ LENGTH('a) \<Longrightarrow> unat (of_nat n :: 'a::len word) = n"
  by (simp add: unat_of_nat take_bit_eq_mod)

lemma unat_ucast_small:
  "unat (w :: 'a::len word) < 2 ^ LENGTH('b) \<Longrightarrow> unat (ucast w :: 'b::len word) = unat w"
  by (simp add: unsigned_ucast_eq take_bit_nat_eq_self)

lemma unat_add_small:
  "unat a + unat b < 2 ^ LENGTH('a) \<Longrightarrow> unat (a + b :: 'a::len word) = unat a + unat b"
  by (simp add: unat_word_ariths)

lemma unat_sub_small: "b \<le> a \<Longrightarrow> unat (a - b :: 'a::len word) = unat a - unat b"
  by (rule unat_sub)

end
