(* ===== verification/CString.thy ===== *)
theory CString
  imports Prelude "HOL-Library.List_Lexorder"
begin

text \<open>
  \<^verbatim>\<open>kern/string.c\<close>: string and memory primitives and the formatted-output engine. A pointer
  into an object is the list of the object's bytes from that address to its end, so a read or
  write past the end is \<open>Fault\<close>; a pointer that may be \<open>NULL\<close> is an \<open>option\<close>. The routines that
  store through a pointer return the updated object. A \<open>size_t\<close> count that is only ever counted
  down to zero is a \<open>nat\<close>.
\<close>

section \<open>Comparing and copying\<close>

fun strcmp_loop :: "u8 list \<Rightarrow> u8 list \<Rightarrow> int outcome" where
  "strcmp_loop (a # s1) (b # s2) =
     (if a = b \<and> a \<noteq> 0 then strcmp_loop s1 s2
      else Ret (if a < b then -1 else if a > b then 1 else 0))"
| "strcmp_loop _ _ = Fault"

definition strcmp :: "u8 list option \<Rightarrow> u8 list option \<Rightarrow> int outcome" where
  "strcmp s1 s2 =
     (case s1 of
        None \<Rightarrow> Ret (if s2 = None then 0 else -1)
      | Some p1 \<Rightarrow>
          (case s2 of None \<Rightarrow> Ret 1 | Some p2 \<Rightarrow> strcmp_loop p1 p2))"

fun strlen_loop :: "u8 list \<Rightarrow> nat \<Rightarrow> nat outcome" where
  "strlen_loop [] k = Fault"
| "strlen_loop (c # p) k = (if c \<noteq> 0 then strlen_loop p (Suc k) else Ret k)"

definition strlen :: "u8 list \<Rightarrow> nat outcome" where
  "strlen s = strlen_loop s 0"

fun strncmp :: "u8 list \<Rightarrow> u8 list \<Rightarrow> nat \<Rightarrow> int outcome" where
  "strncmp s1 s2 0 = Ret 0"
| "strncmp (a # s1) (b # s2) (Suc n) =
     (if a \<noteq> 0 \<and> a = b then strncmp s1 s2 n else Ret (uint a - uint b))"
| "strncmp _ _ (Suc n) = Fault"

fun strncpy :: "u8 list \<Rightarrow> u8 list \<Rightarrow> nat \<Rightarrow> u8 list outcome" where
  "strncpy dst src 0 = Ret dst"
| "strncpy (d # dst) (c # src) (Suc n) =
     (if c \<noteq> 0 then obind (strncpy dst src n) (\<lambda>r. Ret (c # r)) else Ret (0 # dst))"
| "strncpy _ _ (Suc n) = Fault"

text \<open>The copying loop of \<open>strncat\<close>, entered at the terminator of the destination.\<close>

fun strncat_copy :: "u8 list \<Rightarrow> u8 list \<Rightarrow> nat \<Rightarrow> u8 list outcome" where
  "strncat_copy [] src n = Fault"
| "strncat_copy (d # dst) src n =
     (case n of
        0 \<Rightarrow> Ret (0 # dst)
      | Suc m \<Rightarrow>
          (case src of
             [] \<Rightarrow> Fault
           | c # src' \<Rightarrow>
               if c \<noteq> 0 then obind (strncat_copy dst src' m) (\<lambda>r. Ret (c # r))
               else Ret (0 # dst)))"

fun strncat :: "u8 list \<Rightarrow> u8 list \<Rightarrow> nat \<Rightarrow> u8 list outcome" where
  "strncat [] src n = Fault"
| "strncat (d # dst) src n =
     (if d \<noteq> 0 then obind (strncat dst src n) (\<lambda>r. Ret (d # r))
      else strncat_copy (d # dst) src n)"

fun memset :: "u8 list \<Rightarrow> u8 \<Rightarrow> nat \<Rightarrow> u8 list outcome" where
  "memset s c 0 = Ret s"
| "memset (b # s) c (Suc n) = obind (memset s c n) (\<lambda>r. Ret (c # r))"
| "memset [] c (Suc n) = Fault"

fun memcpy :: "u8 list \<Rightarrow> u8 list \<Rightarrow> nat \<Rightarrow> u8 list outcome" where
  "memcpy dst src 0 = Ret dst"
| "memcpy (d # dst) (c # src) (Suc n) = obind (memcpy dst src n) (\<lambda>r. Ret (c # r))"
| "memcpy _ _ (Suc n) = Fault"

fun memcmp :: "u8 list \<Rightarrow> u8 list \<Rightarrow> nat \<Rightarrow> int outcome" where
  "memcmp p1 p2 0 = Ret 0"
| "memcmp (a # p1) (b # p2) (Suc n) =
     (if a \<noteq> b then Ret (uint a - uint b) else memcmp p1 p2 n)"
| "memcmp _ _ (Suc n) = Fault"

section \<open>Formatted output\<close>

text \<open>
  \<open>format_int\<close> writes the digits of \<open>val\<close> into \<open>char buf[40]\<close> from its end. The first argument of
  \<open>format_digits\<close> is the index \<open>p - buf\<close>: decrementing it below 0 would leave the buffer.
\<close>

fun format_digits :: "nat \<Rightarrow> u64 \<Rightarrow> u32 \<Rightarrow> u8 list \<Rightarrow> u8 list outcome" where
  "format_digits 0 val base out = Fault"
| "format_digits (Suc p) val base out =
     (if base = 0 then Fault
      else let d = val mod ucast base; val' = val div ucast base;
               c = (if d < 10 then 48 + ucast d else 97 + ucast d - 10) :: u8
           in if val' \<noteq> 0 then format_digits p val' base (c # out) else Ret (c # out))"

fun pad_loop :: "(u8 \<Rightarrow> 's \<Rightarrow> 's) \<Rightarrow> u8 \<Rightarrow> nat \<Rightarrow> nat \<Rightarrow> 's \<Rightarrow> nat \<Rightarrow> 's \<times> nat" where
  "pad_loop putcfn c k len aux nout =
     (if k < len then pad_loop putcfn c k (len - 1) (putcfn c aux) (nout + 1) else (aux, nout))"

fun put_loop :: "(u8 \<Rightarrow> 's \<Rightarrow> 's) \<Rightarrow> u8 list \<Rightarrow> 's \<Rightarrow> nat \<Rightarrow> 's \<times> nat" where
  "put_loop putcfn [] aux nout = (aux, nout)"
| "put_loop putcfn (c # p) aux nout = put_loop putcfn p (putcfn c aux) (nout + 1)"

definition format_int ::
    "(u8 \<Rightarrow> 's \<Rightarrow> 's) \<Rightarrow> 's \<Rightarrow> u64 \<Rightarrow> u32 \<Rightarrow> bool \<Rightarrow> u32 \<Rightarrow> ('s \<times> nat) outcome" where
  "format_int putcfn aux val base zpad len =
     obind (format_digits 40 val base []) (\<lambda>ds.
       let (aux1, n1) = pad_loop putcfn (if zpad then 48 else 32) (length ds) (unat len) aux 0
       in Ret (put_loop putcfn ds aux1 n1))"

fun put_str :: "(u8 \<Rightarrow> 's \<Rightarrow> 's) \<Rightarrow> u8 list \<Rightarrow> 's \<Rightarrow> nat \<Rightarrow> ('s \<times> nat) outcome" where
  "put_str putcfn [] aux nout = Fault"
| "put_str putcfn (c # s) aux nout =
     (if c \<noteq> 0 then put_str putcfn s (putcfn c aux) (nout + 1) else Ret (aux, nout))"

definition null_str :: "u8 list" where
  "null_str = [40, 110, 117, 108, 108, 41, 0]"

text \<open>
  In \<open>format_str\<close> the remaining width \<open>len - nout\<close> is padded with blanks; the blanks are counted
  before they are written (\<open>nout += len\<close>).
\<close>

definition format_str ::
    "(u8 \<Rightarrow> 's \<Rightarrow> 's) \<Rightarrow> 's \<Rightarrow> u8 list option \<Rightarrow> u32 \<Rightarrow> ('s \<times> nat) outcome" where
  "format_str putcfn aux s len =
     obind (put_str putcfn (case s of None \<Rightarrow> null_str | Some p \<Rightarrow> p) aux 0) (\<lambda>(aux1, nout).
       if nout < unat len
       then Ret (fst (pad_loop putcfn 32 0 (unat len - nout) aux1 0), nout + (unat len - nout))
       else Ret (aux1, nout))"

text \<open>
  The variable arguments: an integer or pointer argument is its 64-bit register value, a
  \<open>char *\<close> argument the bytes it points to (or \<open>NULL\<close>). Fetching an argument of the other kind,
  or one that was not passed, is \<open>Fault\<close>.
\<close>

datatype varg = AInt u64 | AStr "u8 list option"

fun va_int :: "varg list \<Rightarrow> (u64 \<times> varg list) outcome" where
  "va_int (AInt w # ap) = Ret (w, ap)"
| "va_int _ = Fault"

fun va_str :: "varg list \<Rightarrow> (u8 list option \<times> varg list) outcome" where
  "va_str (AStr s # ap) = Ret (s, ap)"
| "va_str _ = Fault"

text \<open>The width specifier: digits are accumulated in an \<open>unsigned int\<close>.\<close>

fun parse_width :: "u8 list \<Rightarrow> u32 \<Rightarrow> u32 \<times> u8 list" where
  "parse_width (c # p) len =
     (if 48 \<le> c \<and> c \<le> 57 then parse_width p (10 * len + (ucast c - 48)) else (len, c # p))"
| "parse_width [] len = (len, [])"

fun parse_ell :: "u8 list \<Rightarrow> nat \<Rightarrow> nat \<times> u8 list" where
  "parse_ell (c # p) lcnt = (if c = 108 then parse_ell p (lcnt + 1) else (lcnt, c # p))"
| "parse_ell [] lcnt = (lcnt, [])"

text \<open>The \<open>z\<close> and \<open>j\<close> prefixes: both types are as wide as \<open>long\<close> and as \<open>long long\<close>.\<close>

definition parse_zj :: "u8 list \<Rightarrow> nat \<Rightarrow> nat \<times> u8 list" where
  "parse_zj p lcnt =
     (case p of c # q \<Rightarrow> if c = 122 \<or> c = 106 then (2, q) else (lcnt, p) | [] \<Rightarrow> (lcnt, p))"

text \<open>
  One conversion, with \<open>c\<close> the specifier character \<open>*p\<close>. The result says also whether the
  specifier was the terminator, in which case the code steps \<open>p\<close> back onto it. The negation of the smallest
  \<open>intmax_t\<close>, which C leaves undefined, wraps around.
\<close>

definition format_conv ::
    "(u8 \<Rightarrow> 's \<Rightarrow> 's) \<Rightarrow> 's \<Rightarrow> u8 \<Rightarrow> bool \<Rightarrow> u32 \<Rightarrow> nat \<Rightarrow> varg list \<Rightarrow> ('s \<times> nat \<times> varg list) outcome"
where
  "format_conv putcfn aux c zpad len lcnt ap =
     (if c = 100 then
        obind (va_int ap) (\<lambda>(w, ap').
          let ival = (if lcnt > 0 then w else scast (ucast w :: u32) :: u64) in
          if sint ival < 0
          then obind (format_int putcfn (putcfn 45 aux) (- ival) 10 zpad (if len > 0 then len - 1 else len))
                 (\<lambda>(aux', n). Ret (aux', 1 + n, ap'))
          else obind (format_int putcfn aux ival 10 zpad len) (\<lambda>(aux', n). Ret (aux', n, ap')))
      else if c = 117 \<or> c = 120 then
        obind (va_int ap) (\<lambda>(w, ap').
          let ival = (if lcnt > 0 then w else ucast (ucast w :: u32) :: u64) in
          obind (format_int putcfn aux ival (if c = 120 then 16 else 10) zpad len)
            (\<lambda>(aux', n). Ret (aux', n, ap')))
      else if c = 115 then
        obind (va_str ap) (\<lambda>(s, ap').
          obind (format_str putcfn aux s len) (\<lambda>(aux', n). Ret (aux', n, ap')))
      else if c = 112 then
        obind (va_int ap) (\<lambda>(w, ap').
          obind (format_str putcfn aux (Some [48, 120, 0]) 2) (\<lambda>(aux1, n1).
            obind (format_int putcfn aux1 w 16 zpad len) (\<lambda>(aux2, n2). Ret (aux2, n1 + n2, ap'))))
      else
        Ret (putcfn (if c < 32 \<or> 127 \<le> c then 63 else c) (putcfn 37 aux), 2, ap))"

lemma parse_width_shorter: "length (snd (parse_width p len)) \<le> length p"
  by (induction p len rule: parse_width.induct) auto

lemma parse_ell_shorter: "length (snd (parse_ell p k)) \<le> length p"
  by (induction p k rule: parse_ell.induct) auto

lemma parse_zj_shorter: "length (snd (parse_zj p k)) \<le> length p"
  by (auto simp: parse_zj_def split: list.splits)

definition parse_spec :: "u8 list \<Rightarrow> bool \<times> u32 \<times> nat \<times> u8 list" where
  "parse_spec p =
     (let zpad = (case p of c # _ \<Rightarrow> c = 48 | [] \<Rightarrow> False);
          (len, p1) = parse_width p 0;
          (lcnt, p2) = parse_ell p1 0;
          (lcnt', p3) = parse_zj p2 lcnt
      in (zpad, len, lcnt', p3))"

lemma parse_spec_shorter:
  "parse_spec p = (zpad, len, lcnt, q) \<Longrightarrow> length q \<le> length p"
  using parse_width_shorter [of p 0] parse_ell_shorter [of "snd (parse_width p 0)" 0]
    parse_zj_shorter [of "snd (parse_ell (snd (parse_width p 0)) 0)"
      "fst (parse_ell (snd (parse_width p 0)) 0)"]
  by (auto simp: parse_spec_def Let_def split: prod.splits)

function vgprintf_loop ::
    "(u8 \<Rightarrow> 's \<Rightarrow> 's) \<Rightarrow> 's \<Rightarrow> u8 list \<Rightarrow> varg list \<Rightarrow> nat \<Rightarrow> ('s \<times> nat) outcome" where
  "vgprintf_loop putcfn aux p ap nout =
     (case p of
        [] \<Rightarrow> Fault
      | c # p' \<Rightarrow>
          if c = 0 then Ret (aux, nout)
          else if c = 37 then
            (case parse_spec p' of (zpad, len, lcnt, q) \<Rightarrow>
               (case q of
                  [] \<Rightarrow> Fault
                | d # q' \<Rightarrow>
                    (case format_conv putcfn aux d zpad len lcnt ap of
                       Ret (aux', n, ap') \<Rightarrow>
                         vgprintf_loop putcfn aux' (if d = 0 then q else q') ap' (nout + n)
                     | Panic m \<Rightarrow> Panic m
                     | Fault \<Rightarrow> Fault
                     | Running \<Rightarrow> Running
                     | Halted \<Rightarrow> Halted)))
          else vgprintf_loop putcfn (putcfn c aux) p' ap (nout + 1))"
  by pat_completeness auto
termination
  by (relation "measure (\<lambda>(putcfn, aux, p, ap, nout). length p)")
    (auto dest!: parse_spec_shorter [OF sym])

definition vgprintf ::
    "(u8 \<Rightarrow> 's \<Rightarrow> 's) \<Rightarrow> 's \<Rightarrow> u8 list \<Rightarrow> varg list \<Rightarrow> ('s \<times> nat) outcome" where
  "vgprintf putcfn aux fmt ap = vgprintf_loop putcfn aux fmt ap 0"

text \<open>
  \<open>vsnprintf\<close>: the state is the buffer, the offset of \<open>pos\<close> in it and the space left. A store
  outside the buffer makes the state \<open>Fault\<close> for good.
\<close>

record vsnprintf_state =
  vs_buf :: "u8 list"
  vs_pos :: nat
  vs_rem :: nat

definition vs_store :: "vsnprintf_state \<Rightarrow> u8 \<Rightarrow> vsnprintf_state outcome" where
  "vs_store st c =
     (if vs_pos st < length (vs_buf st) then Ret (st\<lparr>vs_buf := (vs_buf st)[vs_pos st := c]\<rparr>)
      else Fault)"

definition vsnprintf_putc :: "u8 \<Rightarrow> vsnprintf_state outcome \<Rightarrow> vsnprintf_state outcome" where
  "vsnprintf_putc c aux =
     obind aux (\<lambda>state.
       if vs_rem state \<le> 1 then Ret state
       else obind (vs_store state c) (\<lambda>st.
              Ret (st\<lparr>vs_pos := vs_pos st + 1, vs_rem := vs_rem st - 1\<rparr>)))"

definition vsnprintf ::
    "u8 list \<Rightarrow> nat \<Rightarrow> u8 list \<Rightarrow> varg list \<Rightarrow> (u8 list \<times> nat) outcome" where
  "vsnprintf buf bufsz fmt ap =
     obind (vgprintf vsnprintf_putc (Ret \<lparr>vs_buf = buf, vs_pos = 0, vs_rem = bufsz\<rparr>) fmt ap)
       (\<lambda>(aux, n).
          obind aux (\<lambda>state.
            if vs_rem state \<noteq> 0
            then obind (vs_store state 0) (\<lambda>st. Ret (vs_buf st, n))
            else Ret (vs_buf state, n)))"

definition snprintf ::
    "u8 list \<Rightarrow> nat \<Rightarrow> u8 list \<Rightarrow> varg list \<Rightarrow> (u8 list \<times> nat) outcome" where
  "snprintf buf bufsz fmt ap = vsnprintf buf bufsz fmt ap"

declare vgprintf_loop.simps [simp del] pad_loop.simps [simp del]

section \<open>C strings\<close>

text \<open>
  \<open>cstr p s\<close>: the object at \<open>p\<close> begins with the characters \<open>s\<close> followed by the terminator.
\<close>

definition cstr :: "u8 list \<Rightarrow> u8 list \<Rightarrow> bool" where
  "cstr p s \<longleftrightarrow> 0 \<notin> set s \<and> (\<exists>rest. p = s @ 0 # rest)"

lemma cstr_Nil [simp]: "cstr [] s = False"
  by (simp add: cstr_def)

lemma cstr_Cons_Nil: "cstr (c # p) [] \<longleftrightarrow> c = 0"
  by (auto simp: cstr_def)

lemma cstr_Cons_Cons: "cstr (c # p) (a # s) \<longleftrightarrow> c = a \<and> a \<noteq> 0 \<and> cstr p s"
  by (auto simp: cstr_def)

lemmas cstr_simps = cstr_Cons_Nil cstr_Cons_Cons

lemma cstr_append [simp]: "0 \<notin> set s \<Longrightarrow> cstr (s @ 0 # rest) s"
  by (auto simp: cstr_def)

lemma strlen_loop_cstr: "cstr p s \<Longrightarrow> strlen_loop p k = Ret (k + length s)"
proof (induction p arbitrary: s k)
  case (Cons c p)
  then show ?case by (cases s) (auto simp: cstr_simps)
qed simp

lemma strcmp_loop_cstr:
  "cstr p s \<Longrightarrow> cstr q t \<Longrightarrow>
     strcmp_loop p q = Ret (if s = t then 0 else if s < t then -1 else 1)"
proof (induction p arbitrary: q s t)
  case (Cons c p)
  from Cons.prems(2) obtain d q' where q: "q = d # q'" by (cases q) auto
  show ?case
  proof (cases s)
    case Nil
    with Cons.prems show ?thesis
      by (cases t) (auto simp: q cstr_simps word_gt_0)
  next
    case (Cons a s')
    note s = this
    show ?thesis
    proof (cases t)
      case Nil
      with Cons.prems s show ?thesis by (auto simp: q cstr_simps word_gt_0)
    next
      case (Cons b t')
      with Cons.prems s Cons.IH [of s' q' t'] show ?thesis
        by (auto simp: q cstr_simps)
    qed
  qed
qed simp

lemma strncmp_cstr:
  "cstr p s \<Longrightarrow> cstr q t \<Longrightarrow> \<exists>r. strncmp p q n = Ret r \<and> (r = 0 \<longleftrightarrow> take n s = take n t)"
proof (induction p q n arbitrary: s t rule: strncmp.induct)
  case (2 a s1 b s2 n)
  then show ?case
    by (cases s; cases t) (auto simp: cstr_simps word_uint_eq_iff)
qed auto

lemma strncpy_cstr:
  assumes "cstr src s" and "length s < length dst"
  shows "strncpy dst src n =
    Ret (if n \<le> length s then take n s @ drop n dst else s @ 0 # drop (Suc (length s)) dst)"
  using assms
proof (induction dst src n arbitrary: s rule: strncpy.induct)
  case (2 d dst c src n)
  then show ?case by (cases s) (auto simp: cstr_simps)
qed auto

lemma strncat_copy_cstr:
  assumes "cstr src s" and "min n (length s) < length dst"
  shows "strncat_copy dst src n =
    Ret (take n s @ 0 # drop (Suc (min n (length s))) dst)"
  using assms
proof (induction dst src n arbitrary: s rule: strncat_copy.induct)
  case (2 d dst src n)
  show ?case
  proof (cases n)
    case 0
    then show ?thesis by simp
  next
    case (Suc m)
    with 2 show ?thesis
      by (cases src; cases s) (auto simp: cstr_simps)
  qed
qed simp

lemma strncat_cstr:
  assumes "cstr src s" and "cstr dst d" and "length d + min n (length s) < length dst"
  shows "strncat dst src n =
    Ret (d @ take n s @ 0 # drop (Suc (length d + min n (length s))) dst)"
  using assms(2,3)
proof (induction dst arbitrary: d)
  case (Cons c dst)
  then show ?case
    by (cases d) (auto simp: cstr_simps strncat_copy_cstr [OF assms(1)] simp del: strncat_copy.simps)
qed simp

lemma memset_spec: "n \<le> length s \<Longrightarrow> memset s c n = Ret (replicate n c @ drop n s)"
  by (induction s c n rule: memset.induct) auto

lemma memcpy_spec:
  "n \<le> length dst \<Longrightarrow> n \<le> length src \<Longrightarrow> memcpy dst src n = Ret (take n src @ drop n dst)"
  by (induction dst src n rule: memcpy.induct) auto

lemma memcmp_spec:
  "n \<le> length p \<Longrightarrow> n \<le> length q \<Longrightarrow>
     \<exists>r. memcmp p q n = Ret r \<and> (r = 0 \<longleftrightarrow> take n p = take n q)"
  by (induction p q n rule: memcmp.induct) (auto simp: word_uint_eq_iff)

section \<open>What the formatting engine writes\<close>

text \<open>
  The reference semantics of formatting is the text it produces, without any output routine:
  \<open>printf_text\<close> is what a format and its arguments stand for.
\<close>

definition pad_text :: "u8 \<Rightarrow> u32 \<Rightarrow> u8 list \<Rightarrow> u8 list" where
  "pad_text c len ds = replicate (unat len - length ds) c"

definition int_text :: "u64 \<Rightarrow> u32 \<Rightarrow> bool \<Rightarrow> u32 \<Rightarrow> u8 list outcome" where
  "int_text val base zpad len =
     obind (format_digits 40 val base []) (\<lambda>ds.
       Ret (pad_text (if zpad then 48 else 32) len ds @ ds))"

fun str_chars :: "u8 list \<Rightarrow> u8 list outcome" where
  "str_chars [] = Fault"
| "str_chars (c # s) = (if c \<noteq> 0 then obind (str_chars s) (\<lambda>r. Ret (c # r)) else Ret [])"

definition str_text :: "u8 list option \<Rightarrow> u32 \<Rightarrow> u8 list outcome" where
  "str_text s len =
     obind (str_chars (case s of None \<Rightarrow> null_str | Some p \<Rightarrow> p)) (\<lambda>cs.
       Ret (cs @ pad_text 32 len cs))"

definition conv_text ::
    "u8 \<Rightarrow> bool \<Rightarrow> u32 \<Rightarrow> nat \<Rightarrow> varg list \<Rightarrow> (u8 list \<times> varg list) outcome" where
  "conv_text c zpad len lcnt ap =
     (if c = 100 then
        obind (va_int ap) (\<lambda>(w, ap').
          let ival = (if lcnt > 0 then w else scast (ucast w :: u32) :: u64) in
          if sint ival < 0
          then obind (int_text (- ival) 10 zpad (if len > 0 then len - 1 else len))
                 (\<lambda>t. Ret (45 # t, ap'))
          else obind (int_text ival 10 zpad len) (\<lambda>t. Ret (t, ap')))
      else if c = 117 \<or> c = 120 then
        obind (va_int ap) (\<lambda>(w, ap').
          let ival = (if lcnt > 0 then w else ucast (ucast w :: u32) :: u64) in
          obind (int_text ival (if c = 120 then 16 else 10) zpad len) (\<lambda>t. Ret (t, ap')))
      else if c = 115 then
        obind (va_str ap) (\<lambda>(s, ap'). obind (str_text s len) (\<lambda>t. Ret (t, ap')))
      else if c = 112 then
        obind (va_int ap) (\<lambda>(w, ap').
          obind (int_text w 16 zpad len) (\<lambda>t. Ret (48 # 120 # t, ap')))
      else Ret ([37, if c < 32 \<or> 127 \<le> c then 63 else c], ap))"

function printf_text :: "u8 list \<Rightarrow> varg list \<Rightarrow> u8 list outcome" where
  "printf_text p ap =
     (case p of
        [] \<Rightarrow> Fault
      | c # p' \<Rightarrow>
          if c = 0 then Ret []
          else if c = 37 then
            (case parse_spec p' of (zpad, len, lcnt, q) \<Rightarrow>
               (case q of
                  [] \<Rightarrow> Fault
                | d # q' \<Rightarrow>
                    (case conv_text d zpad len lcnt ap of
                       Ret (t, ap') \<Rightarrow>
                         obind (printf_text (if d = 0 then q else q') ap') (\<lambda>r. Ret (t @ r))
                     | Panic m \<Rightarrow> Panic m
                     | Fault \<Rightarrow> Fault
                     | Running \<Rightarrow> Running
                     | Halted \<Rightarrow> Halted)))
          else obind (printf_text p' ap) (\<lambda>r. Ret (c # r)))"
  by pat_completeness auto
termination
  by (relation "measure (\<lambda>(p, ap). length p)") (auto dest!: parse_spec_shorter [OF sym])

declare printf_text.simps [simp del]

lemma pad_loop_fold:
  "pad_loop putcfn c k len aux nout =
     (fold putcfn (replicate (len - k) c) aux, nout + (len - k))"
proof (induction putcfn c k len aux nout rule: pad_loop.induct)
  case (1 putcfn c k len aux nout)
  show ?case
  proof (cases "k < len")
    case True
    then obtain m where "len - k = Suc m" and "len - 1 - k = m"
      by (metis Suc_diff_Suc diff_Suc_1 diff_commute)
    with 1 True show ?thesis by (simp add: pad_loop.simps [of putcfn c k len])
  next
    case False
    then show ?thesis by (simp add: pad_loop.simps [of putcfn c k len])
  qed
qed

lemma put_loop_fold: "put_loop putcfn p aux nout = (fold putcfn p aux, nout + length p)"
  by (induction p arbitrary: aux nout) auto

lemma put_str_fold:
  "put_str putcfn s aux nout =
     obind (str_chars s) (\<lambda>cs. Ret (fold putcfn cs aux, nout + length cs))"
  by (induction s arbitrary: aux nout) (auto simp: obind_assoc)

lemma format_int_fold:
  "format_int putcfn aux val base zpad len =
     obind (int_text val base zpad len) (\<lambda>t. Ret (fold putcfn t aux, length t))"
  by (simp add: format_int_def int_text_def pad_text_def pad_loop_fold put_loop_fold obind_assoc)

lemma format_str_fold:
  "format_str putcfn aux s len =
     obind (str_text s len) (\<lambda>t. Ret (fold putcfn t aux, length t))"
  by (cases "str_chars (case s of None \<Rightarrow> null_str | Some p \<Rightarrow> p)")
    (auto simp: format_str_def str_text_def pad_text_def pad_loop_fold put_str_fold obind_assoc)

lemma str_text_0x: "str_text (Some [48, 120, 0]) 2 = Ret [48, 120]"
  by (simp add: str_text_def pad_text_def)

lemma format_conv_fold:
  "format_conv putcfn aux c zpad len lcnt ap =
     obind (conv_text c zpad len lcnt ap) (\<lambda>(t, ap'). Ret (fold putcfn t aux, length t, ap'))"
  by (cases "va_int ap"; cases "va_str ap")
    (auto simp: format_conv_def conv_text_def format_int_fold format_str_fold obind_assoc
      str_text_0x Let_def)

lemmas vgprintf_loop_unfold =
  vgprintf_loop.simps [of _ _ "[]"] vgprintf_loop.simps [of _ _ "c # p" for c p]

lemmas printf_text_unfold = printf_text.simps [of "[]"] printf_text.simps [of "c # p" for c p]

lemma vgprintf_loop_fold:
  "vgprintf_loop putcfn aux p ap nout =
     obind (printf_text p ap) (\<lambda>t. Ret (fold putcfn t aux, nout + length t))"
proof (induction putcfn aux p ap nout rule: vgprintf_loop.induct)
  case (1 putcfn aux p ap nout)
  show ?case
  proof (cases p)
    case Nil
    then show ?thesis by (simp add: vgprintf_loop_unfold printf_text_unfold)
  next
    case (Cons c p')
    show ?thesis
    proof (cases "c = 37")
      case False
      with 1(2) [OF Cons] Cons show ?thesis
        by (auto simp: vgprintf_loop_unfold printf_text_unfold obind_assoc)
    next
      case True
      obtain zpad len lcnt q where ps: "parse_spec p' = (zpad, len, lcnt, q)"
        by (metis prod_cases4)
      show ?thesis
      proof (cases q)
        case Nil
        with True Cons ps show ?thesis
          by (simp add: vgprintf_loop_unfold printf_text_unfold)
      next
        case q: (Cons d q')
        show ?thesis
        proof (cases "conv_text d zpad len lcnt ap")
          case (Ret x)
          obtain t ap' where x: "x = (t, ap')" by (cases x)
          have "format_conv putcfn aux d zpad len lcnt ap = Ret (fold putcfn t aux, length t, ap')"
            by (simp add: format_conv_fold Ret x)
          with 1(1) [OF Cons] True ps q show ?thesis
            by (simp add: vgprintf_loop_unfold printf_text_unfold Cons Ret x
                obind_assoc add.assoc)
        qed (use True Cons ps q in \<open>simp_all add: vgprintf_loop_unfold
              printf_text_unfold format_conv_fold\<close>)
      qed
    qed
  qed
qed

lemma vgprintf_fold:
  "vgprintf putcfn aux fmt ap =
     obind (printf_text fmt ap) (\<lambda>t. Ret (fold putcfn t aux, length t))"
  by (simp add: vgprintf_def vgprintf_loop_fold)

text \<open>The buffer after \<open>t\<close> has been written through \<open>vsnprintf_putc\<close>.\<close>

lemma vsnprintf_putc_fold:
  assumes "pos + rem \<le> length buf"
  shows "fold vsnprintf_putc t (Ret \<lparr>vs_buf = buf, vs_pos = pos, vs_rem = rem\<rparr>) =
    (let k = min (length t) (rem - 1) in
     Ret \<lparr>vs_buf = take pos buf @ take k t @ drop (pos + k) buf, vs_pos = pos + k, vs_rem = rem - k\<rparr>)"
  using assms
proof (induction t arbitrary: buf pos rem)
  case Nil
  then show ?case by simp
next
  case (Cons c t)
  show ?case
  proof (cases "rem \<le> 1")
    case True
    with Cons.IH [OF Cons.prems] show ?thesis
      by (simp add: vsnprintf_putc_def Let_def)
  next
    case False
    then obtain r where r: "rem = Suc (Suc r)"
      by (metis One_nat_def not0_implies_Suc nat_le_linear not_less_eq_eq)
    with Cons.prems have pos: "pos < length buf" by simp
    with r Cons.prems Cons.IH [of "pos + 1" "rem - 1" "buf[pos := c]"] show ?thesis
      by (simp add: vsnprintf_putc_def [of c] vs_store_def Let_def take_Suc_conv_app_nth)
  qed
qed

section \<open>The digits of an integer\<close>

definition digit_val :: "u8 \<Rightarrow> nat" where
  "digit_val c = (if c \<le> 57 then unat c - 48 else unat c - 87)"

definition digits_value :: "nat \<Rightarrow> u8 list \<Rightarrow> nat" where
  "digits_value base ds = foldl (\<lambda>v c. v * base + digit_val c) 0 ds"

lemma digits_value_snoc [simp]:
  "digits_value b (ds @ [c]) = digits_value b ds * b + digit_val c"
  by (simp add: digits_value_def)

lemma digits_value_Nil [simp]: "digits_value b [] = 0"
  by (simp add: digits_value_def)

lemma digit_val_dec:
  fixes d :: u64
  assumes "d < 10" shows "digit_val (48 + ucast d) = unat d"
proof -
  from assms have d: "unat d < 10" by (simp add: word_less_nat_alt)
  then have "unat (ucast d :: u8) = unat d" by (simp add: unat_ucast_small)
  with d have "unat (48 + ucast d :: u8) = 48 + unat d" by (simp add: unat_add_small)
  with d show ?thesis by (simp add: digit_val_def word_le_nat_alt)
qed

lemma digit_val_alpha:
  fixes d :: u64
  assumes "10 \<le> d" and "d < 36" shows "digit_val (87 + ucast d) = unat d"
proof -
  from assms have d: "10 \<le> unat d" "unat d < 36" by (simp_all add: word_less_nat_alt word_le_nat_alt)
  then have "unat (ucast d :: u8) = unat d" by (simp add: unat_ucast_small)
  with d have "unat (87 + ucast d :: u8) = 87 + unat d" by (simp add: unat_add_small)
  then show ?thesis using d by (simp add: digit_val_def word_le_nat_alt)
qed

lemma format_digits_value:
  assumes "2 \<le> unat base" and "unat base \<le> 36" and "unat val < unat base ^ p" and "0 < p"
  shows "\<exists>ds. format_digits p val base out = Ret (ds @ out) \<and>
           digits_value (unat base) ds = unat val \<and> ds \<noteq> [] \<and> length ds \<le> p"
  using assms(3,4)
proof (induction p arbitrary: val out)
  case (Suc p)
  let ?b = "ucast base :: u64"
  have b: "unat ?b = unat base"
    using unat_ucast_small [of base, where 'b = 64] unsigned_less [of base, where ?'a = nat] by simp
  define c :: u8 where
    "c = (if val mod ?b < 10 then 48 + ucast (val mod ?b) else 97 + ucast (val mod ?b) - 10)"
  have base: "base \<noteq> 0" using assms(1) by auto
  have lt: "unat (val mod ?b) < unat base" using assms(1) by (simp add: unat_mod b)
  then have "val mod ?b < 36" using assms(2) by (simp add: word_less_nat_alt)
  then have c: "digit_val c = unat val mod unat base"
    by (auto simp: c_def digit_val_dec digit_val_alpha not_less unat_mod b)
  have step: "format_digits (Suc p) val base out =
      (if val div ?b \<noteq> 0 then format_digits p (val div ?b) base (c # out) else Ret (c # out))"
    using base by (simp add: Let_def c_def)
  have div: "unat (val div ?b) = unat val div unat base" by (simp add: unat_div b)
  show ?case
  proof (cases "val div ?b = 0")
    case True
    then have "unat val div unat base = 0" using div by simp
    then have "unat val < unat base" using assms(1) by (simp add: div_eq_0_iff)
    with step True c show ?thesis by (intro exI [of _ "[c]"]) (simp add: digits_value_def)
  next
    case False
    then have nz: "0 < unat val div unat base" using div by (metis gr0I unat_eq_zero)
    have "0 < p"
    proof (rule ccontr)
      assume "\<not> 0 < p"
      with Suc.prems nz show False by (simp add: div_eq_0_iff)
    qed
    moreover have "unat (val div ?b) < unat base ^ p"
      using Suc.prems assms(1) by (simp add: div less_mult_imp_div_less mult.commute)
    ultimately obtain ds where ds: "format_digits p (val div ?b) base (c # out) = Ret (ds @ c # out)"
      "digits_value (unat base) ds = unat (val div ?b)" "length ds \<le> p"
      using Suc.IH by blast
    then show ?thesis using step False c div
      by (intro exI [of _ "ds @ [c]"]) (simp del: format_digits.simps)
  qed
qed simp

section \<open>Properties\<close>

text \<open>C17: On two terminated strings \<open>strcmp\<close> never reads past a terminator and returns 0 exactly when
  the strings are equal, and otherwise -1 or 1 as the first string precedes or follows the second
  in the lexicographic order of unsigned characters.\<close>

theorem strcmp_correct:
  assumes "cstr p s" and "cstr q t"
  shows "strcmp (Some p) (Some q) = Ret (if s = t then 0 else if s < t then -1 else 1)"
  using strcmp_loop_cstr [OF assms] by (simp add: strcmp_def)

theorem strcmp_correct_witness:
  "cstr [97, 98, 0, 1] [97, 98] \<and> cstr [97, 99, 0] [97, 99] \<and>
   strcmp (Some [97, 98, 0, 1]) (Some [97, 99, 0]) = Ret (-1)"
proof -
  have c: "cstr [97, 98, 0, 1] [97, 98]" "cstr [97, 99, 0] [97, 99]"
    by (simp_all add: cstr_def)
  from strcmp_correct [OF c] c show ?thesis by simp
qed

text \<open>C16: \<open>vsnprintf\<close> stores inside the first \<open>bufsz\<close> bytes of the buffer only: if the format and its
  arguments stand for the text \<open>t\<close>, then the buffer afterwards holds the longest prefix of \<open>t\<close> that
  leaves room for the terminator, followed by the terminator, every later byte is unchanged, and
  the result is the length of the whole text. With \<open>bufsz = 0\<close> nothing is stored.\<close>

theorem vsnprintf_correct:
  assumes "printf_text fmt ap = Ret t" and "bufsz \<le> length buf"
  shows "vsnprintf buf bufsz fmt ap =
    Ret (if bufsz = 0 then buf
         else let k = min (length t) (bufsz - 1) in take k t @ 0 # drop (Suc k) buf,
         length t)"
proof (cases bufsz)
  case 0
  then show ?thesis
    using vsnprintf_putc_fold [of 0 0 buf t]
    by (simp add: vsnprintf_def vgprintf_fold assms(1))
next
  case (Suc m)
  have "min (length t) m < length buf" using assms(2) Suc by simp
  then show ?thesis
    using vsnprintf_putc_fold [of 0 bufsz buf t] assms(2) Suc
    by (simp add: vsnprintf_def vgprintf_fold assms(1) vs_store_def Let_def
        list_update_append upd_conv_take_nth_drop Suc_diff_le)
qed

theorem vsnprintf_correct_witness:
  "vsnprintf [9, 9, 9, 9, 9] 4 [97, 37, 100, 0] [AInt 1234] = Ret ([97, 49, 50, 0, 9], 5)"
proof -
  have "printf_text [97, 37, 100, 0] [AInt 1234] = Ret [97, 49, 50, 51, 52]"
    by code_simp
  from vsnprintf_correct [OF this, of 4 "[9, 9, 9, 9, 9]"] show ?thesis by simp
qed

text \<open>C18: \<open>format_int\<close> never overruns its 40-character buffer in any base from 4 to 36, and what it
  writes is the padding up to the requested width followed by digits whose value in that base is the
  integer it was given; the result counts every character written.\<close>

theorem format_int_correct:
  assumes "4 \<le> unat base" and "unat base \<le> 36"
  shows "\<exists>ds. format_int putcfn aux val base zpad len =
      Ret (fold putcfn (pad_text (if zpad then 48 else 32) len ds @ ds) aux,
           max (unat len) (length ds)) \<and>
    digits_value (unat base) ds = unat val \<and> ds \<noteq> []"
proof -
  have "unat val < (4::nat) ^ 40" using unat_u64_lt [of val] by simp
  also have "\<dots> \<le> unat base ^ 40" using assms(1) by (rule power_mono) simp
  finally obtain ds where ds: "format_digits 40 val base [] = Ret ds"
      "digits_value (unat base) ds = unat val" "ds \<noteq> []"
    using format_digits_value [of base val 40 "[]"] assms by auto
  then show ?thesis
    by (intro exI [of _ ds]) (simp add: format_int_fold int_text_def pad_text_def max_def)
qed

theorem format_int_correct_witness:
  "\<exists>ds. format_int (\<lambda>c out. out @ [c]) [] 255 16 True 4 =
      Ret (fold (\<lambda>c out. out @ [c]) (pad_text 48 4 ds @ ds) [], max 4 (length ds)) \<and>
    digits_value 16 ds = 255 \<and> ds \<noteq> []"
  using format_int_correct [of 16 "\<lambda>c out. out @ [c]" "[]" 255 True 4] by simp

end
