(* ===== verification/Io.thy ===== *)
theory Io
  imports CString
begin

text \<open>
  \<^verbatim>\<open>kern/io.h\<close> and \<^verbatim>\<open>kern/io.c\<close>: the operations of an I/O object, the loops that transfer a whole buffer, the
  literal (in-memory) object and the terminal object, which translates line endings in both directions.
\<close>

section \<open>I/O objects\<close>

text \<open>
  The operations of an I/O object over a device state \<open>'s\<close>; an absent operation is a null pointer. \<open>read\<close> gets the
  size of the buffer and returns its result and the bytes it put at the start of the buffer; \<open>write\<close> gets the
  \<open>n\<close> bytes at its buffer argument; \<open>ctl\<close> gets the command and the integer its argument points to, and
  returns its result and the new value of that integer.
\<close>

record 's io_ops =
  op_close :: "('s \<Rightarrow> 's) option"
  op_read :: "(nat \<Rightarrow> 's \<Rightarrow> (int \<times> u8 list \<times> 's) outcome) option"
  op_write :: "(u8 list \<Rightarrow> 's \<Rightarrow> (int \<times> 's) outcome) option"
  op_ctl :: "(int \<Rightarrow> u64 \<Rightarrow> 's \<Rightarrow> (int \<times> u64 \<times> 's) outcome) option"

definition IOCTL_GETLEN :: int where "IOCTL_GETLEN = 1"
definition IOCTL_SETLEN :: int where "IOCTL_SETLEN = 2"
definition IOCTL_GETPOS :: int where "IOCTL_GETPOS = 3"
definition IOCTL_SETPOS :: int where "IOCTL_SETPOS = 4"
definition IOCTL_FLUSH :: int where "IOCTL_FLUSH = 5"
definition IOCTL_GETBLKSZ :: int where "IOCTL_GETBLKSZ = 6"
definition IO_FS_BLKSZ :: int where "IO_FS_BLKSZ = 4096"

lemmas ioctl_defs = IOCTL_GETLEN_def IOCTL_SETLEN_def IOCTL_GETPOS_def IOCTL_SETPOS_def IOCTL_FLUSH_def
  IOCTL_GETBLKSZ_def

text \<open>\<open>ioref\<close> on the member \<open>refcnt\<close>.\<close>

definition ioref :: "u32 \<Rightarrow> u32 \<times> u32" where
  "ioref refcnt = (let refcnt = refcnt + 1 in (refcnt, refcnt))"

definition ioclose :: "'s io_ops \<Rightarrow> 's \<Rightarrow> 's" where
  "ioclose ops s = (case op_close ops of Some f \<Rightarrow> f s | None \<Rightarrow> s)"

definition ioread :: "'s io_ops \<Rightarrow> nat \<Rightarrow> 's \<Rightarrow> (int \<times> u8 list \<times> 's) outcome" where
  "ioread ops bufsz s = (case op_read ops of Some f \<Rightarrow> f bufsz s | None \<Rightarrow> Ret (- ENOTSUP, [], s))"

definition ioctl :: "'s io_ops \<Rightarrow> int \<Rightarrow> u64 \<Rightarrow> 's \<Rightarrow> (int \<times> u64 \<times> 's) outcome" where
  "ioctl ops cmd arg s = (case op_ctl ops of Some f \<Rightarrow> f cmd arg s | None \<Rightarrow> Ret (- ENOTSUP, arg, s))"

definition ioseek :: "'s io_ops \<Rightarrow> u64 \<Rightarrow> 's \<Rightarrow> (int \<times> 's) outcome" where
  "ioseek ops pos s = obind (ioctl ops IOCTL_SETPOS pos s) (\<lambda>(r, _, s). Ret (r, s))"

text \<open>The loops of \<open>ioread_full\<close> and \<open>iowrite\<close>; the bytes read so far are \<open>done_bytes\<close>, and \<open>acc\<close> is their number.\<close>

function ioread_full_loop ::
    "(nat \<Rightarrow> 's \<Rightarrow> (int \<times> u8 list \<times> 's) outcome) \<Rightarrow> nat \<Rightarrow> nat \<Rightarrow> u8 list \<Rightarrow> 's \<Rightarrow> (int \<times> u8 list \<times> 's) outcome" where
  "ioread_full_loop rd bufsz acc bytes s =
     (if acc < bufsz then
        obind (rd (bufsz - acc) s) (\<lambda>(cnt, bs, s).
          if cnt < 0 then Ret (cnt, bytes, s)
          else if cnt = 0 then Ret (int acc, bytes, s)
          else ioread_full_loop rd bufsz (acc + nat cnt) (bytes @ bs) s)
      else Ret (int acc, bytes, s))"
  by pat_completeness auto
termination by (relation "measure (\<lambda>(rd, bufsz, acc, bytes, s). bufsz - acc)") auto

definition ioread_full :: "'s io_ops \<Rightarrow> nat \<Rightarrow> 's \<Rightarrow> (int \<times> u8 list \<times> 's) outcome" where
  "ioread_full ops bufsz s =
     (case op_read ops of None \<Rightarrow> Ret (- ENOTSUP, [], s) | Some rd \<Rightarrow> ioread_full_loop rd bufsz 0 [] s)"

function iowrite_loop :: "(u8 list \<Rightarrow> 's \<Rightarrow> (int \<times> 's) outcome) \<Rightarrow> u8 list \<Rightarrow> nat \<Rightarrow> 's \<Rightarrow> (int \<times> 's) outcome" where
  "iowrite_loop wr buf acc s =
     (if acc < length buf then
        obind (wr (drop acc buf) s) (\<lambda>(cnt, s).
          if cnt < 0 then Ret (cnt, s)
          else if cnt = 0 then Ret (int acc, s)
          else iowrite_loop wr buf (acc + nat cnt) s)
      else Ret (int acc, s))"
  by pat_completeness auto
termination by (relation "measure (\<lambda>(wr, buf, acc, s). length buf - acc)") auto

declare ioread_full_loop.simps [simp del] iowrite_loop.simps [simp del]

definition iowrite :: "'s io_ops \<Rightarrow> u8 list \<Rightarrow> 's \<Rightarrow> (int \<times> 's) outcome" where
  "iowrite ops buf s = (case op_write ops of None \<Rightarrow> Ret (- ENOTSUP, s) | Some wr \<Rightarrow> iowrite_loop wr buf 0 s)"

text \<open>\<open>ioputc\<close> and \<open>iogetc\<close>. If \<open>read\<close> reports a byte but stores none, \<open>c\<close> is an uninitialised variable.\<close>

definition ioputc :: "'s io_ops \<Rightarrow> u8 \<Rightarrow> 's \<Rightarrow> (int \<times> 's) outcome" where
  "ioputc ops c s =
     obind (iowrite ops [c] s) (\<lambda>(wlen, s).
       Ret (if wlen < 0 then wlen else if wlen = 0 then - EIO else int (unat c), s))"

definition iogetc :: "'s io_ops \<Rightarrow> 's \<Rightarrow> (int \<times> 's) outcome" where
  "iogetc ops s =
     obind (ioread ops 1 s) (\<lambda>(rlen, bs, s).
       if rlen < 0 then Ret (rlen, s)
       else if rlen = 0 then Ret (- EIO, s)
       else case bs of [] \<Rightarrow> Fault | c # _ \<Rightarrow> Ret (int (unat c), s))"

definition ioputs :: "'s io_ops \<Rightarrow> u8 list \<Rightarrow> 's \<Rightarrow> (int \<times> 's) outcome" where
  "ioputs ops str s =
     obind (strlen str) (\<lambda>slen.
     obind (iowrite ops (take slen str) s) (\<lambda>(wlen, s).
       if wlen < 0 then Ret (wlen, s)
       else
         obind (iowrite ops [10] s) (\<lambda>(wlen, s).
           if wlen < 0 then Ret (wlen, s) else Ret (0, s))))"

text \<open>\<open>iovprintf\<close>; the state carries the object and the first error.\<close>

definition iovprintf_putc :: "'s io_ops \<Rightarrow> u8 \<Rightarrow> ('s \<times> int) outcome \<Rightarrow> ('s \<times> int) outcome" where
  "iovprintf_putc ops c aux =
     obind aux (\<lambda>(s, err).
       if err = 0 then
         obind (ioputc ops c s) (\<lambda>(result, s). Ret (s, if result < 0 then result else err))
       else Ret (s, err))"

definition iovprintf :: "'s io_ops \<Rightarrow> u8 list \<Rightarrow> varg list \<Rightarrow> 's \<Rightarrow> (int \<times> 's) outcome" where
  "iovprintf ops fmt ap s =
     obind (vgprintf (iovprintf_putc ops) (Ret (s, 0)) fmt ap) (\<lambda>(aux, nout).
       obind aux (\<lambda>(s, err). Ret (if err \<noteq> 0 then err else int nout, s)))"

definition ioprintf :: "'s io_ops \<Rightarrow> u8 list \<Rightarrow> varg list \<Rightarrow> 's \<Rightarrow> (int \<times> 's) outcome" where
  "ioprintf ops fmt ap s = iovprintf ops fmt ap s"

section \<open>Literals\<close>

text \<open>\<open>struct io_lit\<close>; \<open>lit_buf\<close> is the object at \<open>buf\<close>.\<close>

record io_lit =
  lit_buf :: "u8 list"
  lit_size :: u64
  lit_pos :: u64

definition iolit_close :: "io_lit \<Rightarrow> io_lit" where
  "iolit_close lit = lit"

definition iolit_write :: "u8 list \<Rightarrow> io_lit \<Rightarrow> (int \<times> io_lit) outcome" where
  "iolit_write buf lit =
     (if unat (lit_size lit - lit_pos lit) < length buf then Ret (- EFILESYS, lit)
      else
        obind (memcpy (drop (unat (lit_pos lit)) (lit_buf lit)) buf (length buf)) (\<lambda>dst.
          Ret (int (length buf), lit\<lparr>lit_buf := take (unat (lit_pos lit)) (lit_buf lit) @ dst\<rparr>)))"

definition iolit_read :: "nat \<Rightarrow> io_lit \<Rightarrow> (int \<times> u8 list \<times> io_lit) outcome" where
  "iolit_read bufsz lit =
     (if unat (lit_size lit - lit_pos lit) < bufsz then Ret (- EFILESYS, [], lit)
      else
        obind (memcpy (replicate bufsz 0) (drop (unat (lit_pos lit)) (lit_buf lit)) bufsz) (\<lambda>buf.
          Ret (int bufsz, buf, lit)))"

text \<open>The argument of \<open>iolit_ctl\<close> is accessed as an \<open>int\<close>: the low half of the cell.\<close>

definition set_low :: "u64 \<Rightarrow> u64 \<Rightarrow> u64" where
  "set_low v arg = (arg AND NOT (mask 32)) OR (v AND mask 32)"

definition iolit_ctl :: "int \<Rightarrow> u64 \<Rightarrow> io_lit \<Rightarrow> (int \<times> u64 \<times> io_lit) outcome" where
  "iolit_ctl cmd arg lit =
     (if cmd = IOCTL_GETBLKSZ then Ret (IO_FS_BLKSZ, arg, lit)
      else if cmd = IOCTL_GETLEN then
        let arg = set_low (lit_size lit) arg in Ret (int_of arg, arg, lit)
      else if cmd = IOCTL_GETPOS then
        let arg = set_low (lit_pos lit) arg in Ret (int_of arg, arg, lit)
      else if cmd = IOCTL_SETPOS then Ret (int_of arg, arg, lit\<lparr>lit_pos := of_int (int_of arg)\<rparr>)
      else Ret (- EFILESYS, arg, lit))"

definition iolit_ops :: "io_lit io_ops" where
  "iolit_ops = \<lparr>op_close = Some iolit_close, op_read = Some iolit_read, op_write = Some iolit_write, op_ctl = Some iolit_ctl\<rparr>"

definition iolit_init :: "u8 list \<Rightarrow> u64 \<Rightarrow> io_lit io_ops \<times> io_lit" where
  "iolit_init buf sz = (iolit_ops, \<lparr>lit_buf = buf, lit_size = sz, lit_pos = 0\<rparr>)"

section \<open>Terminals\<close>

record 's io_term =
  rawio :: 's
  cr_out :: bool
  cr_in :: bool

abbreviation CR :: u8 where "CR \<equiv> 13"
abbreviation LF :: u8 where "LF \<equiv> 10"

definition set_raw :: "'s io_term \<Rightarrow> 's \<Rightarrow> 's io_term" where
  "set_raw iot s = iot\<lparr>rawio := s\<rparr>"

text \<open>The scan of \<open>ioterm_read\<close> over the bytes in the buffer: the bytes kept, and \<open>cr_in\<close>.\<close>

fun ioterm_scan :: "bool \<Rightarrow> u8 list \<Rightarrow> u8 list \<times> bool" where
  "ioterm_scan cr [] = ([], cr)"
| "ioterm_scan cr (ch # rp) =
     (if cr then
        if ch = CR then (case ioterm_scan True rp of (wp, cr) \<Rightarrow> (LF # wp, cr))
        else if ch = LF then ioterm_scan False rp
        else (case ioterm_scan False rp of (wp, cr) \<Rightarrow> (ch # wp, cr))
      else
        if ch = CR then (case ioterm_scan True rp of (wp, cr) \<Rightarrow> (LF # wp, cr))
        else (case ioterm_scan False rp of (wp, cr) \<Rightarrow> (ch # wp, cr)))"

text \<open>The loop of \<open>ioterm_read\<close> repeats until a byte is left; it has no bound.\<close>

fun ioterm_read :: "'s io_ops \<Rightarrow> nat \<Rightarrow> nat \<Rightarrow> 's io_term \<Rightarrow> (int \<times> u8 list \<times> 's io_term) outcome" where
  "ioterm_read ops 0 len iot = Running"
| "ioterm_read ops (Suc fuel) len iot =
     obind (ioread ops len (rawio iot)) (\<lambda>(cnt, bs, s).
       let iot = set_raw iot s in
       if cnt < 0 then Ret (cnt, [], iot)
       else
         case ioterm_scan (cr_in iot) (take (nat cnt) bs) of (wp, cr) \<Rightarrow>
           let iot = iot\<lparr>cr_in := cr\<rparr> in
           if wp = [] then ioterm_read ops fuel len iot
           else Ret (int (length wp), wp, iot))"

text \<open>
  \<open>ioterm_write\<close>: \<open>rp\<close> and \<open>wp\<close> are offsets in the buffer. A round of the loop either goes on with new values of
  \<open>rp\<close>, \<open>wp\<close> and \<open>acc\<close> or returns from the function.
\<close>

datatype ioterm_ctl = Go nat nat int | Stop int

definition raw_putc :: "'s io_ops \<Rightarrow> u8 \<Rightarrow> 's io_term \<Rightarrow> (int \<times> 's io_term) outcome" where
  "raw_putc ops c iot = obind (ioputc ops c (rawio iot)) (\<lambda>(r, s). Ret (r, set_raw iot s))"

definition raw_write :: "'s io_ops \<Rightarrow> u8 list \<Rightarrow> 's io_term \<Rightarrow> (int \<times> 's io_term) outcome" where
  "raw_write ops buf iot = obind (iowrite ops buf (rawio iot)) (\<lambda>(r, s). Ret (r, set_raw iot s))"

definition slice :: "u8 list \<Rightarrow> nat \<Rightarrow> nat \<Rightarrow> u8 list" where
  "slice buf a b = take (b - a) (drop a buf)"

definition ioterm_write_cr ::
    "'s io_ops \<Rightarrow> u8 list \<Rightarrow> nat \<Rightarrow> nat \<Rightarrow> int \<Rightarrow> 's io_term \<Rightarrow> (ioterm_ctl \<times> 's io_term) outcome" where
  "ioterm_write_cr ops buf rp wp acc iot =
     (if rp < length buf \<and> buf ! rp = LF then Ret (Go (rp + 1) wp acc, iot\<lparr>cr_out := False\<rparr>)
      else
        obind (raw_write ops (slice buf wp rp) iot) (\<lambda>(cnt, iot).
          if cnt < 0 then Ret (Stop cnt, iot)
          else if cnt = 0 then Ret (Stop acc, iot)
          else
            let acc = acc + cnt; wp = wp + nat cnt in
            obind (raw_putc ops LF iot) (\<lambda>(cnt, iot).
              if cnt < 0 then Ret (Stop cnt, iot)
              else Ret (Go rp wp acc, iot\<lparr>cr_out := True\<rparr>))))"

definition ioterm_write_lf ::
    "'s io_ops \<Rightarrow> u8 list \<Rightarrow> nat \<Rightarrow> nat \<Rightarrow> int \<Rightarrow> 's io_term \<Rightarrow> (ioterm_ctl \<times> 's io_term) outcome" where
  "ioterm_write_lf ops buf rp wp acc iot =
     (if cr_out iot then Ret (Go rp (wp + 1) acc, iot\<lparr>cr_out := False\<rparr>)
      else
        obind
          (if wp \<noteq> rp - 1 then
             obind (raw_write ops (slice buf wp (rp - 1)) iot) (\<lambda>(cnt, iot).
               if cnt < 0 then Ret (Stop cnt, iot)
               else if cnt = 0 then Ret (Stop acc, iot)
               else Ret (Go rp (wp + nat cnt) (acc + cnt), iot))
           else Ret (Go rp wp acc, iot))
          (\<lambda>(c, iot). case c of
             Stop r \<Rightarrow> Ret (Stop r, iot)
           | Go rp wp acc \<Rightarrow>
               obind (raw_putc ops CR iot) (\<lambda>(cnt, iot).
                 if cnt < 0 then Ret (Stop cnt, iot)
                 else Ret (Go rp wp acc, iot\<lparr>cr_out := False\<rparr>))))"

definition ioterm_write_char ::
    "'s io_ops \<Rightarrow> u8 list \<Rightarrow> nat \<Rightarrow> nat \<Rightarrow> int \<Rightarrow> 's io_term \<Rightarrow> (ioterm_ctl \<times> 's io_term) outcome" where
  "ioterm_write_char ops buf rp wp acc iot =
     (let ch = buf ! rp; rp = rp + 1 in
      if ch = CR then ioterm_write_cr ops buf rp wp acc iot
      else if ch = LF then ioterm_write_lf ops buf rp wp acc iot
      else Ret (Go rp wp acc, iot\<lparr>cr_out := False\<rparr>))"

lemma ioterm_write_char_advances:
  "ioterm_write_char ops buf rp wp acc iot = Ret (Go rp' wp' acc', iot') \<Longrightarrow> rp < rp'"
  by (auto simp: ioterm_write_char_def ioterm_write_cr_def ioterm_write_lf_def Let_def
      split: if_splits ioterm_ctl.splits prod.splits)

function ioterm_write_loop ::
    "'s io_ops \<Rightarrow> u8 list \<Rightarrow> nat \<Rightarrow> nat \<Rightarrow> int \<Rightarrow> 's io_term \<Rightarrow> (int \<times> 's io_term) outcome" where
  "ioterm_write_loop ops buf rp wp acc iot =
     (if rp < length buf then
        obind (ioterm_write_char ops buf rp wp acc iot) (\<lambda>(c, iot).
          case c of Stop r \<Rightarrow> Ret (r, iot) | Go rp wp acc \<Rightarrow> ioterm_write_loop ops buf rp wp acc iot)
      else if rp \<noteq> wp then
        obind (raw_write ops (slice buf wp rp) iot) (\<lambda>(cnt, iot).
          if cnt < 0 then Ret (cnt, iot)
          else if cnt = 0 then Ret (acc, iot)
          else Ret (acc + cnt, iot))
      else Ret (acc, iot))"
  by pat_completeness auto
termination
  by (relation "measure (\<lambda>(ops, buf, rp, wp, acc, iot). length buf - rp)")
    (auto dest: ioterm_write_char_advances)

declare ioterm_write_loop.simps [simp del]

definition ioterm_write :: "'s io_ops \<Rightarrow> u8 list \<Rightarrow> 's io_term \<Rightarrow> (int \<times> 's io_term) outcome" where
  "ioterm_write ops buf iot = ioterm_write_loop ops buf 0 0 0 iot"

definition ioterm_close :: "'s io_ops \<Rightarrow> 's io_term \<Rightarrow> 's io_term" where
  "ioterm_close ops iot = set_raw iot (ioclose ops (rawio iot))"

definition ioterm_ioctl :: "'s io_ops \<Rightarrow> int \<Rightarrow> u64 \<Rightarrow> 's io_term \<Rightarrow> (int \<times> u64 \<times> 's io_term) outcome" where
  "ioterm_ioctl ops cmd arg iot =
     (if cmd \<noteq> IOCTL_SETPOS
      then obind (ioctl ops cmd arg (rawio iot)) (\<lambda>(r, arg, s). Ret (r, arg, set_raw iot s))
      else Ret (- ENOTSUP, arg, iot))"

definition ioterm_ops :: "nat \<Rightarrow> 's io_ops \<Rightarrow> 's io_term io_ops" where
  "ioterm_ops fuel ops =
     \<lparr>op_close = Some (ioterm_close ops), op_read = Some (ioterm_read ops fuel), op_write = Some (ioterm_write ops),
      op_ctl = Some (ioterm_ioctl ops)\<rparr>"

definition ioterm_init :: "'s \<Rightarrow> 's io_term" where
  "ioterm_init s = \<lparr>rawio = s, cr_out = False, cr_in = False\<rparr>"

text \<open>
  \<open>ioterm_getsn\<close>: \<open>line\<close> is the text from \<open>buf\<close> to \<open>p\<close>, and \<open>cap\<close> the size of the object at \<open>buf\<close>. The result is the
  text in front of the terminator, or \<open>None\<close> for a null pointer. \<open>c\<close> is the result of \<open>iogetc\<close> converted to
  \<open>char\<close>, errors included.
\<close>

fun ioputs_raw :: "'s io_ops \<Rightarrow> u8 list \<Rightarrow> 's io_term \<Rightarrow> (int \<times> 's io_term) outcome" where
  "ioputs_raw ops [] iot = Ret (0, iot)"
| "ioputs_raw ops (c # cs) iot =
     obind (raw_putc ops c iot) (\<lambda>(r, iot). if r < 0 then Ret (r, iot) else ioputs_raw ops cs iot)"

fun ioterm_getsn ::
    "'s io_ops \<Rightarrow> nat \<Rightarrow> nat \<Rightarrow> nat \<Rightarrow> u8 list \<Rightarrow> 's io_term \<Rightarrow> (u8 list option \<times> 's io_term) outcome" where
  "ioterm_getsn ops 0 cap n line iot = Running"
| "ioterm_getsn ops (Suc fuel) cap n line iot =
     obind (iogetc (ioterm_ops fuel ops) iot) (\<lambda>(r, iot).
       let c = of_int r :: u8 in
       if c = 0x5B then ioterm_getsn ops fuel cap n line (iot\<lparr>cr_in := False\<rparr>)
       else if c = CR \<or> c = LF then
         obind (ioputs_raw ops [CR, LF] iot) (\<lambda>(result, iot).
           if result < 0 then Ret (None, iot)
           else if cap \<le> length line then Fault
           else Ret (Some line, iot))
       else if c = 8 \<or> c = 127 then
         if line \<noteq> [] then
           obind (ioputs_raw ops [8, 32, 8] iot) (\<lambda>(result, iot).
             if result < 0 then Ret (None, iot)
             else ioterm_getsn ops fuel cap (n + 1) (butlast line) iot)
         else
           obind (raw_putc ops 7 iot) (\<lambda>(result, iot).
             if result < 0 then Ret (None, iot) else ioterm_getsn ops fuel cap n line iot)
       else if 1 < n then
         obind (raw_putc ops c iot) (\<lambda>(result, iot).
           if cap \<le> length line then Fault
           else if result < 0 then Ret (None, iot)
           else ioterm_getsn ops fuel cap (n - 1) (line @ [c]) iot)
       else
         obind (raw_putc ops 7 iot) (\<lambda>(result, iot).
           if result < 0 then Ret (None, iot) else ioterm_getsn ops fuel cap n line iot))"

end
