(* ===== verification/Pages.thy ===== *)
theory Pages
  imports Prelude
begin

text \<open>
  The state of the memory manager and the physical page allocator of \<^verbatim>\<open>kern/memory.c\<close>
  (\<open>memory_alloc_page\<close>, \<open>memory_free_page\<close>). Physical memory is a function from the address of an
  aligned 8-byte word to its contents; it holds the page tables, the links of the free list and the
  data of the pages, so that all aliasing between them is visible. The kernel reaches physical memory
  at its own address; an access outside RAM is a \<open>Fault\<close>.
\<close>

section \<open>State\<close>

definition PAGE_SIZE :: u64 where "PAGE_SIZE = 4096"
definition RAM_START :: u64 where "RAM_START = 0x80000000"
definition RAM_SIZE :: u64 where "RAM_SIZE = 8 * 1024 * 1024"
definition RAM_END :: u64 where "RAM_END = RAM_START + RAM_SIZE"

record mstate =
  pmem :: "u64 \<Rightarrow> u64"
  free_list :: u64
  heap_start :: u64
  heap_end :: u64
  heap_initialized :: bool
  satp :: u64
  main_mtag :: u64
  memory_initialized :: bool

definition in_ram :: "u64 \<Rightarrow> bool" where
  "in_ram a \<longleftrightarrow> RAM_START \<le> a \<and> a < RAM_END"

definition load :: "u64 \<Rightarrow> mstate \<Rightarrow> u64 outcome" where
  "load a s = (if in_ram a then Ret (pmem s a) else Fault)"

definition store :: "u64 \<Rightarrow> u64 \<Rightarrow> mstate \<Rightarrow> mstate outcome" where
  "store a v s = (if in_ram a then Ret (s\<lparr>pmem := (pmem s)(a := v)\<rparr>) else Fault)"

section \<open>The free page list\<close>

definition memory_alloc_page :: "mstate \<Rightarrow> (u64 \<times> mstate) outcome" where
  "memory_alloc_page s =
     (if free_list s = 0 then Panic ''No Available Free Space''
      else
        let physical_mem = free_list s in
        obind (load (free_list s) s) (\<lambda>next. Ret (physical_mem, s\<lparr>free_list := next\<rparr>)))"

definition memory_free_page :: "u64 \<Rightarrow> mstate \<Rightarrow> mstate outcome" where
  "memory_free_page pp s =
     obind (store pp (free_list s) s) (\<lambda>s. Ret (s\<lparr>free_list := pp\<rparr>))"

text \<open>Abstraction: the pages linked from an address, in order.\<close>

definition page_ok :: "u64 \<Rightarrow> bool" where
  "page_ok p \<longleftrightarrow> unat p mod 4096 = 0 \<and> in_ram p"

fun flist :: "(u64 \<Rightarrow> u64) \<Rightarrow> u64 \<Rightarrow> u64 list \<Rightarrow> bool" where
  "flist m p [] \<longleftrightarrow> p = 0"
| "flist m p (x # xs) \<longleftrightarrow> p = x \<and> page_ok x \<and> flist m (m x) xs"

definition pool :: "mstate \<Rightarrow> u64 list \<Rightarrow> bool" where
  "pool s ps \<longleftrightarrow> flist (pmem s) (free_list s) ps"

section \<open>The interface of the page allocator\<close>

locale page_allocator =
  fixes alloc :: "'s \<Rightarrow> (u64 \<times> 's) outcome"
    and release :: "u64 \<Rightarrow> 's \<Rightarrow> 's outcome"
    and free_pages :: "'s \<Rightarrow> u64 list \<Rightarrow> bool"
  assumes alloc_Cons: "free_pages s (p # ps) \<Longrightarrow> \<exists>s'. alloc s = Ret (p, s') \<and> free_pages s' ps"
    and alloc_Nil: "free_pages s [] \<Longrightarrow> \<exists>msg. alloc s = Panic msg"
    and release_Cons: "free_pages s ps \<Longrightarrow> page_ok p \<Longrightarrow> p \<notin> set ps \<Longrightarrow>
      \<exists>s'. release p s = Ret s' \<and> free_pages s' (p # ps)"
    and free_distinct: "free_pages s ps \<Longrightarrow> distinct ps"
    and free_ok: "free_pages s ps \<Longrightarrow> p \<in> set ps \<Longrightarrow> page_ok p"
begin

lemma alloc_returns: "free_pages s ps \<Longrightarrow> ps \<noteq> [] \<Longrightarrow> \<exists>s'. alloc s = Ret (hd ps, s') \<and> free_pages s' (tl ps)"
  by (cases ps) (auto dest: alloc_Cons)

lemma alloc_result:
  "free_pages s ps \<Longrightarrow> alloc s = Ret (p, s') \<Longrightarrow> \<exists>qs. ps = p # qs \<and> free_pages s' qs \<and> p \<notin> set qs"
  by (cases ps) (use free_distinct in \<open>fastforce dest: alloc_Cons alloc_Nil\<close>)+

lemma release_alloc:
  assumes "free_pages s ps" and "page_ok p" and "p \<notin> set ps" and "release p s = Ret s1"
  shows "\<exists>s2. alloc s1 = Ret (p, s2) \<and> free_pages s2 ps"
  using release_Cons [OF assms(1-3)] assms(4) alloc_Cons by fastforce

text \<open>Releasing a list of pages one after the other.\<close>

lemma release_many:
  assumes "free_pages s ps" and "\<And>p. p \<in> set qs \<Longrightarrow> page_ok p" and "distinct (qs @ ps)"
  shows "\<exists>s'. ofold release qs s = Ret s' \<and> free_pages s' (rev qs @ ps)"
  using assms
proof (induction qs arbitrary: s ps)
  case (Cons q qs)
  then obtain s1 where s1: "release q s = Ret s1" and f1: "free_pages s1 (q # ps)"
    using release_Cons [of s ps q] by auto
  from Cons.prems have "distinct (qs @ q # ps)" by auto
  with Cons.IH [OF f1] Cons.prems(2) obtain s' where
    "ofold release qs s1 = Ret s'" "free_pages s' (rev qs @ q # ps)" by auto
  with s1 show ?case by simp
qed simp

end

section \<open>The free list implements it\<close>

lemma page_ok_nonzero: "page_ok p \<Longrightarrow> p \<noteq> 0"
  by (auto simp: page_ok_def in_ram_def RAM_START_def)

lemma flist_unique: "flist m p xs \<Longrightarrow> flist m p ys \<Longrightarrow> xs = ys"
proof (induction xs arbitrary: p ys)
  case Nil
  then show ?case by (cases ys) (auto simp: page_ok_nonzero)
next
  case (Cons x xs)
  then show ?case by (cases ys) (auto simp: page_ok_nonzero)
qed

lemma flist_suffix: "flist m p (xs @ y # ys) \<Longrightarrow> flist m y (y # ys)"
  by (induction xs arbitrary: p) auto

lemma flist_distinct: "flist m p xs \<Longrightarrow> distinct xs"
proof (induction xs arbitrary: p)
  case (Cons x xs)
  have "x \<notin> set xs"
  proof
    assume "x \<in> set xs"
    then obtain us vs where xs: "xs = us @ x # vs" by (meson split_list)
    with Cons.prems have "flist m x (x # vs)" and "flist m x (x # us @ x # vs)"
      using flist_suffix [of m p "x # us" x vs] by auto
    from flist_unique [OF this] show False by simp
  qed
  with Cons show ?case by auto
qed simp

lemma flist_page_ok: "flist m p xs \<Longrightarrow> x \<in> set xs \<Longrightarrow> page_ok x"
  by (induction xs arbitrary: p) auto

lemma flist_upd [simp]: "a \<notin> set xs \<Longrightarrow> flist (m(a := v)) p xs = flist m p xs"
  by (induction xs arbitrary: p) auto

lemma flist_agree: "(\<And>x. x \<in> set xs \<Longrightarrow> m x = m' x) \<Longrightarrow> flist m p xs = flist m' p xs"
  by (induction xs arbitrary: p) auto

lemma pool_simps [simp]:
  "pool (s\<lparr>heap_start := a\<rparr>) ps = pool s ps" "pool (s\<lparr>heap_end := a\<rparr>) ps = pool s ps"
  "pool (s\<lparr>satp := a\<rparr>) ps = pool s ps"
  by (simp_all add: pool_def)

lemma memory_alloc_page_Cons:
  "pool s (p # ps) \<Longrightarrow>
     memory_alloc_page s = Ret (p, s\<lparr>free_list := pmem s p\<rparr>) \<and> pool (s\<lparr>free_list := pmem s p\<rparr>) ps"
  by (auto simp: pool_def memory_alloc_page_def load_def page_ok_nonzero) (simp add: page_ok_def)

lemma memory_free_page_Ret:
  assumes "pool s ps" and "page_ok p" and "p \<notin> set ps"
  shows "memory_free_page p s = Ret (s\<lparr>pmem := (pmem s)(p := free_list s), free_list := p\<rparr>) \<and>
    pool (s\<lparr>pmem := (pmem s)(p := free_list s), free_list := p\<rparr>) (p # ps)"
  using assms by (auto simp: pool_def memory_free_page_def store_def) (simp add: page_ok_def)

interpretation pa: page_allocator memory_alloc_page memory_free_page pool
proof unfold_locales
  fix s p ps
  show "pool s (p # ps) \<Longrightarrow> \<exists>s'. memory_alloc_page s = Ret (p, s') \<and> pool s' ps"
    using memory_alloc_page_Cons by blast
  show "pool s [] \<Longrightarrow> \<exists>msg. memory_alloc_page s = Panic msg"
    by (auto simp: pool_def memory_alloc_page_def)
  show "pool s ps \<Longrightarrow> page_ok p \<Longrightarrow> p \<notin> set ps \<Longrightarrow>
      \<exists>s'. memory_free_page p s = Ret s' \<and> pool s' (p # ps)"
    using memory_free_page_Ret by blast
  show "pool s ps \<Longrightarrow> distinct ps" by (auto simp: pool_def dest: flist_distinct)
  show "pool s ps \<Longrightarrow> p \<in> set ps \<Longrightarrow> page_ok p" by (auto simp: pool_def dest: flist_page_ok)
qed

end
