(* ===== verification/Heap.thy ===== *)
theory Heap
  imports Pages
begin

text \<open>
  \<^verbatim>\<open>kern/ezheap.c\<close>: the allocator for small blocks. It hands out memory from the upper end of its
  current block and takes further pages from the page allocator; it never takes memory back.
\<close>

definition SIZE_MAX :: u64 where "SIZE_MAX = - 1"

definition heap_init :: "u64 \<Rightarrow> u64 \<Rightarrow> mstate \<Rightarrow> mstate outcome" where
  "heap_init start fin s =
     obind (c_assert (start < fin)) (\<lambda>_.
       Ret (s\<lparr>heap_start := start, heap_end := fin, heap_initialized := True\<rparr>))"

definition kmalloc :: "u64 \<Rightarrow> mstate \<Rightarrow> (u64 \<times> mstate) outcome" where
  "kmalloc sz s =
     (let sz = (sz + 16 - 1) div 16 * 16 in
      if PAGE_SIZE < sz then Panic ''heap alloc request too large''
      else if sz \<le> heap_end s - heap_start s then
        let s = s\<lparr>heap_end := heap_end s - sz\<rparr> in Ret (heap_end s, s)
      else
        obind (memory_alloc_page s) (\<lambda>(new_block, s).
          if heap_end s - heap_start s < PAGE_SIZE - sz then
            let s = s\<lparr>heap_start := new_block, heap_end := new_block + PAGE_SIZE - sz\<rparr>
            in Ret (heap_end s, s)
          else Ret (new_block, s)))"

text \<open>\<open>memset(ptr, 0, n)\<close> on word-aligned memory: whole words, then the low bytes of the last word.\<close>

definition zero_word :: "u64 \<Rightarrow> u64 \<Rightarrow> mstate \<Rightarrow> mstate outcome" where
  "zero_word keep a s = obind (load a s) (\<lambda>w. store a (w AND keep) s)"

definition memset_zero :: "u64 \<Rightarrow> u64 \<Rightarrow> mstate \<Rightarrow> mstate outcome" where
  "memset_zero ptr n s =
     obind (ofold (\<lambda>i. zero_word 0 (ptr + 8 * of_nat i)) [0..<unat n div 8] s) (\<lambda>s.
       if unat n mod 8 = 0 then Ret s
       else zero_word (NOT (mask (8 * (unat n mod 8)))) (ptr + 8 * of_nat (unat n div 8)) s)"

definition kcalloc :: "u64 \<Rightarrow> u64 \<Rightarrow> mstate \<Rightarrow> (u64 \<times> mstate) outcome" where
  "kcalloc n sz s =
     (if sz = 0 then Fault
      else if SIZE_MAX div sz < n then Panic ''heap alloc request too large''
      else
        obind (kmalloc (n * sz) s) (\<lambda>(ptr, s).
          obind (memset_zero ptr (n * sz) s) (\<lambda>s. Ret (ptr, s))))"

definition krealloc :: "u64 \<Rightarrow> u64 \<Rightarrow> mstate \<Rightarrow> (u64 \<times> mstate) outcome" where
  "krealloc ptr sz s = Panic ''krealloc not implemented''"

definition kfree :: "u64 \<Rightarrow> mstate \<Rightarrow> mstate outcome" where
  "kfree ptr s = Ret s"

section \<open>Blocks do not overlap\<close>

definition bytes :: "u64 \<Rightarrow> nat \<Rightarrow> nat set" where
  "bytes p n = {unat p..<unat p + n}"

definition heap_block :: "mstate \<Rightarrow> nat set" where
  "heap_block s = {unat (heap_start s)..<unat (heap_end s)}"

text \<open>
  \<open>heap_inv s ps used\<close>: the pages \<open>ps\<close> are free, the current block is a range of addresses with an
  aligned end, and neither contains a byte of \<open>used\<close> or of the other.
\<close>

definition heap_inv :: "mstate \<Rightarrow> u64 list \<Rightarrow> nat set \<Rightarrow> bool" where
  "heap_inv s ps used \<longleftrightarrow> pool s ps \<and> heap_start s \<le> heap_end s \<and> 16 dvd unat (heap_end s) \<and>
     used \<inter> heap_block s = {} \<and> (\<forall>p \<in> set ps. bytes p 4096 \<inter> (used \<union> heap_block s) = {})"

lemma unat_round16:
  assumes "unat sz \<le> 4096"
  shows "unat ((sz + 16 - 1) div 16 * 16 :: u64) = (unat sz + 15) div 16 * 16"
proof -
  have "unat (sz + 15) = unat sz + 15" using assms by (subst unat_add_small) auto
  moreover have "(unat sz + 15) div 16 * 16 \<le> unat sz + 15" by simp
  ultimately show ?thesis
    using assms by (simp add: unat_word_ariths unat_div)
qed

lemma round16_bounds:
  fixes n :: nat
  shows "n \<le> (n + 15) div 16 * 16" and "16 dvd (n + 15) div 16 * 16"
    and "n \<le> 4096 \<Longrightarrow> (n + 15) div 16 * 16 \<le> 4096"
proof -
  show "n \<le> (n + 15) div 16 * 16" using div_mult_mod_eq [of "n + 15" 16] mod_less_divisor [of 16 "n + 15"]
    by linarith
  show "n \<le> 4096 \<Longrightarrow> (n + 15) div 16 * 16 \<le> 4096" by simp
qed simp

lemma page_aligned_obtain: assumes "page_ok p" obtains k where "unat p = 4096 * k"
  using assms by (auto simp: page_ok_def)

lemma page_ok_bound: "page_ok p \<Longrightarrow> unat p + 4096 \<le> 0x80800000"
  by (frule page_aligned_obtain [of p])
    (auto simp: page_ok_def in_ram_def RAM_END_def RAM_START_def RAM_SIZE_def word_less_nat_alt)

lemma bytes_pages_disjoint:
  assumes "page_ok p" and "page_ok q" and "p \<noteq> q"
  shows "bytes p 4096 \<inter> bytes q 4096 = {}"
proof -
  obtain k j where "unat p = 4096 * k" "unat q = 4096 * j"
    using assms(1,2) by (metis page_aligned_obtain)
  moreover from this assms(3) have "k \<noteq> j" by (auto simp: word_unat_eq_iff)
  ultimately show ?thesis by (auto simp: bytes_def)
qed

lemma heap_invI:
  assumes "pool s ps" and "heap_start s \<le> heap_end s" and "16 dvd unat (heap_end s)"
    and "used \<inter> heap_block s = {}"
    and "\<And>p. p \<in> set ps \<Longrightarrow> bytes p 4096 \<inter> used = {}"
    and "\<And>p. p \<in> set ps \<Longrightarrow> bytes p 4096 \<inter> heap_block s = {}"
  shows "heap_inv s ps used"
  using assms by (auto simp: heap_inv_def disjoint_iff)

lemma heap_inv_shrink:
  assumes "heap_inv s ps used" and "heap_start s \<le> e"
    and "B \<subseteq> heap_block s" and "B \<inter> {unat (heap_start s)..<unat e} = {}"
    and "16 dvd unat e" and "e \<le> heap_end s"
  shows "heap_inv (s\<lparr>heap_end := e\<rparr>) ps (used \<union> B)"
proof -
  have eq: "heap_block (s\<lparr>heap_end := e\<rparr>) = {unat (heap_start s)..<unat e}" by (simp add: heap_block_def)
  have "heap_block (s\<lparr>heap_end := e\<rparr>) \<subseteq> heap_block s"
    using assms(6) by (auto simp: heap_block_def word_le_nat_alt)
  with assms(1,3,4) eq show ?thesis
    by (intro heap_invI) (use assms(1,2,5) in \<open>auto simp: heap_inv_def disjoint_iff subset_iff\<close>)
qed

lemma heap_inv_switch:
  assumes "heap_inv s (b # qs) used" and "pool t qs" and "page_ok b" and "b \<notin> set qs"
    and "unat e \<le> unat b + 4096" and "B \<subseteq> bytes b 4096" and "B \<inter> {unat b..<unat e} = {}"
    and "16 dvd unat e" and "b \<le> e"
  shows "heap_inv (t\<lparr>heap_start := b, heap_end := e\<rparr>) qs (used \<union> B)"
proof -
  let ?t = "t\<lparr>heap_start := b, heap_end := e\<rparr>"
  have eq: "heap_block ?t = {unat b..<unat e}" by (simp add: heap_block_def)
  have sub: "heap_block ?t \<subseteq> bytes b 4096" using assms(5) eq by (auto simp: bytes_def)
  have q: "bytes q 4096 \<inter> bytes b 4096 = {}" if "q \<in> set qs" for q
  proof (rule bytes_pages_disjoint)
    show "q \<noteq> b" using that assms(4) by blast
    show "page_ok q" using that assms(2) pa.free_ok by blast
  qed (rule assms(3))
  have "bytes b 4096 \<inter> used = {}" and "\<forall>q \<in> set qs. bytes q 4096 \<inter> used = {}"
    using assms(1) by (auto simp: heap_inv_def)
  with assms(6,7) sub q eq show ?thesis
    by (intro heap_invI) (use assms(1,2,8,9) in \<open>auto simp: heap_inv_def disjoint_iff subset_iff\<close>)
qed

lemma heap_inv_take:
  assumes "heap_inv s (b # qs) used" and "pool t qs" and "page_ok b" and "b \<notin> set qs"
    and "B \<subseteq> bytes b 4096" and "heap_start t = heap_start s" and "heap_end t = heap_end s"
  shows "heap_inv t qs (used \<union> B)"
proof -
  have eq: "heap_block t = heap_block s" using assms(6,7) by (simp add: heap_block_def)
  have q: "bytes q 4096 \<inter> bytes b 4096 = {}" if "q \<in> set qs" for q
  proof (rule bytes_pages_disjoint)
    show "q \<noteq> b" using that assms(4) by blast
    show "page_ok q" using that assms(2) pa.free_ok by blast
  qed (rule assms(3))
  from assms(5) eq q show ?thesis
    by (intro heap_invI) (use assms(1,2,6,7) in \<open>auto simp: heap_inv_def disjoint_iff subset_iff\<close>)
qed

lemma kmalloc_block:
  assumes inv: "heap_inv s ps used" and sz: "unat sz \<le> 4096"
    and room: "ps \<noteq> [] \<or> (unat sz + 15) div 16 * 16 \<le> unat (heap_end s) - unat (heap_start s)"
  shows "\<exists>p s' ps'. kmalloc sz s = Ret (p, s') \<and> 16 dvd unat p \<and> bytes p (unat sz) \<inter> used = {} \<and>
    heap_inv s' ps' (used \<union> bytes p (unat sz)) \<and> pmem s' = pmem s \<and> length ps \<le> Suc (length ps')"
proof -
  define r :: u64 where "r = (sz + 16 - 1) div 16 * 16"
  define n where "n = (unat sz + 15) div 16 * 16"
  have r: "unat r = n" unfolding r_def n_def by (rule unat_round16 [OF sz])
  have n: "unat sz \<le> n" "16 dvd n" "n \<le> 4096" unfolding n_def using round16_bounds sz by auto
  have small: "\<not> PAGE_SIZE < r" using r n by (simp add: word_less_nat_alt PAGE_SIZE_def)
  from inv have hle: "heap_start s \<le> heap_end s" and al: "16 dvd unat (heap_end s)" and po: "pool s ps"
    by (auto simp: heap_inv_def)
  have room_w: "unat (heap_end s - heap_start s) = unat (heap_end s) - unat (heap_start s)"
    by (rule unat_sub_small [OF hle])
  show ?thesis
  proof (cases "r \<le> heap_end s - heap_start s")
    case True
    then have fits: "n \<le> unat (heap_end s) - unat (heap_start s)"
      by (simp add: word_le_nat_alt r room_w)
    then have le: "r \<le> heap_end s" by (simp add: word_le_nat_alt r)
    have u: "unat (heap_end s - r) = unat (heap_end s) - n"
      using unat_sub_small [OF le] r by simp
    have k: "kmalloc sz s = Ret (heap_end s - r, s\<lparr>heap_end := heap_end s - r\<rparr>)"
      using True small by (simp add: kmalloc_def r_def Let_def)
    have sub: "bytes (heap_end s - r) (unat sz) \<subseteq> heap_block s"
      using u fits n(1) by (auto simp: bytes_def heap_block_def)
    have al': "16 dvd unat (heap_end s - r)" using u al n(2) by simp
    have hi: "heap_inv (s\<lparr>heap_end := heap_end s - r\<rparr>) ps (used \<union> bytes (heap_end s - r) (unat sz))"
    proof (rule heap_inv_shrink [OF inv _ sub _ al'])
      show "heap_start s \<le> heap_end s - r" using u fits hle by (simp add: word_le_nat_alt)
      show "bytes (heap_end s - r) (unat sz) \<inter> {unat (heap_start s)..<unat (heap_end s - r)} = {}"
        by (auto simp: bytes_def)
      show "heap_end s - r \<le> heap_end s" using le u by (simp add: word_le_nat_alt)
    qed
    have "bytes (heap_end s - r) (unat sz) \<inter> used = {}"
      using sub inv unfolding heap_inv_def by blast
    then show ?thesis
      by (intro exI [of _ "heap_end s - r"] exI [of _ "s\<lparr>heap_end := heap_end s - r\<rparr>"] exI [of _ ps])
        (simp add: k al' hi)
  next
    case False
    then have "ps \<noteq> []" using room by (auto simp: word_le_nat_alt r room_w n_def)
    then obtain b qs where ps: "ps = b # qs" by (cases ps) auto
    have b: "page_ok b" "b \<notin> set qs" using pa.free_ok [OF po] pa.free_distinct [OF po] ps by auto
    let ?s = "s\<lparr>free_list := pmem s b\<rparr>"
    have al: "memory_alloc_page s = Ret (b, ?s)" "pool ?s qs"
      using memory_alloc_page_Cons [OF po [unfolded ps]] by auto
    have b16: "16 dvd unat b" using b(1) by (auto simp: page_ok_def mod_0_imp_dvd intro: dvd_trans [of 16 4096])
    have dis: "bytes b 4096 \<inter> used = {}" "bytes b 4096 \<inter> heap_block s = {}"
      using inv ps by (auto simp: heap_inv_def)
    show ?thesis
    proof (cases "heap_end s - heap_start s < PAGE_SIZE - r")
      case True
      let ?e = "b + PAGE_SIZE - r"
      have e: "unat ?e = unat b + (4096 - n)"
      proof -
        have "unat (b + PAGE_SIZE) = unat b + 4096"
          using page_ok_bound [OF b(1)] by (subst unat_add_small) (auto simp: PAGE_SIZE_def)
        moreover from this have "r \<le> b + PAGE_SIZE" using r n by (simp add: word_le_nat_alt)
        ultimately show ?thesis using unat_sub_small [of r "b + PAGE_SIZE"] r n by simp
      qed
      let ?t = "?s\<lparr>heap_start := b, heap_end := ?e\<rparr>"
      have k: "kmalloc sz s = Ret (?e, ?t)"
        using True False small al by (simp add: kmalloc_def r_def Let_def)
      have sub: "bytes ?e (unat sz) \<subseteq> bytes b 4096" using e n by (auto simp: bytes_def)
      have "heap_inv ?t qs (used \<union> bytes ?e (unat sz))"
        by (rule heap_inv_switch [OF inv [unfolded ps] al(2) b _ sub])
          (use e n b16 in \<open>auto simp: bytes_def word_le_nat_alt\<close>)
      moreover have "16 dvd unat ?e" using e n b16 by simp
      moreover have "bytes ?e (unat sz) \<inter> used = {}" using sub dis(1) by blast
      ultimately show ?thesis by (intro exI [of _ ?e] exI [of _ ?t] exI [of _ qs]) (simp add: k ps)
    next
      case F2: False
      have k: "kmalloc sz s = Ret (b, ?s)"
        using F2 False small al by (simp add: kmalloc_def r_def Let_def)
      have sub: "bytes b (unat sz) \<subseteq> bytes b 4096" using n by (auto simp: bytes_def)
      have "heap_inv ?s qs (used \<union> bytes b (unat sz))"
        by (rule heap_inv_take [OF inv [unfolded ps] al(2) b sub]) simp_all
      moreover have "bytes b (unat sz) \<inter> used = {}" using sub dis(1) by blast
      ultimately show ?thesis by (intro exI [of _ b] exI [of _ ?s] exI [of _ qs]) (simp add: k b16 ps)
    qed
  qed
qed

lemma kmalloc_page:
  assumes "unat (heap_end s) - unat (heap_start s) < 4096" and "heap_start s \<le> heap_end s"
  shows "kmalloc PAGE_SIZE s = memory_alloc_page s"
proof -
  have r: "(PAGE_SIZE + 16 - 1) div 16 * 16 = PAGE_SIZE" by (simp add: PAGE_SIZE_def)
  have "\<not> PAGE_SIZE \<le> heap_end s - heap_start s"
    using assms by (simp add: word_le_nat_alt unat_sub_small PAGE_SIZE_def)
  then show ?thesis
    unfolding kmalloc_def Let_def r by (cases "memory_alloc_page s") (auto split: prod.splits)
qed

text \<open>A sequence of allocations, and the blocks it must return.\<close>

fun kmalloc_all :: "u64 list \<Rightarrow> mstate \<Rightarrow> (u64 list \<times> mstate) outcome" where
  "kmalloc_all [] s = Ret ([], s)"
| "kmalloc_all (sz # szs) s =
     obind (kmalloc sz s) (\<lambda>(p, s). obind (kmalloc_all szs s) (\<lambda>(ps, s). Ret (p # ps, s)))"

fun separate_blocks :: "nat set \<Rightarrow> u64 list \<Rightarrow> u64 list \<Rightarrow> bool" where
  "separate_blocks used [] [] \<longleftrightarrow> True"
| "separate_blocks used (p # ps) (sz # szs) \<longleftrightarrow>
     16 dvd unat p \<and> bytes p (unat sz) \<inter> used = {} \<and> separate_blocks (used \<union> bytes p (unat sz)) ps szs"
| "separate_blocks used _ _ \<longleftrightarrow> False"

text \<open>
  C13: the heap never hands out the same memory twice. From any state in which the current heap block,
  the free pages and the memory in use are disjoint, any sequence of requests of at most a page, for
  which enough free pages remain, succeeds; every returned block is 16-byte aligned and disjoint from
  the memory in use and from every block returned before it; no byte of memory is written.
\<close>
theorem kmalloc_all_separate:
  assumes "heap_inv s ps used" and "\<forall>sz \<in> set szs. unat sz \<le> 4096" and "length szs \<le> length ps"
  shows "\<exists>qs s'. kmalloc_all szs s = Ret (qs, s') \<and> separate_blocks used qs szs \<and> pmem s' = pmem s"
  using assms
proof (induction szs arbitrary: s ps used)
  case Nil
  then show ?case by simp
next
  case (Cons sz szs)
  then have "ps \<noteq> []" and "unat sz \<le> 4096" by auto
  then obtain p s1 ps1 where
    k: "kmalloc sz s = Ret (p, s1)" "16 dvd unat p" "bytes p (unat sz) \<inter> used = {}" "pmem s1 = pmem s"
    and inv: "heap_inv s1 ps1 (used \<union> bytes p (unat sz))" and len: "length ps \<le> Suc (length ps1)"
    using kmalloc_block [OF Cons.prems(1), of sz] by blast
  have "length szs \<le> length ps1" using len Cons.prems(3) by simp
  with Cons.IH [OF inv] Cons.prems(2) obtain qs s2 where
    "kmalloc_all szs s1 = Ret (qs, s2)" "separate_blocks (used \<union> bytes p (unat sz)) qs szs" "pmem s2 = pmem s1"
    by auto
  with k show ?case by simp
qed

definition demo_heap :: mstate where
  "demo_heap = \<lparr>pmem = (\<lambda>a. if a = 0x80402000 then 0x80401000 else 0), free_list = 0x80402000,
     heap_start = 0x80100000, heap_end = 0x80100020, heap_initialized = True, satp = 0, main_mtag = 0,
     memory_initialized = True\<rparr>"

lemma demo_heap_inv: "heap_inv demo_heap [0x80402000, 0x80401000] {}"
  by (auto simp: heap_inv_def demo_heap_def pool_def page_ok_def in_ram_def RAM_START_def RAM_END_def
      RAM_SIZE_def heap_block_def bytes_def)

theorem kmalloc_all_separate_witness:
  "\<exists>qs s'. kmalloc_all [17, 100] demo_heap = Ret (qs, s') \<and> separate_blocks {} qs [17, 100] \<and>
     pmem s' = pmem demo_heap"
  by (rule kmalloc_all_separate [OF demo_heap_inv]) simp_all

text \<open>
  C15: the rounding in \<open>kmalloc\<close> can wrap around. A request within 15 bytes of the largest \<open>size_t\<close> is
  rounded to zero, passes the size check that rejects every request above a page, and returns a
  block of no bytes instead of panicking.
\<close>
theorem kmalloc_wraps:
  assumes "2 ^ 64 - 15 \<le> unat sz"
  shows "kmalloc sz s = Ret (heap_end s, s) \<and> PAGE_SIZE < sz"
proof -
  have "unat (sz + 15) = unat sz + 15 - 2 ^ 64"
    using assms unat_u64_lt [of sz] by (simp add: unat_word_ariths le_mod_geq)
  then have "unat (15 + sz) < 16" using unat_u64_lt [of sz] by (simp add: add.commute [of 15])
  then have "(sz + 16 - 1) div 16 = 0" by (simp add: unat_div word_unat_eq_iff)
  moreover have "PAGE_SIZE < sz" using assms by (simp add: word_less_nat_alt PAGE_SIZE_def)
  ultimately show ?thesis by (simp add: kmalloc_def Let_def PAGE_SIZE_def)
qed

theorem kmalloc_wraps_witness:
  "kmalloc 0xFFFFFFFFFFFFFFFF demo_heap = Ret (heap_end demo_heap, demo_heap) \<and>
   PAGE_SIZE < 0xFFFFFFFFFFFFFFFF"
  by (rule kmalloc_wraps) simp

end
