(* ===== verification/Memory.thy ===== *)
theory Memory
  imports Heap
begin

text \<open>
  \<^verbatim>\<open>kern/memory.c\<close> and the inline functions of \<^verbatim>\<open>kern/memory.h\<close>: Sv39 page tables, memory spaces,
  page faults and the validation of user pointers. A pointer to a page table is the address of its
  first entry; an entry is the 64-bit word with the bit fields of \<open>struct pte\<close>. \<open>sfence_vma\<close> has no
  effect in the model, which has no translation cache.
\<close>

section \<open>Page table entries\<close>

definition PTE_V :: u8 where "PTE_V = 1"
definition PTE_R :: u8 where "PTE_R = 2"
definition PTE_W :: u8 where "PTE_W = 4"
definition PTE_X :: u8 where "PTE_X = 8"
definition PTE_U :: u8 where "PTE_U = 16"
definition PTE_G :: u8 where "PTE_G = 32"
definition PTE_A :: u8 where "PTE_A = 64"
definition PTE_D :: u8 where "PTE_D = 128"

definition PTE_CNT :: nat where "PTE_CNT = 512"
definition MEGA_SIZE :: u64 where "MEGA_SIZE = 512 * PAGE_SIZE"
definition GIGA_SIZE :: u64 where "GIGA_SIZE = 512 * MEGA_SIZE"
definition HEAP_INIT_MIN :: u64 where "HEAP_INIT_MIN = 256"
definition USER_START_VMA :: u64 where "USER_START_VMA = 0xC0000000"
definition USER_END_VMA :: u64 where "USER_END_VMA = 0xD0000000"

text \<open>The fields \<open>flags\<close> (bits 0--7) and \<open>ppn\<close> (bits 10--53) of \<open>struct pte\<close>.\<close>

definition pte_flags :: "u64 \<Rightarrow> u8" where
  "pte_flags e = ucast e"

definition pte_ppn :: "u64 \<Rightarrow> u64" where
  "pte_ppn e = drop_bit 10 e AND mask 44"

definition set_pte_flags :: "u8 \<Rightarrow> u64 \<Rightarrow> u64" where
  "set_pte_flags f e = (e AND NOT (mask 8)) OR ucast f"

definition set_pte_ppn :: "u64 \<Rightarrow> u64 \<Rightarrow> u64" where
  "set_pte_ppn n e = (e AND NOT (push_bit 10 (mask 44))) OR push_bit 10 (n AND mask 44)"

definition VPN2 :: "u64 \<Rightarrow> nat" where "VPN2 vma = unat (drop_bit (9 + 9 + 12) vma AND 0x1FF)"
definition VPN1 :: "u64 \<Rightarrow> nat" where "VPN1 vma = unat (drop_bit (9 + 12) vma AND 0x1FF)"
definition VPN0 :: "u64 \<Rightarrow> nat" where "VPN0 vma = unat (drop_bit 12 vma AND 0x1FF)"

definition pagenum_to_pageptr :: "u64 \<Rightarrow> u64" where "pagenum_to_pageptr n = push_bit 12 n"
definition pageptr_to_pagenum :: "u64 \<Rightarrow> u64" where "pageptr_to_pagenum p = drop_bit 12 p"

definition leaf_pte :: "u64 \<Rightarrow> u8 \<Rightarrow> u64" where
  "leaf_pte pptr rwxug_flags =
     set_pte_ppn (pageptr_to_pagenum pptr) (set_pte_flags (rwxug_flags OR PTE_A OR PTE_D OR PTE_V) 0)"

definition ptab_pte :: "u64 \<Rightarrow> u8 \<Rightarrow> u64" where
  "ptab_pte ptab g_flag =
     set_pte_ppn (pageptr_to_pagenum ptab) (set_pte_flags (g_flag OR PTE_V) 0)"

definition null_pte :: u64 where "null_pte = 0"

text \<open>\<open>&pt[i]\<close>\<close>

definition slot :: "u64 \<Rightarrow> nat \<Rightarrow> u64" where
  "slot pt i = pt + 8 * of_nat i"

section \<open>Address helpers\<close>

definition wellformed_vma :: "u64 \<Rightarrow> bool" where
  "wellformed_vma vma = (let bits = signed_drop_bit 38 vma in bits = 0 \<or> bits + 1 = 0)"

definition aligned_addr :: "u64 \<Rightarrow> u64 \<Rightarrow> bool" where
  "aligned_addr vma blksz = (vma mod blksz = 0)"

definition round_up_size :: "u64 \<Rightarrow> u64 \<Rightarrow> u64" where
  "round_up_size n blksz = (n + blksz - 1) div blksz * blksz"

definition round_down_size :: "u64 \<Rightarrow> u64 \<Rightarrow> u64" where
  "round_down_size n blksz = n div blksz * blksz"

definition mtag_to_root :: "u64 \<Rightarrow> u64" where
  "mtag_to_root mtag = drop_bit 8 (push_bit 20 mtag)"

definition active_space_mtag :: "mstate \<Rightarrow> u64" where "active_space_mtag s = satp s"
definition active_space_root :: "mstate \<Rightarrow> u64" where
  "active_space_root s = mtag_to_root (active_space_mtag s)"

definition memory_space_switch :: "u64 \<Rightarrow> mstate \<Rightarrow> u64 \<times> mstate" where
  "memory_space_switch mtag s = (satp s, s\<lparr>satp := mtag\<rparr>)"

text \<open>\<open>RISCV_SATP_MODE_Sv39 << RISCV_SATP_MODE_shift | pageptr_to_pagenum(root)\<close>\<close>

definition sv39_mtag :: "u64 \<Rightarrow> u64" where
  "sv39_mtag root = push_bit 60 8 OR pageptr_to_pagenum root"

section \<open>Walking and changing page tables\<close>

text \<open>One level of \<open>walk_pt\<close>: the table below entry \<open>i\<close> of \<open>pt\<close>, created on demand.\<close>

definition walk_level :: "u64 \<Rightarrow> nat \<Rightarrow> bool \<Rightarrow> mstate \<Rightarrow> (u64 \<times> mstate) outcome" where
  "walk_level pt i create s =
     obind
       (if create then
          obind (load (slot pt i) s) (\<lambda>e.
            if pte_flags e AND PTE_V = 0 then
              obind (kmalloc PAGE_SIZE s) (\<lambda>(new_pt, s). store (slot pt i) (ptab_pte new_pt 0) s)
            else Ret s)
        else Ret s)
       (\<lambda>s. obind (load (slot pt i) s) (\<lambda>e. Ret (pagenum_to_pageptr (pte_ppn e), s)))"

definition walk_pt :: "u64 \<Rightarrow> u64 \<Rightarrow> bool \<Rightarrow> mstate \<Rightarrow> (u64 \<times> mstate) outcome" where
  "walk_pt root vma create s =
     obind (walk_level root (VPN2 vma) create s) (\<lambda>(subdirectory_pt1, s).
     obind (walk_level subdirectory_pt1 (VPN1 vma) create s) (\<lambda>(leafdirectory_pt0, s).
     Ret (slot leafdirectory_pt0 (VPN0 vma), s)))"

text \<open>A read-modify-write of the entry at \<open>p\<close>.\<close>

definition pte_update :: "u64 \<Rightarrow> (u64 \<Rightarrow> u64) \<Rightarrow> mstate \<Rightarrow> mstate outcome" where
  "pte_update p f s = obind (load p s) (\<lambda>e. store p (f e) s)"

definition memory_alloc_and_map_page :: "u64 \<Rightarrow> u8 \<Rightarrow> mstate \<Rightarrow> (u64 \<times> mstate) outcome" where
  "memory_alloc_and_map_page vma rwxug_flags s =
     obind (memory_alloc_page s) (\<lambda>(newly_allocated, s).
     obind (walk_pt (active_space_root s) vma True s) (\<lambda>(dest_pte, s).
     obind (pte_update dest_pte
              (\<lambda>e. set_pte_flags (pte_flags e OR rwxug_flags OR PTE_A OR PTE_D OR PTE_V) e) s) (\<lambda>s.
     obind (pte_update dest_pte (set_pte_ppn (pageptr_to_pagenum newly_allocated)) s) (\<lambda>s.
     Ret (vma, s)))))"

definition memory_alloc_and_map_range :: "u64 \<Rightarrow> u64 \<Rightarrow> u8 \<Rightarrow> mstate \<Rightarrow> (u64 \<times> mstate) outcome" where
  "memory_alloc_and_map_range vma sz rwxug_flags s =
     (let sz = round_up_size sz PAGE_SIZE in
      obind (ofold (\<lambda>addr_idx s.
               obind (memory_alloc_and_map_page (vma + addr_idx) rwxug_flags s) (\<lambda>(_, s). Ret s))
             (for_range 0 sz PAGE_SIZE) s) (\<lambda>s.
      Ret (vma, s)))"

definition memory_set_page_flags :: "u64 \<Rightarrow> u8 \<Rightarrow> mstate \<Rightarrow> mstate outcome" where
  "memory_set_page_flags vp rwxug_flags s =
     obind (walk_pt (active_space_root s) vp True s) (\<lambda>(dest_pte, s).
     obind (pte_update dest_pte (set_pte_flags 0) s) (\<lambda>s.
     pte_update dest_pte
       (\<lambda>e. set_pte_flags (pte_flags e OR rwxug_flags OR PTE_A OR PTE_D OR PTE_V) e) s))"

definition memory_set_range_flags :: "u64 \<Rightarrow> u64 \<Rightarrow> u8 \<Rightarrow> mstate \<Rightarrow> mstate outcome" where
  "memory_set_range_flags vp sz rwxug_flags s =
     (let sz = round_up_size sz PAGE_SIZE in
      ofold (\<lambda>addr_idx s.
        obind (walk_pt (active_space_root s) (vp + addr_idx) False s) (\<lambda>(dest_pte, s).
        obind (pte_update dest_pte (set_pte_flags 0) s) (\<lambda>s.
        pte_update dest_pte
          (\<lambda>e. set_pte_flags (pte_flags e OR rwxug_flags OR PTE_A OR PTE_D OR PTE_V) e) s)))
        (for_range 0 sz PAGE_SIZE) s)"

definition memory_handle_page_fault :: "u64 \<Rightarrow> mstate \<Rightarrow> mstate outcome" where
  "memory_handle_page_fault vptr s =
     (if vptr \<ge> USER_START_VMA \<and> vptr \<le> USER_END_VMA then
        obind (memory_alloc_and_map_page vptr (PTE_R OR PTE_W OR PTE_U) s) (\<lambda>(_, s). Ret s)
      else Panic ''Memory Handle Page Fault Exited Anomaly'')"

fun vptr_len_loop :: "u64 \<Rightarrow> u8 \<Rightarrow> u64 list \<Rightarrow> mstate \<Rightarrow> int outcome" where
  "vptr_len_loop dest_pte rwxug_flags [] s = Ret 0"
| "vptr_len_loop dest_pte rwxug_flags (vmem_idx # is) s =
     obind (load dest_pte s) (\<lambda>e.
       if pte_ppn e \<noteq> 0 \<and> pte_flags e AND PTE_V \<noteq> 0 \<and> pte_flags e AND rwxug_flags = rwxug_flags
       then vptr_len_loop dest_pte rwxug_flags is s
       else Ret (- EACCESS))"

definition memory_validate_vptr_len :: "u64 \<Rightarrow> u64 \<Rightarrow> u8 \<Rightarrow> mstate \<Rightarrow> int outcome" where
  "memory_validate_vptr_len vp len rwxug_flags s =
     obind (walk_pt (active_space_root s) vp False s) (\<lambda>(dest_pte, s).
       vptr_len_loop dest_pte rwxug_flags (for_range 0 (round_up_size len PAGE_SIZE) PAGE_SIZE) s)"

definition memory_validate_vstr :: "u64 \<Rightarrow> u8 \<Rightarrow> int" where
  "memory_validate_vstr vs ug_flags = 0"

section \<open>Reclaiming and unmapping\<close>

text \<open>An entry that points to a table: valid, and none of R, W, X.\<close>

definition is_table :: "u64 \<Rightarrow> bool" where
  "is_table e \<longleftrightarrow> pte_flags e AND PTE_V \<noteq> 0 \<and> pte_flags e AND PTE_X = 0 \<and>
     pte_flags e AND PTE_R = 0 \<and> pte_flags e AND PTE_W = 0"

text \<open>
  The innermost step of both loops: the page of the leaf goes to the free list, and the leaf is
  cleared.
\<close>

definition release_leaf :: "u64 \<Rightarrow> mstate \<Rightarrow> mstate outcome" where
  "release_leaf leaf s =
     obind (load leaf s) (\<lambda>e.
     let page = pagenum_to_pageptr (pte_ppn e) in
     obind (if free_list s = 0 then Ret (s\<lparr>free_list := page\<rparr>) else memory_free_page page s) (\<lambda>s.
     obind (pte_update leaf (set_pte_ppn 0) s) (\<lambda>s.
     pte_update leaf (set_pte_flags 0) s)))"

definition reclaim_leaf :: "u64 \<Rightarrow> nat \<Rightarrow> mstate \<Rightarrow> mstate outcome" where
  "reclaim_leaf leafdirectory_pt0 pt0_idx s =
     obind (load (slot leafdirectory_pt0 pt0_idx) s) (\<lambda>e.
       if pte_flags e AND PTE_V \<noteq> 0 \<and> pte_flags e AND PTE_G = 0
       then release_leaf (slot leafdirectory_pt0 pt0_idx) s else Ret s)"

definition reclaim_pt0 :: "u64 \<Rightarrow> nat \<Rightarrow> mstate \<Rightarrow> mstate outcome" where
  "reclaim_pt0 subdirectory_pt1 pt1_idx s =
     obind (load (slot subdirectory_pt1 pt1_idx) s) (\<lambda>e.
       if is_table e then
         let leafdirectory_pt0 = pagenum_to_pageptr (pte_ppn e) in
         obind (ofold (reclaim_leaf leafdirectory_pt0) [0..<PTE_CNT] s) (\<lambda>s.
         obind (load (slot subdirectory_pt1 pt1_idx) s) (\<lambda>e.
           if pte_flags e AND PTE_G = 0 then memory_free_page leafdirectory_pt0 s else Ret s))
       else Ret s)"

definition reclaim_pt1 :: "u64 \<Rightarrow> nat \<Rightarrow> mstate \<Rightarrow> mstate outcome" where
  "reclaim_pt1 prev_pt2 pt2_idx s =
     obind (load (slot prev_pt2 pt2_idx) s) (\<lambda>e.
       if is_table e then
         let subdirectory_pt1 = pagenum_to_pageptr (pte_ppn e) in
         obind (ofold (reclaim_pt0 subdirectory_pt1) [0..<PTE_CNT] s) (\<lambda>s.
         obind (load (slot prev_pt2 pt2_idx) s) (\<lambda>e.
           if pte_flags e AND PTE_G = 0 then memory_free_page subdirectory_pt1 s else Ret s))
       else Ret s)"

definition memory_space_reclaim :: "mstate \<Rightarrow> mstate outcome" where
  "memory_space_reclaim s =
     (case memory_space_switch (main_mtag s) s of (prev_mtag, s) \<Rightarrow>
        ofold (reclaim_pt1 (pagenum_to_pageptr prev_mtag)) [0..<PTE_CNT] s)"

text \<open>
  \<open>memory_unmap_and_free_user\<close> first runs to the end of the free list; the fuel bounds that loop.
\<close>

fun free_list_end :: "nat \<Rightarrow> u64 \<Rightarrow> mstate \<Rightarrow> u64 outcome" where
  "free_list_end 0 aux s = Running"
| "free_list_end (Suc fuel) aux s =
     obind (load aux s) (\<lambda>next. if next \<noteq> 0 then free_list_end fuel next s else Ret aux)"

definition unmap_leaf :: "u64 \<Rightarrow> nat \<Rightarrow> mstate \<Rightarrow> mstate outcome" where
  "unmap_leaf leafdirectory_pt0 pt0_idx s =
     obind (load (slot leafdirectory_pt0 pt0_idx) s) (\<lambda>e.
       if pte_flags e AND PTE_V \<noteq> 0 \<and> pte_ppn e \<noteq> 0 \<and> pte_flags e AND PTE_U \<noteq> 0
       then release_leaf (slot leafdirectory_pt0 pt0_idx) s else Ret s)"

definition unmap_pt0 :: "u64 \<Rightarrow> nat \<Rightarrow> mstate \<Rightarrow> mstate outcome" where
  "unmap_pt0 subdirectory_pt1 pt1_idx s =
     obind (load (slot subdirectory_pt1 pt1_idx) s) (\<lambda>e.
       if is_table e then
         let leafdirectory_pt0 = pagenum_to_pageptr (pte_ppn e) in
         obind (ofold (unmap_leaf leafdirectory_pt0) [0..<PTE_CNT] s) (\<lambda>s.
         obind (load (slot subdirectory_pt1 pt1_idx) s) (\<lambda>e.
           if pte_flags e AND PTE_U \<noteq> 0 then memory_free_page leafdirectory_pt0 s else Ret s))
       else Ret s)"

definition unmap_pt1 :: "u64 \<Rightarrow> nat \<Rightarrow> mstate \<Rightarrow> mstate outcome" where
  "unmap_pt1 cur_active_pt2 pt2_idx s =
     obind (load (slot cur_active_pt2 pt2_idx) s) (\<lambda>e.
       if is_table e then
         let subdirectory_pt1 = pagenum_to_pageptr (pte_ppn e) in
         obind (ofold (unmap_pt0 subdirectory_pt1) [0..<PTE_CNT] s) (\<lambda>s.
         obind (load (slot cur_active_pt2 pt2_idx) s) (\<lambda>e.
           if pte_flags e AND PTE_U \<noteq> 0 then memory_free_page subdirectory_pt1 s else Ret s))
       else Ret s)"

definition memory_unmap_and_free_user :: "nat \<Rightarrow> mstate \<Rightarrow> mstate outcome" where
  "memory_unmap_and_free_user fuel s =
     obind (free_list_end fuel (free_list s) s) (\<lambda>aux.
       ofold (unmap_pt1 (active_space_root s)) [0..<PTE_CNT] s)"

section \<open>The memory management unit\<close>

text \<open>
  The Sv39 translation of the RISC-V privileged architecture, with the page sizes the kernel uses: the
  physical address and the flags of the leaf entry for a virtual address under a root table.
\<close>

definition leaf_bits :: "u64 \<Rightarrow> bool" where
  "leaf_bits e \<longleftrightarrow> pte_flags e AND (PTE_R OR PTE_X) \<noteq> 0"

definition sv39 :: "(u64 \<Rightarrow> u64) \<Rightarrow> u64 \<Rightarrow> u64 \<Rightarrow> (u64 \<times> u8) option" where
  "sv39 m root vma =
     (let e2 = m (slot root (VPN2 vma)) in
      if pte_flags e2 AND PTE_V = 0 then None
      else if leaf_bits e2 then Some (pagenum_to_pageptr (pte_ppn e2) OR (vma AND mask 30), pte_flags e2)
      else
        let e1 = m (slot (pagenum_to_pageptr (pte_ppn e2)) (VPN1 vma)) in
        if pte_flags e1 AND PTE_V = 0 then None
        else if leaf_bits e1 then Some (pagenum_to_pageptr (pte_ppn e1) OR (vma AND mask 21), pte_flags e1)
        else
          let e0 = m (slot (pagenum_to_pageptr (pte_ppn e1)) (VPN0 vma)) in
          if pte_flags e0 AND PTE_V = 0 \<or> \<not> leaf_bits e0 then None
          else Some (pagenum_to_pageptr (pte_ppn e0) OR (vma AND mask 12), pte_flags e0))"

text \<open>A load by the supervisor at a virtual address of the active space.\<close>

definition vload :: "u64 \<Rightarrow> mstate \<Rightarrow> u64 outcome" where
  "vload vma s =
     (case sv39 (pmem s) (active_space_root s) vma of
        Some (pa, flags) \<Rightarrow> if flags AND PTE_R \<noteq> 0 then load pa s else Panic ''load page fault''
      | None \<Rightarrow> Panic ''load page fault'')"

section \<open>Cloning a memory space\<close>

text \<open>\<open>memcpy\<close> of a page from the virtual address \<open>vma\<close> to the direct-mapped page \<open>dst\<close>.\<close>

definition copy_page :: "u64 \<Rightarrow> u64 \<Rightarrow> mstate \<Rightarrow> mstate outcome" where
  "copy_page dst vma s =
     ofold (\<lambda>i s. obind (vload (vma + 8 * of_nat i) s) (\<lambda>w. store (slot dst i) w s)) [0..<512] s"

record kimg =
  kimg_start :: u64
  kimg_text_start :: u64
  kimg_text_end :: u64
  kimg_rodata_start :: u64
  kimg_rodata_end :: u64
  kimg_data_start :: u64
  kimg_end :: u64
  main_pt2 :: u64
  main_pt1 :: u64
  main_pt0 :: u64

definition clone_vma :: "u64 \<Rightarrow> u64 \<Rightarrow> mstate \<Rightarrow> mstate outcome" where
  "clone_vma new_root_page_table vma s =
     obind (walk_pt new_root_page_table vma True s) (\<lambda>(child_leaf_pte, s).
     obind (walk_pt (active_space_root s) vma False s) (\<lambda>(parent_leaf_pte, s).
     if parent_leaf_pte \<le> RAM_END \<and> parent_leaf_pte \<ge> RAM_START then
       obind (load parent_leaf_pte s) (\<lambda>pe.
       if pte_flags pe AND PTE_V \<noteq> 0 \<and> pte_ppn pe \<noteq> 0 then
         let original_flag = pte_flags pe in
         obind (memory_alloc_page s) (\<lambda>(page, s).
         obind (pte_update child_leaf_pte (set_pte_ppn (pageptr_to_pagenum page)) s) (\<lambda>s.
         obind (load parent_leaf_pte s) (\<lambda>pe.
         obind (pte_update child_leaf_pte (set_pte_flags (pte_flags pe OR PTE_W OR PTE_R)) s) (\<lambda>s.
         obind (memory_set_page_flags vma (original_flag OR PTE_W OR PTE_R) s) (\<lambda>s.
         obind (load child_leaf_pte s) (\<lambda>ce.
         obind (copy_page (pagenum_to_pageptr (pte_ppn ce)) vma s) (\<lambda>s.
         obind (load parent_leaf_pte s) (\<lambda>pe.
         obind (pte_update child_leaf_pte (set_pte_flags (pte_flags pe)) s) (\<lambda>s.
         memory_set_page_flags vma original_flag s)))))))))
       else Ret s)
     else Ret s))"

definition memory_space_clone :: "kimg \<Rightarrow> mstate \<Rightarrow> (u64 \<times> mstate) outcome" where
  "memory_space_clone k s =
     obind (kmalloc PAGE_SIZE s) (\<lambda>(new_root_page_table, s).
     let new_mtag = sv39_mtag new_root_page_table in
     obind (ofold (\<lambda>pma. store (slot new_root_page_table (VPN2 pma)) (leaf_pte pma (PTE_R OR PTE_W OR PTE_G)))
             (for_range 0 RAM_START GIGA_SIZE) s) (\<lambda>s.
     obind (store (slot new_root_page_table (VPN2 RAM_START)) (ptab_pte (main_pt1 k) PTE_G) s) (\<lambda>s.
     obind (ofold (clone_vma new_root_page_table) (for_range USER_START_VMA USER_END_VMA PAGE_SIZE) s) (\<lambda>s.
     case memory_space_switch new_mtag s of (_, s) \<Rightarrow> Ret (new_mtag, s)))))"

section \<open>Initialisation\<close>

definition link_free_pages :: "u64 \<Rightarrow> mstate \<Rightarrow> mstate outcome" where
  "link_free_pages heap_fin s =
     obind (ofold (\<lambda>free_pg_idx (aux_ptr, s).
              obind (store aux_ptr (free_pg_idx + heap_fin) s) (\<lambda>s. Ret (free_pg_idx + heap_fin, s)))
            (for_range PAGE_SIZE (RAM_END - heap_fin) PAGE_SIZE) (free_list s, s)) (\<lambda>(_, s). Ret s)"

definition map_identity :: "u64 \<Rightarrow> (u64 \<Rightarrow> nat) \<Rightarrow> u8 \<Rightarrow> u64 list \<Rightarrow> mstate \<Rightarrow> mstate outcome" where
  "map_identity pt vpn flags pps =
     ofold (\<lambda>pp. store (slot pt (vpn pp)) (leaf_pte pp flags)) pps"

definition memory_init :: "kimg \<Rightarrow> mstate \<Rightarrow> mstate outcome" where
  "memory_init k s =
     obind (c_assert (RAM_START = kimg_start k)) (\<lambda>_.
     if MEGA_SIZE < kimg_end k - kimg_start k then Panic ''Kernel too large'' else
     obind (map_identity (main_pt2 k) VPN2 (PTE_R OR PTE_W OR PTE_G) (for_range 0 RAM_START GIGA_SIZE) s) (\<lambda>s.
     obind (store (slot (main_pt2 k) (VPN2 RAM_START)) (ptab_pte (main_pt1 k) PTE_G) s) (\<lambda>s.
     obind (store (slot (main_pt1 k) (VPN1 RAM_START)) (ptab_pte (main_pt0 k) PTE_G) s) (\<lambda>s.
     obind (map_identity (main_pt0 k) VPN0 (PTE_R OR PTE_X OR PTE_G)
              (for_range (kimg_text_start k) (kimg_text_end k) PAGE_SIZE) s) (\<lambda>s.
     obind (map_identity (main_pt0 k) VPN0 (PTE_R OR PTE_G)
              (for_range (kimg_rodata_start k) (kimg_rodata_end k) PAGE_SIZE) s) (\<lambda>s.
     obind (map_identity (main_pt0 k) VPN0 (PTE_R OR PTE_W OR PTE_G)
              (for_range (kimg_data_start k) (RAM_START + MEGA_SIZE) PAGE_SIZE) s) (\<lambda>s.
     obind (map_identity (main_pt1 k) VPN1 (PTE_R OR PTE_W OR PTE_G)
              (for_range (RAM_START + MEGA_SIZE) RAM_END MEGA_SIZE) s) (\<lambda>s.
     let s = s\<lparr>main_mtag := sv39_mtag (main_pt2 k)\<rparr>;
         s = s\<lparr>satp := main_mtag s\<rparr>;
         heap_beg = kimg_end k;
         heap_fin = round_up_size heap_beg PAGE_SIZE;
         heap_fin = (if heap_fin - heap_beg < HEAP_INIT_MIN
                     then heap_fin + round_up_size (HEAP_INIT_MIN - (heap_fin - heap_beg)) PAGE_SIZE
                     else heap_fin)
     in
     if RAM_END < heap_fin then Panic ''Not enough memory'' else
     obind (heap_init heap_beg heap_fin s) (\<lambda>s.
     obind (link_free_pages heap_fin (s\<lparr>free_list := heap_fin\<rparr>)) (\<lambda>s.
     Ret (s\<lparr>memory_initialized := True\<rparr>)))))))))))"

end
