(* ===== verification/Thread.thy ===== *)
theory Thread
  imports Memory
begin

text \<open>
  \<^verbatim>\<open>kern/thread.c\<close> with the interrupt flag of \<^verbatim>\<open>kern/intr.h\<close>, the context switch of \<^verbatim>\<open>kern/thrasm.s\<close>, and
  \<open>struct process\<close> and \<open>struct trap_frame\<close>. The thread structures are a store from addresses to their contents,
  linked by \<open>list_next\<close> as in the code; a condition variable is identified by its address. An address at which no
  object was initialised holds whatever the store has there. A switch hands the processor to the next thread inside
  \<open>suspend_self\<close>, so the state after an operation that blocks is the one in which the next thread goes on.
\<close>

section \<open>Data\<close>

datatype thread_state = THREAD_UNINITIALIZED | THREAD_STOPPED | THREAD_WAITING | THREAD_RUNNING
  | THREAD_READY | THREAD_EXITED

text \<open>
  The return address in a saved context: the entry code of \<open>_thread_setup\<close>, the statement of
  \<open>suspend_self\<close> behind the call of \<open>_thread_swtch\<close> (with the value of \<open>saved_intr_state\<close> in that call
  of \<open>suspend_self\<close>), or the end of \<open>thread_fork_to_user\<close> (with its argument \<open>child_proc\<close>).
\<close>

datatype code_addr = Glue | InSuspend bool | InFork u64

record thread_context =
  ctx_s :: "u64 list"
  ctx_ra :: code_addr
  ctx_sp :: u64

record thread =
  thr_context :: thread_context
  thr_name :: string
  stack_base :: u64
  stack_size :: u64
  state :: thread_state
  thr_id :: int
  proc :: u64
  parent :: u64
  list_next :: u64
  wait_cond :: u64

record thread_list =
  head :: u64
  tail :: u64

record condition =
  cond_name :: string
  wait_list :: thread_list

record process =
  proc_id :: int
  proc_tid :: int
  mtag :: u64
  iotab :: "u64 list"

record trap_frame =
  tfr_x :: "u64 list"
  tfr_sstatus :: u64
  tfr_sepc :: u64

definition NTHR :: nat where "NTHR = 16"
definition MAIN_TID :: nat where "MAIN_TID = 0"
definition IDLE_TID :: nat where "IDLE_TID = NTHR - 1"

type_synonym tstore = "u64 \<Rightarrow> thread"

record kstate =
  mem :: mstate
  thr :: tstore
  cond :: "u64 \<Rightarrow> condition"
  procs :: "u64 \<Rightarrow> process"
  thrtab :: "u64 list"
  ready_list :: thread_list
  thrmgr_initialized :: bool
  main_thread :: u64
  idle_thread :: u64
  tp :: u64
  s_regs :: "u64 list"
  sp_reg :: u64
  pc :: code_addr
  sie :: bool

text \<open>\<open>sizeof(struct thread)\<close>, and the address of the member \<open>child_exit\<close> of a thread.\<close>

definition sizeof_thread :: u64 where "sizeof_thread = 200"
definition child_exit :: "u64 \<Rightarrow> u64" where "child_exit t = t + 176"

section \<open>The interrupt enable flag\<close>

definition intr_enable :: "kstate \<Rightarrow> bool \<times> kstate" where
  "intr_enable s = (sie s, s\<lparr>sie := True\<rparr>)"

definition intr_disable :: "kstate \<Rightarrow> bool \<times> kstate" where
  "intr_disable s = (sie s, s\<lparr>sie := False\<rparr>)"

definition intr_restore :: "bool \<Rightarrow> kstate \<Rightarrow> kstate" where
  "intr_restore saved s = s\<lparr>sie := saved\<rparr>"

definition intr_enabled :: "kstate \<Rightarrow> bool" where "intr_enabled s = sie s"
definition intr_disabled :: "kstate \<Rightarrow> bool" where "intr_disabled s = (\<not> sie s)"

section \<open>Thread lists\<close>

definition tlclear :: thread_list where
  "tlclear = \<lparr>head = 0, tail = 0\<rparr>"

definition tlempty :: "thread_list \<Rightarrow> bool" where
  "tlempty l = (head l = 0)"

definition set_next :: "u64 \<Rightarrow> u64 \<Rightarrow> tstore \<Rightarrow> tstore" where
  "set_next t n h = h(t := (h t)\<lparr>list_next := n\<rparr>)"

definition tlinsert :: "thread_list \<Rightarrow> u64 \<Rightarrow> tstore \<Rightarrow> (thread_list \<times> tstore) outcome" where
  "tlinsert l t h =
     (if t = 0 then Fault
      else
        let h = set_next t 0 h in
        if tail l \<noteq> 0 then
          obind (c_assert (head l \<noteq> 0)) (\<lambda>_. Ret (l\<lparr>tail := t\<rparr>, set_next (tail l) t h))
        else
          obind (c_assert (head l = 0)) (\<lambda>_. Ret (l\<lparr>head := t, tail := t\<rparr>, h)))"

definition tlremove :: "thread_list \<Rightarrow> tstore \<Rightarrow> u64 \<times> thread_list \<times> tstore" where
  "tlremove l h =
     (let t = head l in
      if t = 0 then (0, l, h)
      else
        let l = l\<lparr>head := list_next (h t)\<rparr> in
        if head l \<noteq> 0 then (t, l, set_next t 0 (set_next t 0 h))
        else (t, l\<lparr>tail := 0\<rparr>, set_next t 0 h))"

text \<open>\<open>tlappend(l0, l1)\<close> returns the new contents of \<open>l0\<close> and \<open>l1\<close>.\<close>

definition tlappend ::
    "thread_list \<Rightarrow> thread_list \<Rightarrow> tstore \<Rightarrow> (thread_list \<times> thread_list \<times> tstore) outcome" where
  "tlappend l0 l1 h =
     obind
       (if head l0 \<noteq> 0 then
          obind (c_assert (tail l0 \<noteq> 0)) (\<lambda>_.
            if head l1 \<noteq> 0 then
              obind (c_assert (tail l1 \<noteq> 0)) (\<lambda>_.
                Ret (l0\<lparr>tail := tail l1\<rparr>, set_next (tail l0) (head l1) h))
            else Ret (l0, h))
        else
          obind (c_assert (tail l0 = 0)) (\<lambda>_. Ret (l0\<lparr>head := head l1, tail := tail l1\<rparr>, h)))
       (\<lambda>(l0, h). Ret (l0, l1\<lparr>head := 0, tail := 0\<rparr>, h))"

section \<open>Context switch\<close>

definition set_thread_state :: "u64 \<Rightarrow> thread_state \<Rightarrow> kstate \<Rightarrow> kstate" where
  "set_thread_state t st s = s\<lparr>thr := (thr s)(t := (thr s t)\<lparr>state := st\<rparr>)\<rparr>"

definition ready_insert :: "u64 \<Rightarrow> kstate \<Rightarrow> kstate outcome" where
  "ready_insert t s =
     obind (tlinsert (ready_list s) t (thr s)) (\<lambda>(l, h). Ret (s\<lparr>ready_list := l, thr := h\<rparr>))"

definition running_thread :: "kstate \<Rightarrow> int" where
  "running_thread s = thr_id (thr s (tp s))"

text \<open>
  \<open>_thread_setup\<close> (\<^verbatim>\<open>kern/thrasm.s\<close>): the initial stack pointer, \<open>start\<close> in \<open>s11\<close>, up to five arguments in
  \<open>s0\<close>--\<open>s4\<close>, and the entry code as return address.
\<close>

definition thread_setup :: "u64 \<Rightarrow> u64 \<Rightarrow> u64 \<Rightarrow> u64 list \<Rightarrow> kstate \<Rightarrow> kstate" where
  "thread_setup t sp start args s =
     (let c = thr_context (thr s t);
          r = (ctx_s c)[11 := start];
          c = c\<lparr>ctx_s := take 5 args @ drop (length (take 5 args)) r, ctx_ra := Glue, ctx_sp := sp\<rparr>
      in s\<lparr>thr := (thr s)(t := (thr s t)\<lparr>thr_context := c\<rparr>)\<rparr>)"

text \<open>
  \<open>_thread_swtch(next)\<close> called with return address \<open>ra\<close>: the callee-saved registers go to the context of
  the current thread and come from that of \<open>next\<close>, where execution goes on. The register \<open>a0\<close> that carries the
  argument is not changed, so the value returned in the resumed thread is \<open>next\<close> itself.
\<close>

definition thread_swtch :: "code_addr \<Rightarrow> u64 \<Rightarrow> kstate \<Rightarrow> u64 \<times> kstate" where
  "thread_swtch ra next s =
     (let s = s\<lparr>thr := (thr s)(tp s := (thr s (tp s))
                \<lparr>thr_context := \<lparr>ctx_s = s_regs s, ctx_ra = ra, ctx_sp = sp_reg s\<rparr>\<rparr>)\<rparr>;
          s = s\<lparr>tp := next\<rparr>;
          c = thr_context (thr s (tp s))
      in (next, s\<lparr>sp_reg := ctx_sp c, pc := ctx_ra c, s_regs := ctx_s c\<rparr>))"

text \<open>The statements of \<open>suspend_self\<close> behind \<open>_thread_swtch\<close>, if the resumed thread is inside it.\<close>

definition suspend_self_resume :: "u64 \<Rightarrow> kstate \<Rightarrow> kstate outcome" where
  "suspend_self_resume prev s =
     (case pc s of
        InSuspend saved \<Rightarrow>
          obind
            (if state (thr s prev) = THREAD_EXITED then
               obind (memory_free_page (stack_base (thr s prev) - PAGE_SIZE) (mem s)) (\<lambda>m.
                 Ret (s\<lparr>mem := m, thr := (thr s)(prev := (thr s prev)\<lparr>stack_base := 0, stack_size := 0\<rparr>)\<rparr>))
             else Ret s)
            (\<lambda>s. Ret (intr_restore saved s))
      | _ \<Rightarrow> Ret s)"

definition switch_space :: "u64 \<Rightarrow> kstate \<Rightarrow> kstate" where
  "switch_space t s =
     (if proc (thr s t) \<noteq> 0
      then s\<lparr>mem := snd (memory_space_switch (mtag (procs s (proc (thr s t)))) (mem s))\<rparr>
      else s)"

text \<open>\<open>suspend_self\<close>, up to the moment the next thread goes on with its own code.\<close>

definition suspend_self :: "kstate \<Rightarrow> kstate outcome" where
  "suspend_self s =
     obind (c_assert (\<not> tlempty (ready_list s))) (\<lambda>_.
     let susp = tp s in
     case intr_disable s of (saved, s) \<Rightarrow>
     case tlremove (ready_list s) (thr s) of (next, l, h) \<Rightarrow>
     let s = s\<lparr>ready_list := l, thr := h\<rparr> in
     obind (c_assert (state (thr s next) = THREAD_READY)) (\<lambda>_.
     let s = set_thread_state next THREAD_RUNNING s in
     obind
       (if state (thr s susp) = THREAD_RUNNING
        then ready_insert susp (set_thread_state susp THREAD_READY s)
        else Ret s)
       (\<lambda>s.
         let s = snd (intr_enable s);
             s = switch_space next s
         in case thread_swtch (InSuspend saved) next s of (prev, s) \<Rightarrow> suspend_self_resume prev s)))"

section \<open>Condition variables\<close>

definition condition_init :: "u64 \<Rightarrow> string \<Rightarrow> kstate \<Rightarrow> kstate" where
  "condition_init c name s = s\<lparr>cond := (cond s)(c := \<lparr>cond_name = name, wait_list = tlclear\<rparr>)\<rparr>"

definition set_wait_list :: "u64 \<Rightarrow> thread_list \<Rightarrow> kstate \<Rightarrow> kstate" where
  "set_wait_list c l s = s\<lparr>cond := (cond s)(c := (cond s c)\<lparr>wait_list := l\<rparr>)\<rparr>"

definition condition_wait :: "u64 \<Rightarrow> kstate \<Rightarrow> kstate outcome" where
  "condition_wait c s =
     obind (c_assert (state (thr s (tp s)) = THREAD_RUNNING)) (\<lambda>_.
     let s = set_thread_state (tp s) THREAD_WAITING s;
         s = s\<lparr>thr := (thr s)(tp s := (thr s (tp s))\<lparr>wait_cond := c, list_next := 0\<rparr>)\<rparr>
     in case intr_disable s of (saved, s) \<Rightarrow>
     obind (tlinsert (wait_list (cond s c)) (tp s) (thr s)) (\<lambda>(l, h).
     let s = intr_restore saved (set_wait_list c l (s\<lparr>thr := h\<rparr>))
     in suspend_self s))"

text \<open>The loop of \<open>condition_broadcast\<close> over the waiting threads, at most \<open>fuel\<close> of them.\<close>

fun broadcast_loop :: "nat \<Rightarrow> u64 \<Rightarrow> u64 \<Rightarrow> tstore \<Rightarrow> tstore outcome" where
  "broadcast_loop fuel c t h =
     (if t = 0 then Ret h
      else case fuel of 0 \<Rightarrow> Running
      | Suc fuel \<Rightarrow>
          obind (c_assert (state (h t) = THREAD_WAITING)) (\<lambda>_.
          obind (c_assert (wait_cond (h t) = c)) (\<lambda>_.
          let h = h(t := (h t)\<lparr>state := THREAD_READY\<rparr>);
              h = h(t := (h t)\<lparr>wait_cond := 0\<rparr>)
          in broadcast_loop fuel c (list_next (h t)) h)))"

declare broadcast_loop.simps [simp del]

definition condition_broadcast :: "u64 \<Rightarrow> kstate \<Rightarrow> kstate outcome" where
  "condition_broadcast c s =
     (if tlempty (wait_list (cond s c)) then Ret s
      else
        case intr_disable s of (saved, s) \<Rightarrow>
        obind (broadcast_loop NTHR c (head (wait_list (cond s c))) (thr s)) (\<lambda>h.
        let s = s\<lparr>thr := h\<rparr> in
        obind (tlappend (ready_list s) (wait_list (cond s c)) (thr s)) (\<lambda>(l0, l1, h).
        let s = set_wait_list c l1 (s\<lparr>ready_list := l0, thr := h\<rparr>);
            s = set_wait_list c tlclear s
        in Ret (intr_restore saved s))))"

section \<open>Threads\<close>

definition thrtab_get :: "int \<Rightarrow> kstate \<Rightarrow> u64 outcome" where
  "thrtab_get tid s = (if 0 \<le> tid \<and> tid < int NTHR then Ret (thrtab s ! nat tid) else Fault)"

text \<open>The first free slot of \<open>thrtab\<close> from slot \<open>i\<close> on; \<open>NTHR\<close> if there is none.\<close>

fun free_slot :: "u64 list \<Rightarrow> nat \<Rightarrow> nat" where
  "free_slot [] i = i"
| "free_slot (t # ts) i = (if t = 0 then i else free_slot ts (Suc i))"

text \<open>
  The stack page of a new thread: \<open>stack_page = memory_alloc_page()\<close> and the two members of the
  \<open>struct thread_stack_anchor\<close> at its end. The result is the page and the address of the anchor.
\<close>

definition new_stack :: "u64 \<Rightarrow> mstate \<Rightarrow> (u64 \<times> u64 \<times> mstate) outcome" where
  "new_stack child m =
     obind (memory_alloc_page m) (\<lambda>(stack_page, m).
     let stack_anchor = stack_page + PAGE_SIZE - 16 in
     obind (store stack_anchor child m) (\<lambda>m.
     obind (store (stack_anchor + 8) 0 m) (\<lambda>m. Ret (stack_page, stack_anchor, m))))"

text \<open>
  The heap block of a new thread is not cleared: \<open>junk\<close> is what it holds in the place of the member \<open>child_exit\<close>, which
  neither \<open>thread_spawn\<close> nor \<open>thread_fork_to_user\<close> initialises.
\<close>

definition thread_spawn :: "condition \<Rightarrow> string \<Rightarrow> u64 \<Rightarrow> u64 \<Rightarrow> kstate \<Rightarrow> (int \<times> kstate) outcome" where
  "thread_spawn junk name start arg s =
     (let tid = free_slot (drop 1 (thrtab s)) 1 in
      if tid = NTHR then Panic ''Too many threads''
      else
        obind (kmalloc sizeof_thread (mem s)) (\<lambda>(child, m).
        obind (new_stack child m) (\<lambda>(stack_page, stack_anchor, m).
        let s = s\<lparr>mem := m, cond := (cond s)(child_exit child := junk), thrtab := (thrtab s)[tid := child]\<rparr>;
            s = s\<lparr>thr := (thr s)(child := (thr s child)
                   \<lparr>thr_id := int tid, thr_name := name, parent := tp s, proc := proc (thr s (tp s)),
                    stack_base := stack_anchor, stack_size := stack_anchor - stack_page\<rparr>)\<rparr>;
            s = set_thread_state child THREAD_READY s
        in case intr_disable s of (saved, s) \<Rightarrow>
        obind (ready_insert child s) (\<lambda>s.
        let s = intr_restore saved s;
            s = thread_setup child (stack_base (thr s child)) start [arg] s
        in Ret (int tid, s)))))"

definition thread_exit :: "kstate \<Rightarrow> kstate outcome" where
  "thread_exit s =
     (if tp s = main_thread s then Halted
      else
        let s = set_thread_state (tp s) THREAD_EXITED s in
        obind (c_assert (parent (thr s (tp s)) \<noteq> 0)) (\<lambda>_.
        obind (condition_broadcast (child_exit (parent (thr s (tp s)))) s) suspend_self))"

definition thread_yield :: "kstate \<Rightarrow> kstate outcome" where
  "thread_yield s =
     obind (c_assert (state (thr s (tp s)) = THREAD_RUNNING)) (\<lambda>_. suspend_self s)"

text \<open>Make the children of \<open>t\<close> children of its parent: the loop of \<open>recycle_thread\<close>.\<close>

definition reparent :: "u64 \<Rightarrow> u64 list \<Rightarrow> tstore \<Rightarrow> tstore" where
  "reparent t tab h =
     fold (\<lambda>c h. if c \<noteq> 0 \<and> parent (h c) = t then h(c := (h c)\<lparr>parent := parent (h t)\<rparr>) else h) tab h"

definition recycle_thread :: "int \<Rightarrow> kstate \<Rightarrow> kstate outcome" where
  "recycle_thread tid s =
     obind (thrtab_get tid s) (\<lambda>t.
     obind (c_assert (0 < tid \<and> tid < int NTHR \<and> t \<noteq> 0)) (\<lambda>_.
     obind (c_assert (state (thr s t) = THREAD_EXITED)) (\<lambda>_.
     let s = s\<lparr>thr := reparent t (drop 1 (thrtab s)) (thr s)\<rparr>;
         s = s\<lparr>thrtab := (thrtab s)[nat tid := 0]\<rparr>
     in obind (kfree t (mem s)) (\<lambda>m. Ret (s\<lparr>mem := m\<rparr>)))))"

text \<open>
  A call that may block either returns (\<open>Done\<close>) or was suspended in \<open>condition_wait\<close> (\<open>Wait\<close>): the state is
  then the one in which the next thread runs, and the caller goes on later, when it is resumed.
\<close>

datatype 'a progress = Done 'a | Wait

text \<open>\<open>thread_join\<close>, and its loop, which a resumed caller enters again.\<close>

definition thread_join_loop :: "int \<Rightarrow> u64 \<Rightarrow> kstate \<Rightarrow> (int progress \<times> kstate) outcome" where
  "thread_join_loop tid child s =
     (if state (thr s child) \<noteq> THREAD_EXITED
      then obind (condition_wait (child_exit (tp s)) s) (\<lambda>s. Ret (Wait, s))
      else obind (recycle_thread tid s) (\<lambda>s. Ret (Done tid, s)))"

definition thread_join :: "int \<Rightarrow> kstate \<Rightarrow> (int progress \<times> kstate) outcome" where
  "thread_join tid s =
     obind (thrtab_get tid s) (\<lambda>child.
     if tid \<le> 0 \<or> int NTHR \<le> tid then Ret (Done (- 1), s)
     else if child = 0 \<or> parent (thr s child) \<noteq> tp s then Ret (Done (- 1), s)
     else thread_join_loop tid child s)"

definition is_child :: "kstate \<Rightarrow> nat \<Rightarrow> bool" where
  "is_child s tid \<longleftrightarrow> thrtab s ! tid \<noteq> 0 \<and> parent (thr s (thrtab s ! tid)) = tp s"

definition exited_child :: "kstate \<Rightarrow> nat \<Rightarrow> bool" where
  "exited_child s tid \<longleftrightarrow> is_child s tid \<and> state (thr s (thrtab s ! tid)) = THREAD_EXITED"

definition thread_join_any :: "kstate \<Rightarrow> (int progress \<times> kstate) outcome" where
  "thread_join_any s =
     (case find (exited_child s) [1..<NTHR] of
        Some tid \<Rightarrow> thread_join (int tid) s
      | None \<Rightarrow>
          if length (filter (is_child s) [1..<NTHR]) = 0
          then Panic ''thread_wait called by childless thread''
          else obind (condition_wait (child_exit (tp s)) s) (\<lambda>s. Ret (Wait, s)))"

text \<open>The rest of \<open>thread_join_any\<close>, when the caller is resumed.\<close>

definition thread_join_any_resume :: "kstate \<Rightarrow> (int progress \<times> kstate) outcome" where
  "thread_join_any_resume s =
     (case find (exited_child s) [1..<NTHR] of
        Some tid \<Rightarrow> obind (recycle_thread (int tid) s) (\<lambda>s. Ret (Done (int tid), s))
      | None \<Rightarrow> Panic ''spurious child_exit signal'')"

definition thread_process :: "int \<Rightarrow> kstate \<Rightarrow> u64 outcome" where
  "thread_process tid s =
     obind (c_assert (0 \<le> tid \<or> tid < int NTHR)) (\<lambda>_.
     obind (thrtab_get tid s) (\<lambda>t.
     obind (c_assert (t \<noteq> 0)) (\<lambda>_. Ret (proc (thr s t)))))"

definition thread_set_process :: "int \<Rightarrow> u64 \<Rightarrow> kstate \<Rightarrow> kstate outcome" where
  "thread_set_process tid p s =
     obind (c_assert (0 \<le> tid \<or> tid < int NTHR)) (\<lambda>_.
     obind (thrtab_get tid s) (\<lambda>t.
     obind (c_assert (t \<noteq> 0)) (\<lambda>_. Ret (s\<lparr>thr := (thr s)(t := (thr s t)\<lparr>proc := p\<rparr>)\<rparr>))))"

definition thread_name :: "int \<Rightarrow> kstate \<Rightarrow> string outcome" where
  "thread_name tid s =
     obind (c_assert (0 \<le> tid \<or> tid < int NTHR)) (\<lambda>_.
     obind (thrtab_get tid s) (\<lambda>t.
     obind (c_assert (t \<noteq> 0)) (\<lambda>_. Ret (thr_name (thr s t)))))"

fun thread_state_name :: "thread_state \<Rightarrow> string" where
  "thread_state_name THREAD_UNINITIALIZED = ''UNINITIALIZED''"
| "thread_state_name THREAD_STOPPED = ''STOPPED''"
| "thread_state_name THREAD_WAITING = ''WAITING''"
| "thread_state_name THREAD_RUNNING = ''RUNNING''"
| "thread_state_name THREAD_READY = ''READY''"
| "thread_state_name THREAD_EXITED = ''EXITED''"

section \<open>The idle thread and initialisation\<close>

text \<open>One round of the loop of \<open>idle_thread_func\<close>; \<open>wfi\<close> only waits for an interrupt.\<close>

definition idle_thread_func :: "kstate \<Rightarrow> kstate outcome" where
  "idle_thread_func s =
     (if \<not> tlempty (ready_list s) then thread_yield s
      else Ret (snd (intr_enable (snd (intr_disable s)))))"

definition init_main_thread :: "u64 \<Rightarrow> u64 \<Rightarrow> kstate \<Rightarrow> kstate" where
  "init_main_thread anchor lowest s =
     s\<lparr>thr := (thr s)(main_thread s := (thr s (main_thread s))
        \<lparr>stack_base := anchor, stack_size := anchor - lowest\<rparr>)\<rparr>"

definition init_idle_thread :: "u64 \<Rightarrow> u64 \<Rightarrow> u64 \<Rightarrow> kstate \<Rightarrow> kstate outcome" where
  "init_idle_thread anchor lowest func s =
     (let s = s\<lparr>thr := (thr s)(idle_thread s := (thr s (idle_thread s))
                \<lparr>stack_base := anchor, stack_size := anchor - lowest\<rparr>)\<rparr>;
          s = thread_setup (idle_thread s) anchor func [] s
      in ready_insert (idle_thread s) s)"

text \<open>\<open>thread_init\<close>; the link-time addresses of the two static stacks and of \<open>idle_thread_func\<close> are arguments.\<close>

definition thread_init :: "u64 \<Rightarrow> u64 \<Rightarrow> u64 \<Rightarrow> u64 \<Rightarrow> u64 \<Rightarrow> kstate \<Rightarrow> kstate outcome" where
  "thread_init main_anchor main_lowest idle_anchor idle_lowest func s =
     (let s = init_main_thread main_anchor main_lowest s in
      obind (init_idle_thread idle_anchor idle_lowest func s) (\<lambda>s.
      let s = s\<lparr>tp := main_thread s\<rparr> in Ret (s\<lparr>thrmgr_initialized := True\<rparr>)))"

section \<open>User mode\<close>

text \<open>\<open>thread_jump_to_user\<close> and \<open>_thread_finish_jump\<close>: what the processor holds when it leaves for user mode.\<close>

record user_entry =
  ue_pc :: u64
  ue_sp :: u64
  ue_sscratch :: u64
  ue_spie :: bool
  ue_spp :: bool

definition thread_jump_to_user :: "u64 \<Rightarrow> u64 \<Rightarrow> kstate \<Rightarrow> user_entry \<times> kstate" where
  "thread_jump_to_user usp upc s =
     (case intr_disable s of (_, s) \<Rightarrow>
        (\<lparr>ue_pc = upc, ue_sp = usp, ue_sscratch = stack_base (thr s (tp s)), ue_spie = True, ue_spp = False\<rparr>, s))"

definition TFR_TP :: nat where "TFR_TP = 4"
definition TFR_S0 :: nat where "TFR_S0 = 8"
definition TFR_S1 :: nat where "TFR_S1 = 9"
definition TFR_A0 :: nat where "TFR_A0 = 10"
definition TFR_S2 :: nat where "TFR_S2 = 18"
definition TFR_S3 :: nat where "TFR_S3 = 19"
definition TFR_S4 :: nat where "TFR_S4 = 20"
definition TFR_S11 :: nat where "TFR_S11 = 27"

text \<open>
  \<open>_thread_finish_fork\<close>: the loop counter starts at the number of bytes in use on the stack and is decremented
  once per copied 8-byte word, down to -1.
\<close>

definition copy_word :: "u64 \<Rightarrow> u64 \<Rightarrow> mstate \<Rightarrow> mstate outcome" where
  "copy_word src dst m = obind (load src m) (\<lambda>w. store dst w m)"

definition fork_copies :: "u64 \<Rightarrow> nat" where
  "fork_copies used = (if 0 \<le> sint used then unat used + 1 else 1)"

definition thread_finish_fork :: "u64 \<Rightarrow> u64 \<Rightarrow> kstate \<Rightarrow> kstate outcome" where
  "thread_finish_fork child child_proc s =
     (let s = s\<lparr>thr := (thr s)(tp s := (thr s (tp s))
                \<lparr>thr_context := \<lparr>ctx_s = s_regs s, ctx_ra = InFork child_proc, ctx_sp = sp_reg s\<rparr>\<rparr>)\<rparr>;
          base = stack_base (thr s (tp s));
          used = base - sp_reg s;
          sp = ctx_sp (thr_context (thr s child))
      in
      obind (ofold (\<lambda>i. copy_word (base - 8 - 8 * of_nat i) (sp - 8 - 8 * of_nat i))
               [0..<fork_copies used] (mem s)) (\<lambda>m.
      obind (store (sp - 24 * 8) 0 m) (\<lambda>m.
      Ret (s\<lparr>mem := m, sp_reg := sp - used, tp := child, pc := InFork child_proc\<rparr>))))"

definition thread_fork_to_user ::
    "condition \<Rightarrow> u64 \<Rightarrow> trap_frame \<Rightarrow> kstate \<Rightarrow> (int \<times> kstate) outcome" where
  "thread_fork_to_user junk child_proc tfr s =
     (let parent_thread = tfr_x tfr ! TFR_TP in
      obind (kmalloc sizeof_thread (mem s)) (\<lambda>(child, m).
      obind (new_stack child m) (\<lambda>(stack_page, stack_anchor, m).
      let s = s\<lparr>mem := m, cond := (cond s)(child_exit child := junk)\<rparr>;
          slot = free_slot (thrtab s) 0;
          s = (if slot < NTHR
               then s\<lparr>procs := (procs s)(child_proc := (procs s child_proc)\<lparr>proc_tid := int slot\<rparr>),
                      thrtab := (thrtab s)[slot := child]\<rparr>
               else s);
          s = s\<lparr>thr := (thr s)(child := (thr s child)
                 \<lparr>thr_id := proc_tid (procs s child_proc), thr_name := thr_name (thr s parent_thread),
                  parent := parent_thread, proc := child_proc,
                  stack_base := stack_anchor, stack_size := stack_anchor - stack_page\<rparr>)\<rparr>
      in case intr_disable s of (saved, s) \<Rightarrow>
      obind (ready_insert parent_thread s) (\<lambda>s.
      let s = set_thread_state parent_thread THREAD_READY s;
          s = set_thread_state child THREAD_RUNNING s;
          s = intr_restore saved s;
          s = thread_setup child (stack_base (thr s child)) (tfr_x tfr ! TFR_S11)
                (map (\<lambda>r. tfr_x tfr ! r) [TFR_S0, TFR_S1, TFR_S2, TFR_S3, TFR_S4]) s
      in obind (thread_finish_fork child child_proc s) (\<lambda>s.
         Ret (proc_tid (procs s child_proc), s))))))"

end
