(* ===== verification/ThreadQueue.thy ===== *)
theory ThreadQueue
  imports Thread
begin

text \<open>
  The thread lists of \<^verbatim>\<open>kern/thread.c\<close> as queues: the interface \<open>thread_queue\<close> states what the scheduler relies on, and
  the pointer-based lists are shown to provide it.
\<close>

definition links :: "tstore \<Rightarrow> u64 \<Rightarrow> u64" where
  "links h = (\<lambda>t. list_next (h t))"

lemma links_apply [simp]: "links h t = list_next (h t)"
  by (simp add: links_def)

definition tlist :: "tstore \<Rightarrow> thread_list \<Rightarrow> u64 list \<Rightarrow> bool" where
  "tlist h l xs \<longleftrightarrow> chain (links h) (head l) xs \<and> tail l = (if xs = [] then 0 else last xs)"

text \<open>\<open>relinked A h h'\<close>: \<open>h'\<close> differs from \<open>h\<close> only in the links of threads in \<open>A\<close>.\<close>

definition relinked :: "u64 set \<Rightarrow> tstore \<Rightarrow> tstore \<Rightarrow> bool" where
  "relinked A h h' \<longleftrightarrow> (\<forall>t. h' t = (h t)\<lparr>list_next := list_next (h' t)\<rparr> \<and> (t \<notin> A \<longrightarrow> h' t = h t))"

locale thread_queue =
  fixes rep :: "tstore \<Rightarrow> 'q \<Rightarrow> u64 list \<Rightarrow> bool"
    and ins :: "'q \<Rightarrow> u64 \<Rightarrow> tstore \<Rightarrow> ('q \<times> tstore) outcome"
    and rem :: "'q \<Rightarrow> tstore \<Rightarrow> u64 \<times> 'q \<times> tstore"
    and app :: "'q \<Rightarrow> 'q \<Rightarrow> tstore \<Rightarrow> ('q \<times> 'q \<times> tstore) outcome"
  assumes rep_distinct: "rep h q xs \<Longrightarrow> distinct xs"
    and rep_nonzero: "rep h q xs \<Longrightarrow> 0 \<notin> set xs"
    and rep_frame: "rep h q xs \<Longrightarrow> (\<forall>t \<in> set xs. list_next (h' t) = list_next (h t)) \<Longrightarrow> rep h' q xs"
    and ins_rep: "rep h q xs \<Longrightarrow> t \<noteq> 0 \<Longrightarrow> t \<notin> set xs \<Longrightarrow>
      \<exists>q' h'. ins q t h = Ret (q', h') \<and> rep h' q' (xs @ [t]) \<and> relinked (insert t (set xs)) h h'"
    and rem_rep: "rep h q (t # xs) \<Longrightarrow>
      \<exists>q' h'. rem q h = (t, q', h') \<and> rep h' q' xs \<and> relinked {t} h h'"
    and app_rep: "rep h q xs \<Longrightarrow> rep h r ys \<Longrightarrow> set xs \<inter> set ys = {} \<Longrightarrow>
      \<exists>q' r' h'. app q r h = Ret (q', r', h') \<and> rep h' q' (xs @ ys) \<and> rep h' r' [] \<and> relinked (set xs) h h'"
begin

lemma rep_other:
  "rep h q xs \<Longrightarrow> relinked A h h' \<Longrightarrow> A \<inter> set xs = {} \<Longrightarrow> rep h' q xs"
  by (rule rep_frame) (auto simp: relinked_def)

text \<open>Removing the first thread and putting another one at the end: one turn of the run queue.\<close>

lemma turn:
  assumes "rep h q (t # xs)" and "u \<noteq> 0" and "u \<notin> set (t # xs)" 
    and g: "\<And>k x. list_next (g k x) = list_next (k x)"
  shows "\<exists>q1 h1 q2 h2. rem q h = (t, q1, h1) \<and> relinked {t} h h1 \<and> ins q1 u (g h1) = Ret (q2, h2) \<and>
    rep h2 q2 (xs @ [u]) \<and> relinked (insert u (set xs)) (g h1) h2"
proof -
  obtain q1 h1 where 1: "rem q h = (t, q1, h1)" "rep h1 q1 xs" "relinked {t} h h1"
    using rem_rep [OF assms(1)] by blast
  have "rep (g h1) q1 xs" by (rule rep_frame [OF 1(2)]) (simp add: g)
  from ins_rep [OF this assms(2)] assms(3) 1 show ?thesis by auto
qed

end

lemma links_set_next: "links (set_next t v h) = (links h)(t := v)"
  by (auto simp: set_next_def links_def)

lemma relinked_set_next: "t \<in> A \<Longrightarrow> relinked A h (set_next t v h)"
  by (auto simp: relinked_def set_next_def)

lemma relinked_trans: "relinked A h h1 \<Longrightarrow> relinked B h1 h2 \<Longrightarrow> relinked (A \<union> B) h h2"
  unfolding relinked_def by (metis UnCI thread.update_convs(9) thread.select_convs(9) thread.surjective)

lemma tlist_empty [simp]: "tlist h \<lparr>head = 0, tail = 0\<rparr> xs \<longleftrightarrow> xs = []"
  by (cases xs) (auto simp: tlist_def)

lemma tlinsert_tlist:
  assumes "tlist h l xs" and "t \<noteq> 0" and "t \<notin> set xs"
  shows "\<exists>l' h'. tlinsert l t h = Ret (l', h') \<and> tlist h' l' (xs @ [t]) \<and> relinked (insert t (set xs)) h h'"
proof (cases "xs = []")
  case True
  then show ?thesis using assms
    by (auto simp: tlinsert_def tlist_def set_next_def relinked_def)
next
  case False
  let ?h = "set_next t 0 h"
  have c: "chain (links h) (head l) xs" and tl: "tail l = last xs"
    using assms(1) False by (auto simp: tlist_def)
  have nz: "tail l \<noteq> 0" "head l \<noteq> 0"
    using chain_nonzero [OF c last_in_set [OF False]] chain_head [OF c] False tl by auto
  have c1: "chain (links ?h) (head l) xs"
    unfolding links_set_next using c by (rule chain_agree [THEN iffD1, rotated]) (use assms(3) in auto)
  have c2: "chain (links ?h) t [t]" using assms(2) by (simp add: set_next_def)
  have "chain (links (set_next (last xs) t ?h)) (head l) (xs @ [t])"
    unfolding links_set_next [of "last xs"] by (rule chain_join [OF c1 c2 False]) (use assms(3) in simp)
  moreover have "relinked (insert t (set xs)) h (set_next (last xs) t ?h)"
    using relinked_trans [OF relinked_set_next relinked_set_next, of t "{t}" "last xs" "set xs"] False by simp
  ultimately show ?thesis using nz assms(2) tl by (simp add: tlinsert_def Let_def tlist_def)
qed

lemma set_next_twice [simp]: "set_next t v (set_next t w h) = set_next t v h"
  by (auto simp: set_next_def)

lemma tlremove_tlist:
  assumes "tlist h l (t # xs)"
  shows "\<exists>l' h'. tlremove l h = (t, l', h') \<and> tlist h' l' xs \<and> relinked {t} h h'"
proof -
  have c: "chain (links h) (list_next (h t)) xs" and t: "t \<notin> set xs" "t \<noteq> 0" "head l = t"
    using assms chain_distinct [of "links h" "head l" "t # xs"] by (auto simp: tlist_def)
  have "chain (links (set_next t 0 h)) (list_next (h t)) xs"
    unfolding links_set_next using c by (rule chain_agree [THEN iffD1, rotated]) (use t in auto)
  with t assms chain_head [OF c] show ?thesis
    by (auto simp: tlremove_def Let_def tlist_def intro: relinked_set_next)
qed

lemma relinked_refl: "relinked A h h"
  by (simp add: relinked_def)

lemma tlappend_tlist:
  assumes "tlist h l0 xs" and "tlist h l1 ys" and "set xs \<inter> set ys = {}"
  shows "\<exists>l0' l1' h'. tlappend l0 l1 h = Ret (l0', l1', h') \<and> tlist h' l0' (xs @ ys) \<and> tlist h' l1' [] \<and>
    relinked (set xs) h h'"
proof -
  have c: "chain (links h) (head l0) xs" "chain (links h) (head l1) ys"
    using assms by (auto simp: tlist_def)
  note hd = chain_head [OF c(1)] chain_head [OF c(2)]
  have nz: "xs \<noteq> [] \<Longrightarrow> last xs \<noteq> 0" "ys \<noteq> [] \<Longrightarrow> last ys \<noteq> 0"
    using chain_nonzero [OF c(1)] chain_nonzero [OF c(2)] by auto
  consider "xs = []" | "xs \<noteq> []" "ys = []" | "xs \<noteq> []" "ys \<noteq> []" by blast
  then show ?thesis
  proof cases
    case 3
    have "chain (links (set_next (last xs) (head l1) h)) (head l0) (xs @ ys)"
      unfolding links_set_next by (rule chain_join [OF c 3(1) assms(3)])
    with 3 assms(1,2) hd nz show ?thesis
      by (auto simp: tlappend_def tlist_def intro!: relinked_set_next)
  qed (use assms(1,2) hd nz in \<open>auto simp: tlappend_def tlist_def relinked_refl\<close>)
qed

interpretation tq: thread_queue tlist tlinsert tlremove tlappend
proof unfold_locales
  fix h h' :: tstore and l xs
  show "tlist h l xs \<Longrightarrow> distinct xs" by (auto simp: tlist_def dest: chain_distinct)
  show "tlist h l xs \<Longrightarrow> 0 \<notin> set xs" by (auto simp: tlist_def dest: chain_nonzero)
  show "tlist h l xs \<Longrightarrow> \<forall>t \<in> set xs. list_next (h' t) = list_next (h t) \<Longrightarrow> tlist h' l xs"
    using chain_agree [of xs "links h" "links h'" "head l"] by (auto simp: tlist_def)
qed (use tlinsert_tlist tlremove_tlist tlappend_tlist in blast)+

end
