(* ===== verification/Scheduler.thy ===== *)
theory Scheduler
  imports ThreadQueue
begin

text \<open>
  The scheduler of \<^verbatim>\<open>kern/thread.c\<close> against an abstract one with a running thread, a queue of ready threads and a queue
  per condition variable: the relation \<open>sched_ok\<close> between the two, and how each operation preserves it.
\<close>

section \<open>The scheduler\<close>

record sched =
  run :: u64
  ready :: "u64 list"
  waiting :: "u64 \<Rightarrow> u64 list"

definition a_next :: "sched \<Rightarrow> sched" where
  "a_next a = a\<lparr>run := hd (ready a), ready := tl (ready a)\<rparr>"

definition a_yield :: "sched \<Rightarrow> sched" where
  "a_yield a = a_next (a\<lparr>ready := ready a @ [run a]\<rparr>)"

definition a_wait :: "u64 \<Rightarrow> sched \<Rightarrow> sched" where
  "a_wait c a = a_next (a\<lparr>waiting := (waiting a)(c := waiting a c @ [run a])\<rparr>)"

definition a_wake :: "u64 \<Rightarrow> sched \<Rightarrow> sched" where
  "a_wake c a = a\<lparr>ready := ready a @ waiting a c, waiting := (waiting a)(c := [])\<rparr>"

definition a_spawn :: "u64 \<Rightarrow> sched \<Rightarrow> sched" where
  "a_spawn t a = a\<lparr>ready := ready a @ [t]\<rparr>"

definition live :: "kstate \<Rightarrow> u64 set" where
  "live s = set (thrtab s) - {0}"

definition queues :: "kstate \<Rightarrow> sched \<Rightarrow> bool" where
  "queues s a \<longleftrightarrow> tlist (thr s) (ready_list s) (ready a) \<and>
     (\<forall>c. tlist (thr s) (wait_list (cond s c)) (waiting a c))"

definition placed :: "kstate \<Rightarrow> sched \<Rightarrow> bool" where
  "placed s a \<longleftrightarrow> run a = tp s \<and> tp s \<in> live s \<and>
     (\<forall>t. t \<in> set (ready a) \<longleftrightarrow> t \<in> live s \<and> state (thr s t) = THREAD_READY) \<and>
     (\<forall>c t. t \<in> set (waiting a c) \<longleftrightarrow>
        t \<in> live s \<and> state (thr s t) = THREAD_WAITING \<and> wait_cond (thr s t) = c) \<and>
     (\<forall>t \<in> live s. state (thr s t) = THREAD_RUNNING \<longrightarrow> t = tp s) \<and>
     (\<forall>t \<in> live s. state (thr s t) \<notin> {THREAD_UNINITIALIZED, THREAD_STOPPED})"

definition table :: "kstate \<Rightarrow> bool" where
  "table s \<longleftrightarrow> length (thrtab s) = NTHR \<and> thrtab s ! MAIN_TID = main_thread s \<and>
     thrtab s ! IDLE_TID = idle_thread s \<and> main_thread s \<noteq> 0 \<and> idle_thread s \<noteq> 0 \<and>
     (\<forall>i < NTHR. thrtab s ! i \<noteq> 0 \<longrightarrow> thr_id (thr s (thrtab s ! i)) = int i \<and>
        (i \<noteq> MAIN_TID \<longrightarrow> parent (thr s (thrtab s ! i)) \<in> live s)) \<and>
     state (thr s (main_thread s)) \<noteq> THREAD_EXITED \<and>
     state (thr s (idle_thread s)) \<in> {THREAD_READY, THREAD_RUNNING}"

text \<open>
  \<open>core\<close> holds inside the operations as well, where the current thread may already be marked \<open>WAITING\<close> or
  \<open>EXITED\<close>; \<open>sched_ok\<close> is the invariant between operations.
\<close>

definition core :: "kstate \<Rightarrow> sched \<Rightarrow> bool" where
  "core s a \<longleftrightarrow> queues s a \<and> placed s a \<and> table s"

definition sched_ok :: "kstate \<Rightarrow> sched \<Rightarrow> bool" where
  "sched_ok s a \<longleftrightarrow> core s a \<and> state (thr s (tp s)) = THREAD_RUNNING"

text \<open>
  What is common to all changes of the scheduler: the stores may differ in the links, states, wait conditions
  and contexts of threads only.
\<close>

definition keeps :: "kstate \<Rightarrow> kstate \<Rightarrow> bool" where
  "keeps s s' \<longleftrightarrow> thrtab s' = thrtab s \<and> main_thread s' = main_thread s \<and> idle_thread s' = idle_thread s \<and>
     procs s' = procs s \<and> pmem (mem s') = pmem (mem s) \<and> free_list (mem s') = free_list (mem s) \<and>
     heap_start (mem s') = heap_start (mem s) \<and> heap_end (mem s') = heap_end (mem s) \<and>
     (\<forall>t. thr_id (thr s' t) = thr_id (thr s t) \<and> parent (thr s' t) = parent (thr s t) \<and>
        proc (thr s' t) = proc (thr s t) \<and> stack_base (thr s' t) = stack_base (thr s t) \<and>
        stack_size (thr s' t) = stack_size (thr s t) \<and> thr_name (thr s' t) = thr_name (thr s t) \<and>
        (state (thr s t) = THREAD_EXITED \<longrightarrow> state (thr s' t) = THREAD_EXITED))"

lemma keeps_live: "keeps s s' \<Longrightarrow> live s' = live s"
  by (simp add: keeps_def live_def)

lemma keeps_table:
  "keeps s s' \<Longrightarrow> table s \<Longrightarrow> state (thr s' (main_thread s)) \<noteq> THREAD_EXITED \<Longrightarrow>
   state (thr s' (idle_thread s)) \<in> {THREAD_READY, THREAD_RUNNING} \<Longrightarrow> table s'"
  by (simp add: table_def keeps_live) (simp add: keeps_def)

lemma relinked_fields:
  assumes "relinked A h h'"
  shows "thr_id (h' t) = thr_id (h t)" "parent (h' t) = parent (h t)" "proc (h' t) = proc (h t)"
    "stack_base (h' t) = stack_base (h t)" "stack_size (h' t) = stack_size (h t)" "thr_name (h' t) = thr_name (h t)"
    "state (h' t) = state (h t)" "wait_cond (h' t) = wait_cond (h t)" "thr_context (h' t) = thr_context (h t)"
proof -
  obtain v where "h' t = (h t)\<lparr>list_next := v\<rparr>" using assms unfolding relinked_def by blast
  then show "thr_id (h' t) = thr_id (h t)" "parent (h' t) = parent (h t)" "proc (h' t) = proc (h t)"
    "stack_base (h' t) = stack_base (h t)" "stack_size (h' t) = stack_size (h t)" "thr_name (h' t) = thr_name (h t)"
    "state (h' t) = state (h t)" "wait_cond (h' t) = wait_cond (h t)" "thr_context (h' t) = thr_context (h t)"
    by simp_all
qed

text \<open>What \<open>_thread_swtch\<close> and the rest of \<open>suspend_self\<close> do, when the resumed thread is running.\<close>

definition save_context :: "bool \<Rightarrow> kstate \<Rightarrow> tstore \<Rightarrow> tstore" where
  "save_context saved s h = h(tp s := (h (tp s))
     \<lparr>thr_context := \<lparr>ctx_s = s_regs s, ctx_ra = InSuspend saved, ctx_sp = sp_reg s\<rparr>\<rparr>)"

lemma save_context_fields [simp]:
  "list_next (save_context b s h t) = list_next (h t)" "state (save_context b s h t) = state (h t)"
  "wait_cond (save_context b s h t) = wait_cond (h t)" "thr_id (save_context b s h t) = thr_id (h t)"
  "parent (save_context b s h t) = parent (h t)" "proc (save_context b s h t) = proc (h t)"
  "stack_base (save_context b s h t) = stack_base (h t)" "stack_size (save_context b s h t) = stack_size (h t)"
  "thr_name (save_context b s h t) = thr_name (h t)"
  by (simp_all add: save_context_def)

definition after_switch :: "bool \<Rightarrow> u64 \<Rightarrow> thread_list \<Rightarrow> tstore \<Rightarrow> kstate \<Rightarrow> kstate" where
  "after_switch saved n l h s =
     (let h = save_context saved s h; c = thr_context (h n) in
      s\<lparr>thr := h, ready_list := l, tp := n, sp_reg := ctx_sp c, pc := ctx_ra c, s_regs := ctx_s c,
        sie := (case ctx_ra c of InSuspend b \<Rightarrow> b | _ \<Rightarrow> True),
        mem := (if proc (h n) \<noteq> 0 then (mem s)\<lparr>satp := mtag (procs s (proc (h n)))\<rparr> else mem s)\<rparr>)"

lemma swtch_resume:
  assumes "state (h n) = THREAD_RUNNING"
  shows "(case thread_swtch (InSuspend saved) n (switch_space n (snd (intr_enable (s\<lparr>sie := False, ready_list := l, thr := h\<rparr>))))
          of (prev, s) \<Rightarrow> suspend_self_resume prev s) = Ret (after_switch saved n l h s)"
  using assms
  by (auto simp: thread_swtch_def suspend_self_resume_def switch_space_def intr_enable_def memory_space_switch_def
      after_switch_def save_context_def Let_def intr_restore_def split: code_addr.splits)

text \<open>\<open>same_threads h h'\<close>: the members of \<open>struct thread\<close> that scheduling never changes.\<close>

definition same_threads :: "tstore \<Rightarrow> tstore \<Rightarrow> bool" where
  "same_threads h h' \<longleftrightarrow>
     (\<forall>t. thr_id (h' t) = thr_id (h t) \<and> parent (h' t) = parent (h t) \<and>
        proc (h' t) = proc (h t) \<and> stack_base (h' t) = stack_base (h t) \<and>
        stack_size (h' t) = stack_size (h t) \<and> thr_name (h' t) = thr_name (h t) \<and>
        (state (h t) = THREAD_EXITED \<longrightarrow> state (h' t) = THREAD_EXITED))"

lemma same_threads_refl: "same_threads h h"
  by (simp add: same_threads_def)

lemma same_threads_trans: "same_threads h h1 \<Longrightarrow> same_threads h1 h2 \<Longrightarrow> same_threads h h2"
  by (simp add: same_threads_def)

lemma relinked_same: "relinked A h h' \<Longrightarrow> same_threads h h'"
  by (simp add: same_threads_def relinked_fields)

lemma keeps_same: "keeps s s' \<longleftrightarrow> thrtab s' = thrtab s \<and> main_thread s' = main_thread s \<and>
     idle_thread s' = idle_thread s \<and>
     procs s' = procs s \<and> pmem (mem s') = pmem (mem s) \<and> free_list (mem s') = free_list (mem s) \<and>
     heap_start (mem s') = heap_start (mem s) \<and> heap_end (mem s') = heap_end (mem s) \<and> same_threads (thr s) (thr s')"
  unfolding keeps_def same_threads_def by (rule refl)

lemma keeps_trans: "keeps s s1 \<Longrightarrow> keeps s1 s2 \<Longrightarrow> keeps s s2"
  by (simp add: keeps_def)

lemma after_switch_keeps: "same_threads (thr s) h \<Longrightarrow> keeps s (after_switch b n l h s)"
  by (simp add: keeps_def after_switch_def Let_def same_threads_def)

lemma coreD:
  assumes "core s a"
  shows "tlist (thr s) (ready_list s) (ready a)" "tlist (thr s) (wait_list (cond s c)) (waiting a c)"
    "run a = tp s" "tp s \<in> live s" "t \<in> set (ready a) \<longleftrightarrow> t \<in> live s \<and> state (thr s t) = THREAD_READY"
    "t \<in> set (waiting a c) \<longleftrightarrow> t \<in> live s \<and> state (thr s t) = THREAD_WAITING \<and> wait_cond (thr s t) = c"
    "t \<in> live s \<Longrightarrow> state (thr s t) = THREAD_RUNNING \<Longrightarrow> t = tp s"
    "t \<in> live s \<Longrightarrow> state (thr s t) \<notin> {THREAD_UNINITIALIZED, THREAD_STOPPED}" "table s"
  using assms by (auto simp: core_def queues_def placed_def)

lemma tableD:
  assumes "table s"
  shows "length (thrtab s) = NTHR" "main_thread s \<in> live s" "idle_thread s \<in> live s"
    "state (thr s (main_thread s)) \<noteq> THREAD_EXITED"
    "state (thr s (idle_thread s)) \<in> {THREAD_READY, THREAD_RUNNING}"
proof -
  show 1: "length (thrtab s) = NTHR" "state (thr s (main_thread s)) \<noteq> THREAD_EXITED"
    "state (thr s (idle_thread s)) \<in> {THREAD_READY, THREAD_RUNNING}" using assms by (auto simp: table_def)
  have "thrtab s ! MAIN_TID \<in> set (thrtab s)" "thrtab s ! IDLE_TID \<in> set (thrtab s)"
    using 1 by (auto simp: MAIN_TID_def IDLE_TID_def NTHR_def intro!: nth_mem)
  then show "main_thread s \<in> live s" "idle_thread s \<in> live s"
    using assms by (auto simp: table_def live_def)
qed

lemma live_nonzero: "t \<in> live s \<Longrightarrow> t \<noteq> 0"
  by (simp add: live_def)

text \<open>The scheduler's invariant after a switch to the first ready thread.\<close>

lemma after_switch_ok:
  assumes core: "core s a" and r: "ready a = n # rs" and l: "tlist h l rs'"
    and same: "same_threads (thr s) h"
    and st: "\<And>t. state (h t) = (if t = n then THREAD_RUNNING
               else if t = tp s \<and> state (thr s t) = THREAD_RUNNING then THREAD_READY else state (thr s t))"
    and wc: "\<And>t. wait_cond (h t) = wait_cond (thr s t)"
    and nx: "\<And>c t. t \<in> set (waiting a c) \<Longrightarrow> list_next (h t) = list_next (thr s t)"
    and rs': "set rs' = set rs \<union> (if state (thr s (tp s)) = THREAD_RUNNING then {tp s} else {})"
  shows "sched_ok (after_switch b n l h s) (a\<lparr>run := n, ready := rs'\<rparr>)"
proof -
  let ?s = "after_switch b n l h s"
  note C = coreD [OF core]
  have k: "keeps s ?s" by (rule after_switch_keeps [OF same])
  have n: "n \<in> live s" "state (thr s n) = THREAD_READY" "n \<notin> set rs"
    using C(5) [of n] r tq.rep_distinct [OF C(1)] by auto
  have f: "state (thr ?s t) = state (h t)" "wait_cond (thr ?s t) = wait_cond (h t)" "tp ?s = n"
    "list_next (thr ?s t) = list_next (h t)" "ready_list ?s = l" "cond ?s = cond s" for t
    by (simp_all add: after_switch_def Let_def)
  have q: "queues ?s (a\<lparr>run := n, ready := rs'\<rparr>)"
  proof -
    have "tlist (thr ?s) l rs'" by (rule tq.rep_frame [OF l]) (simp add: f)
    moreover have "tlist (thr ?s) (wait_list (cond s c)) (waiting a c)" for c
      by (rule tq.rep_frame [OF C(2)]) (simp add: f nx)
    ultimately show ?thesis by (simp add: queues_def f)
  qed
  have ready: "t \<in> set rs' \<longleftrightarrow> t \<in> live s \<and> state (h t) = THREAD_READY" for t
  proof (cases "t = n")
    case True
    with n rs' show ?thesis by (auto simp: st)
  next
    case False
    have "t \<in> set rs \<longleftrightarrow> t \<in> live s \<and> state (thr s t) = THREAD_READY" using C(5) [of t] False by (simp add: r)
    with C(4) False rs' show ?thesis by (cases "t = tp s") (auto simp: st)
  qed
  have waits: "t \<in> set (waiting a c) \<longleftrightarrow> t \<in> live s \<and> state (h t) = THREAD_WAITING \<and> wait_cond (h t) = c" for t c
    using C(6) [of t c] n by (auto simp: st wc)
  have running: "t = n" if "t \<in> live s" "state (h t) = THREAD_RUNNING" for t
    using that C(7) [of t] by (auto simp: st split: if_splits)
  have states: "state (h t) \<notin> {THREAD_UNINITIALIZED, THREAD_STOPPED}" if "t \<in> live s" for t
    using C(8) [OF that] by (auto simp: st)
  have "placed ?s (a\<lparr>run := n, ready := rs'\<rparr>)"
    unfolding placed_def f keeps_live [OF k]
    by (simp add: f ready n st [of n]) (use waits running states in blast)
  moreover have "table ?s"
    by (rule keeps_table [OF k C(9)]) (use tableD(4,5) [OF C(9)] in \<open>auto simp: f st\<close>)
  ultimately show ?thesis using q by (simp add: sched_ok_def core_def f st)
qed

lemma suspend_self_running:
  assumes core: "core s a" and r: "ready a = n # rs" and st: "state (thr s (tp s)) = THREAD_RUNNING"
  shows "\<exists>l h. suspend_self s = Ret (after_switch (sie s) n l h s) \<and> same_threads (thr s) h \<and>
    (\<forall>t. thr_context (h t) = thr_context (thr s t)) \<and>
    sched_ok (after_switch (sie s) n l h s) (a\<lparr>run := n, ready := rs @ [tp s]\<rparr>)"
proof -
  note C = coreD [OF core]
  have n: "n \<in> live s" "state (thr s n) = THREAD_READY" using C(5) [of n] r by auto
  have t: "tp s \<noteq> 0" "tp s \<notin> set (n # rs)" using C(4) live_nonzero C(5) [of "tp s"] r st by auto
  define g where "g k = (k(n := (k n)\<lparr>state := THREAD_RUNNING\<rparr>))
    (tp s := (k (tp s))\<lparr>state := THREAD_READY\<rparr>)" for k :: tstore
  have gl: "list_next (g k x) = list_next (k x)" for k x by (simp add: g_def)
  obtain l1 h1 l2 h2 where 1: "tlremove (ready_list s) (thr s) = (n, l1, h1)" "relinked {n} (thr s) h1"
    and 2: "tlinsert l1 (tp s) (g h1) = Ret (l2, h2)" "tlist h2 l2 (rs @ [tp s])"
      "relinked (insert (tp s) (set rs)) (g h1) h2"
    using tq.turn [OF C(1) [unfolded r] t, of g] gl by blast
  note f = relinked_fields [OF 1(2)] relinked_fields [OF 2(3)]
  have same: "same_threads (thr s) h2"
    using t n st by (auto simp: same_threads_def f g_def)
  have "\<not> tlempty (ready_list s)" using C(1) r by (auto simp: tlempty_def tlist_def)
  then have "suspend_self s = Ret (after_switch (sie s) n l2 h2 s)"
    using t n st 1 2(1) swtch_resume [where h = h2 and n = n and saved = "sie s" and s = s and l = l2]
    by (simp add: suspend_self_def intr_disable_def Let_def set_thread_state_def ready_insert_def f g_def)
      (auto simp: f g_def)
  moreover have "thr_context (h2 x) = thr_context (thr s x)" for x by (simp add: f g_def)
  moreover have "sched_ok (after_switch (sie s) n l2 h2 s) (a\<lparr>run := n, ready := rs @ [tp s]\<rparr>)"
  proof (rule after_switch_ok [OF core r 2(2) same])
    show "state (h2 x) = (if x = n then THREAD_RUNNING else
      if x = tp s \<and> state (thr s x) = THREAD_RUNNING then THREAD_READY else state (thr s x))" for x
      using t st by (simp add: f g_def)
    show "wait_cond (h2 x) = wait_cond (thr s x)" for x by (simp add: f g_def)
    show "list_next (h2 x) = list_next (thr s x)" if "x \<in> set (waiting a c)" for c x
    proof -
      from that have w: "state (thr s x) = THREAD_WAITING" using C(6) by blast
      then have "x \<notin> insert (tp s) (set rs)" "x \<noteq> n" using C(5) [of x] r st n by auto
      then have "h2 x = g h1 x" "h1 x = thr s x" using 1(2) 2(3) by (auto simp: relinked_def)
      then show ?thesis by (simp add: gl)
    qed
  qed (use st in auto)
  ultimately show ?thesis using same by blast
qed

lemma suspend_self_blocked:
  assumes core: "core s a" and r: "ready a = n # rs" and st: "state (thr s (tp s)) \<in> {THREAD_WAITING, THREAD_EXITED}"
  shows "\<exists>l h. suspend_self s = Ret (after_switch (sie s) n l h s) \<and> same_threads (thr s) h \<and>
    (\<forall>t. thr_context (h t) = thr_context (thr s t)) \<and>
    sched_ok (after_switch (sie s) n l h s) (a\<lparr>run := n, ready := rs\<rparr>)"
proof -
  note C = coreD [OF core]
  have n: "n \<in> live s" "state (thr s n) = THREAD_READY" using C(5) [of n] r by auto
  have t: "tp s \<noteq> 0" "tp s \<notin> set (n # rs)" using C(4) live_nonzero C(5) [of "tp s"] r st by auto
  obtain l h1 where 1: "tlremove (ready_list s) (thr s) = (n, l, h1)" "tlist h1 l rs" "relinked {n} (thr s) h1"
    using tq.rem_rep [OF C(1) [unfolded r]] by blast
  note f = relinked_fields [OF 1(3)]
  define h where "h = h1(n := (h1 n)\<lparr>state := THREAD_RUNNING\<rparr>)"
  have same: "same_threads (thr s) h" using n by (auto simp: same_threads_def f h_def)
  have "\<not> tlempty (ready_list s)" using C(1) r by (auto simp: tlempty_def tlist_def)
  then have "suspend_self s = Ret (after_switch (sie s) n l h s)"
    using t n st 1 swtch_resume [where h = h and n = n and saved = "sie s" and s = s and l = l]
    by (auto simp: suspend_self_def intr_disable_def Let_def set_thread_state_def f h_def)
  moreover have "thr_context (h x) = thr_context (thr s x)" for x by (simp add: f h_def)
  moreover have "sched_ok (after_switch (sie s) n l h s) (a\<lparr>run := n, ready := rs\<rparr>)"
  proof (rule after_switch_ok [OF core r _ same])
    show "tlist h l rs" by (rule tq.rep_frame [OF 1(2)]) (simp add: h_def)
    show "state (h x) = (if x = n then THREAD_RUNNING else
      if x = tp s \<and> state (thr s x) = THREAD_RUNNING then THREAD_READY else state (thr s x))" for x
      using t st by (auto simp: f h_def)
    show "wait_cond (h x) = wait_cond (thr s x)" for x by (simp add: f h_def)
    show "list_next (h x) = list_next (thr s x)" if "x \<in> set (waiting a c)" for c x
    proof -
      from that have "state (thr s x) = THREAD_WAITING" using C(6) by blast
      with n have "x \<noteq> n" by auto
      then show ?thesis using 1(3) by (simp add: relinked_def h_def)
    qed
  qed (use st in auto)
  ultimately show ?thesis using same by blast
qed

lemma placedI:
  assumes "run a = tp s" and "tp s \<in> live s"
    and "\<And>t. t \<in> set (ready a) \<longleftrightarrow> t \<in> live s \<and> state (thr s t) = THREAD_READY"
    and "\<And>c t. t \<in> set (waiting a c) \<longleftrightarrow>
      t \<in> live s \<and> state (thr s t) = THREAD_WAITING \<and> wait_cond (thr s t) = c"
    and "\<And>t. t \<in> live s \<Longrightarrow> state (thr s t) = THREAD_RUNNING \<Longrightarrow> t = tp s"
    and "\<And>t. t \<in> live s \<Longrightarrow> state (thr s t) \<notin> {THREAD_UNINITIALIZED, THREAD_STOPPED}"
  shows "placed s a"
  using assms unfolding placed_def by blast

lemma idle_ready:
  assumes "sched_ok s a" and "tp s \<noteq> idle_thread s"
  shows "\<exists>n rs. ready a = n # rs"
proof -
  have c: "core s a" using assms(1) by (simp add: sched_ok_def)
  note T = tableD [OF coreD(9) [OF c]]
  have "state (thr s (idle_thread s)) = THREAD_READY" using T(3,5) coreD(7) [OF c T(3)] assms(2) by auto
  with T(3) coreD(5) [OF c, of "idle_thread s"] have "idle_thread s \<in> set (ready a)" by simp
  then show ?thesis by (cases "ready a") auto
qed

lemma thread_yield_step:
  assumes "sched_ok s a" and "ready a \<noteq> []"
  shows "\<exists>s'. thread_yield s = Ret s' \<and> sched_ok s' (a_yield a) \<and> keeps s s'"
proof -
  have c: "core s a" and st: "state (thr s (tp s)) = THREAD_RUNNING" using assms(1) by (auto simp: sched_ok_def)
  from assms(2) obtain n rs where r: "ready a = n # rs" by (cases "ready a") auto
  obtain l h where "suspend_self s = Ret (after_switch (sie s) n l h s)" "same_threads (thr s) h"
    "sched_ok (after_switch (sie s) n l h s) (a\<lparr>run := n, ready := rs @ [tp s]\<rparr>)"
    using suspend_self_running [OF c r st] by blast
  then show ?thesis
    using st r coreD(3) [OF c] after_switch_keeps by (simp add: thread_yield_def a_yield_def a_next_def)
qed

subsection \<open>Waiting\<close>

definition enqueue_self :: "u64 \<Rightarrow> thread_list \<Rightarrow> tstore \<Rightarrow> kstate \<Rightarrow> kstate" where
  "enqueue_self c l h s = s\<lparr>thr := h, cond := (cond s)(c := (cond s c)\<lparr>wait_list := l\<rparr>)\<rparr>"

lemma condition_wait_enqueue:
  assumes sched_ok: "sched_ok s a" and idle: "tp s \<noteq> idle_thread s"
  shows "\<exists>l h. condition_wait c s = suspend_self (enqueue_self c l h s) \<and> same_threads (thr s) h \<and>
    (\<forall>t. thr_context (h t) = thr_context (thr s t)) \<and> state (h (tp s)) = THREAD_WAITING \<and>
    core (enqueue_self c l h s) (a\<lparr>waiting := (waiting a)(c := waiting a c @ [tp s])\<rparr>)"
proof -
  have c: "core s a" and st: "state (thr s (tp s)) = THREAD_RUNNING" using sched_ok by (auto simp: sched_ok_def)
  note C = coreD [OF c]
  define h1 where "h1 = (thr s)(tp s := (thr s (tp s))
    \<lparr>state := THREAD_WAITING, wait_cond := c, list_next := 0\<rparr>)"
  have t: "tp s \<notin> set (waiting a d)" "tp s \<notin> set (ready a)" "tp s \<noteq> 0" for d
    using C(6) [of "tp s" d] C(5) [of "tp s"] C(4) st live_nonzero by auto
  have q1: "tlist h1 (wait_list (cond s d)) (waiting a d)" for d
    by (rule tq.rep_frame [OF C(2)]) (use t(1) [of d] in \<open>auto simp: h1_def\<close>)
  obtain l h where 1: "tlinsert (wait_list (cond s c)) (tp s) h1 = Ret (l, h)" "tlist h l (waiting a c @ [tp s])"
    "relinked (insert (tp s) (set (waiting a c))) h1 h"
    using tq.ins_rep [OF q1 t(3) t(1)] by blast
  note f = relinked_fields [OF 1(3)]
  let ?s = "enqueue_self c l h s" and ?a = "a\<lparr>waiting := (waiting a)(c := waiting a c @ [tp s])\<rparr>"
  have same: "same_threads (thr s) h" using st by (simp add: same_threads_def f h1_def)
  have k: "keeps s ?s" using same by (simp add: keeps_same enqueue_self_def)
  have "queues ?s ?a"
  proof -
    have "tlist h (ready_list s) (ready a)"
    proof (rule tq.rep_other [OF tq.rep_frame [OF C(1), of h1] 1(3)])
      show "insert (tp s) (set (waiting a c)) \<inter> set (ready a) = {}"
        using t C(5) C(6) [of _ c] by auto
    qed (use t in \<open>auto simp: h1_def\<close>)
    moreover have "tlist h (wait_list (cond s d)) (waiting a d)" if "d \<noteq> c" for d
      by (rule tq.rep_other [OF q1 1(3)]) (use that t C(6) [of _ c] C(6) [of _ d] in auto)
    ultimately show ?thesis using 1(2) by (simp add: queues_def enqueue_self_def)
  qed
  moreover have "placed ?s ?a"
  proof (rule placedI)
    have st': "state (thr ?s x) = (if x = tp s then THREAD_WAITING else state (thr s x))"
      "wait_cond (thr ?s x) = (if x = tp s then c else wait_cond (thr s x))" "live ?s = live s" "tp ?s = tp s" for x
      by (simp_all add: enqueue_self_def f h1_def live_def)
    fix x d
    show "run ?a = tp ?s" "tp ?s \<in> live ?s" using C(3,4) st' by simp_all
    show "x \<in> set (ready ?a) \<longleftrightarrow> x \<in> live ?s \<and> state (thr ?s x) = THREAD_READY"
      using C(5) [of x] st by (simp add: st')
    show "x \<in> set (waiting ?a d) \<longleftrightarrow>
        x \<in> live ?s \<and> state (thr ?s x) = THREAD_WAITING \<and> wait_cond (thr ?s x) = d"
      using C(6) [of x d] C(4) st by (auto simp: st')
    show "x = tp ?s" if "x \<in> live ?s" "state (thr ?s x) = THREAD_RUNNING"
      using that C(7) [of x] by (auto simp: st' split: if_splits)
    show "state (thr ?s x) \<notin> {THREAD_UNINITIALIZED, THREAD_STOPPED}" if "x \<in> live ?s"
      using that C(8) [of x] by (auto simp: st')
  qed
  moreover have "table ?s"
    by (rule keeps_table [OF k C(9)]) (use tableD(4,5) [OF C(9)] idle in \<open>auto simp: enqueue_self_def f h1_def\<close>)
  moreover have "condition_wait c s = suspend_self ?s"
    using st 1(1) by (simp add: condition_wait_def Let_def set_thread_state_def intr_disable_def
        intr_restore_def set_wait_list_def enqueue_self_def h1_def)
  ultimately show ?thesis using same
    by (intro exI [of _ l] exI [of _ h]) (simp add: core_def f h1_def)
qed

lemma condition_wait_step:
  assumes sched_ok: "sched_ok s a" and idle: "tp s \<noteq> idle_thread s"
  shows "\<exists>s'. condition_wait c s = Ret s' \<and> sched_ok s' (a_wait c a) \<and> keeps s s'"
proof -
  let ?a = "a\<lparr>waiting := (waiting a)(c := waiting a c @ [tp s])\<rparr>"
  obtain l h where 1: "condition_wait c s = suspend_self (enqueue_self c l h s)" "same_threads (thr s) h"
    "state (h (tp s)) = THREAD_WAITING" "core (enqueue_self c l h s) ?a"
    using condition_wait_enqueue [OF assms] by blast
  let ?s = "enqueue_self c l h s"
  obtain n rs where r: "ready a = n # rs" using idle_ready [OF assms] by blast
  have "tp ?s = tp s" "thr ?s = h" by (simp_all add: enqueue_self_def)
  with 1(3) r obtain l' h' where 2: "suspend_self ?s = Ret (after_switch (sie ?s) n l' h' ?s)"
    "same_threads (thr ?s) h'" "sched_ok (after_switch (sie ?s) n l' h' ?s) (?a\<lparr>run := n, ready := rs\<rparr>)"
    using suspend_self_blocked [OF 1(4), of n rs] by auto
  have "keeps s ?s" using 1(2) by (simp add: keeps_same enqueue_self_def)
  with 2 have "keeps s (after_switch (sie ?s) n l' h' ?s)" by (blast intro: keeps_trans after_switch_keeps)
  moreover have "a_wait c a = ?a\<lparr>run := n, ready := rs\<rparr>"
    using r coreD(3) [of s a] sched_ok by (simp add: a_wait_def a_next_def sched_ok_def)
  ultimately show ?thesis using 1(1) 2 by auto
qed

subsection \<open>Waking\<close>

definition woken :: "u64 list \<Rightarrow> tstore \<Rightarrow> tstore" where
  "woken xs h = (\<lambda>t. if t \<in> set xs then (h t)\<lparr>state := THREAD_READY, wait_cond := 0\<rparr> else h t)"

lemma broadcast_loop_Ret:
  assumes "chain (links h) p xs" and "length xs \<le> fuel"
    and "\<forall>t \<in> set xs. state (h t) = THREAD_WAITING \<and> wait_cond (h t) = c"
  shows "broadcast_loop fuel c p h = Ret (woken xs h)"
  using assms
proof (induction xs arbitrary: p fuel h)
  case Nil
  then show ?case by (simp add: broadcast_loop.simps [of fuel] woken_def)
next
  case (Cons x xs)
  then obtain f where fuel: "fuel = Suc f" by (cases fuel) auto
  define h1 where "h1 = h(x := (h x)\<lparr>state := THREAD_READY, wait_cond := 0\<rparr>)"
  have x: "p = x" "x \<noteq> 0" "x \<notin> set xs" using Cons.prems(1) chain_distinct [OF Cons.prems(1)] by auto
  have e: "links h1 = links h" by (auto simp: h1_def links_def)
  have "chain (links h1) (list_next (h1 x)) xs" unfolding e using Cons.prems(1) by (simp add: h1_def links_def)
  then have "broadcast_loop f c (list_next (h1 x)) h1 = Ret (woken xs h1)"
    by (rule Cons.IH) (use Cons.prems x fuel in \<open>auto simp: h1_def\<close>)
  moreover have "woken xs h1 = woken (x # xs) h" using x by (auto simp: woken_def h1_def)
  ultimately show ?case
    using Cons.prems(3) x by (simp add: fuel broadcast_loop.simps [of "Suc f"] h1_def Let_def)
qed

lemma live_card: "table s \<Longrightarrow> distinct xs \<Longrightarrow> set xs \<subseteq> live s \<Longrightarrow> length xs \<le> NTHR"
proof -
  assume "table s" "distinct xs" "set xs \<subseteq> live s"
  then have "card (set xs) \<le> card (set (thrtab s))" by (intro card_mono) (auto simp: live_def)
  also have "\<dots> \<le> NTHR" using card_length [of "thrtab s"] tableD(1) [OF \<open>table s\<close>] by simp
  finally show ?thesis using distinct_card [OF \<open>distinct xs\<close>] by simp
qed

lemma condition_broadcast_Ret:
  assumes c: "core s a"
  shows "\<exists>l h. condition_broadcast c s = Ret (s\<lparr>thr := h, ready_list := l,
      cond := (cond s)(c := (cond s c)\<lparr>wait_list := tlclear\<rparr>)\<rparr>) \<and>
    relinked (set (ready a)) (woken (waiting a c) (thr s)) h \<and> tlist h l (ready a @ waiting a c)"
proof -
  note C = coreD [OF c]
  have ch: "chain (links (thr s)) (head (wait_list (cond s c))) (waiting a c)"
    using C(2) [of c] by (simp add: tlist_def)
  show ?thesis
  proof (cases "waiting a c = []")
    case True
    have "wait_list (cond s c) = tlclear" using C(2) [of c] True by (simp add: tlist_def tlclear_def)
    moreover from this have "condition_broadcast c s = Ret s" by (simp add: condition_broadcast_def tlempty_def tlclear_def)
    moreover from calculation(1) have "(cond s)(c := (cond s c)\<lparr>wait_list := tlclear\<rparr>) = cond s"
      by (simp add: fun_upd_idem)
    moreover have "woken [] (thr s) = thr s" by (auto simp: woken_def)
    ultimately show ?thesis using True C(1)
      by (intro exI [of _ "ready_list s"] exI [of _ "thr s"]) (simp add: relinked_refl)
  next
    case False
    let ?h = "woken (waiting a c) (thr s)"
    have len: "length (waiting a c) \<le> NTHR"
      by (rule live_card [OF C(9) tq.rep_distinct [OF C(2)]]) (use C(6) in auto)
    have lo: "broadcast_loop NTHR c (head (wait_list (cond s c))) (thr s) = Ret ?h"
      by (rule broadcast_loop_Ret [OF ch len]) (use C(6) in auto)
    have q: "tlist ?h (ready_list s) (ready a)" "tlist ?h (wait_list (cond s c)) (waiting a c)"
      by (rule tq.rep_frame [OF C(1)], simp add: woken_def) (rule tq.rep_frame [OF C(2)], simp add: woken_def)
    obtain l l1 h where "tlappend (ready_list s) (wait_list (cond s c)) ?h = Ret (l, l1, h)"
      "tlist h l (ready a @ waiting a c)" "relinked (set (ready a)) ?h h"
      using tq.app_rep [OF q] C(5) C(6) [of _ c] by (auto simp: disjoint_iff)
    then show ?thesis using False chain_head [OF ch] lo
      by (intro exI [of _ l] exI [of _ h]) (simp add: condition_broadcast_def tlempty_def intr_disable_def intr_restore_def set_wait_list_def Let_def)
  qed
qed

lemma condition_broadcast_step:
  assumes c: "core s a"
  shows "\<exists>s'. condition_broadcast c s = Ret s' \<and> core s' (a_wake c a) \<and> keeps s s' \<and> tp s' = tp s \<and>
    state (thr s' (tp s)) = (if tp s \<in> set (waiting a c) then THREAD_READY else state (thr s (tp s)))"
proof -
  note C = coreD [OF c]
  obtain l h where 1: "condition_broadcast c s = Ret (s\<lparr>thr := h, ready_list := l,
      cond := (cond s)(c := (cond s c)\<lparr>wait_list := tlclear\<rparr>)\<rparr>)"
    "relinked (set (ready a)) (woken (waiting a c) (thr s)) h" "tlist h l (ready a @ waiting a c)"
    using condition_broadcast_Ret [OF c] by blast
  note f = relinked_fields [OF 1(2)]
  let ?s = "s\<lparr>thr := h, ready_list := l, cond := (cond s)(c := (cond s c)\<lparr>wait_list := tlclear\<rparr>)\<rparr>"
  have W: "t \<in> set (waiting a d) \<longleftrightarrow> t \<in> live s \<and> state (thr s t) = THREAD_WAITING \<and> wait_cond (thr s t) = d" for t d
    by (rule C(6))
  have k: "keeps s ?s" by (auto simp: keeps_same same_threads_def f woken_def W)
  have "queues ?s (a_wake c a)"
  proof -
    have "tlist h (wait_list (cond s d)) (waiting a d)" if "d \<noteq> c" for d
      by (rule tq.rep_other [OF tq.rep_frame [OF C(2)] 1(2)]) (use C(5) W that in \<open>auto simp: woken_def\<close>)
    then show ?thesis using 1(3) by (simp add: queues_def a_wake_def tlclear_def)
  qed
  moreover have "placed ?s (a_wake c a)"
  proof (rule placedI)
    have st': "state (h x) = (if x \<in> set (waiting a c) then THREAD_READY else state (thr s x))"
      "wait_cond (h x) = (if x \<in> set (waiting a c) then 0 else wait_cond (thr s x))"
      "live ?s = live s" "tp ?s = tp s" for x
      by (simp_all add: f woken_def live_def)
    fix x d
    show "run (a_wake c a) = tp ?s" "tp ?s \<in> live ?s" using C(3,4) st' by (simp_all add: a_wake_def)
    show "x \<in> set (ready (a_wake c a)) \<longleftrightarrow> x \<in> live ?s \<and> state (thr ?s x) = THREAD_READY"
      using C(5) [of x] W [of x c] by (auto simp: st' a_wake_def)
    show "x \<in> set (waiting (a_wake c a) d) \<longleftrightarrow>
        x \<in> live ?s \<and> state (thr ?s x) = THREAD_WAITING \<and> wait_cond (thr ?s x) = d"
      using W [of x d] W [of x c] by (auto simp: st' a_wake_def)
    show "x = tp ?s" if "x \<in> live ?s" "state (thr ?s x) = THREAD_RUNNING"
      using that C(7) [of x] by (auto simp: st' split: if_splits)
    show "state (thr ?s x) \<notin> {THREAD_UNINITIALIZED, THREAD_STOPPED}" if "x \<in> live ?s"
      using that C(8) [of x] by (auto simp: st')
  qed
  moreover have "table ?s"
    by (rule keeps_table [OF k C(9)]) (use tableD(4,5) [OF C(9)] in \<open>auto simp: f woken_def W\<close>)
  ultimately have "core ?s (a_wake c a)" by (simp add: core_def)
  then show ?thesis using 1(1) k by (simp add: f woken_def)
qed

subsection \<open>Exit\<close>

lemma live_parent:
  assumes "table s" and "t \<in> live s" and "t \<noteq> main_thread s"
  shows "parent (thr s t) \<in> live s"
proof -
  obtain i where i: "i < NTHR" "thrtab s ! i = t" "t \<noteq> 0"
    using assms(1,2) by (auto simp: live_def in_set_conv_nth table_def)
  moreover have "i \<noteq> MAIN_TID" using assms(1,3) i by (auto simp: table_def)
  ultimately show ?thesis using assms(1) by (auto simp: table_def)
qed

lemma exit_mark:
  assumes sched_ok: "sched_ok s a" and "tp s \<noteq> main_thread s" and "tp s \<noteq> idle_thread s"
  shows "core (set_thread_state (tp s) THREAD_EXITED s) a" and "keeps s (set_thread_state (tp s) THREAD_EXITED s)"
proof -
  let ?s = "set_thread_state (tp s) THREAD_EXITED s"
  have c: "core s a" and st: "state (thr s (tp s)) = THREAD_RUNNING" using sched_ok by (auto simp: sched_ok_def)
  note C = coreD [OF c]
  have f: "state (thr ?s x) = (if x = tp s then THREAD_EXITED else state (thr s x))"
    "wait_cond (thr ?s x) = wait_cond (thr s x)" "list_next (thr ?s x) = list_next (thr s x)"
    "live ?s = live s" "tp ?s = tp s" "ready_list ?s = ready_list s" "cond ?s = cond s" for x
    by (simp_all add: set_thread_state_def live_def)
  show k: "keeps s ?s" using st by (auto simp: keeps_same same_threads_def set_thread_state_def)
  have "queues ?s a"
    unfolding queues_def f using C(1,2) tq.rep_frame [of "thr s" _ _ "thr ?s"] f(3) by simp
  moreover have "placed ?s a"
  proof (rule placedI, unfold f(4,5))
    fix x d
    show "run a = tp s" "tp s \<in> live s" using C(3,4) .
    show "x \<in> set (ready a) \<longleftrightarrow> x \<in> live s \<and> state (thr ?s x) = THREAD_READY"
      using C(5) [of x] st by (simp add: f)
    show "x \<in> set (waiting a d) \<longleftrightarrow> x \<in> live s \<and> state (thr ?s x) = THREAD_WAITING \<and> wait_cond (thr ?s x) = d"
      using C(6) [of x d] st by (auto simp: f)
    show "x = tp s" if "x \<in> live s" "state (thr ?s x) = THREAD_RUNNING"
      using that C(7) [of x] by (auto simp: f split: if_splits)
    show "state (thr ?s x) \<notin> {THREAD_UNINITIALIZED, THREAD_STOPPED}" if "x \<in> live s"
      using that C(8) [of x] by (auto simp: f)
  qed
  moreover have "table ?s"
    by (rule keeps_table [OF k C(9)]) (use tableD(4,5) [OF C(9)] assms in \<open>auto simp: f\<close>)
  ultimately show "core ?s a" by (simp add: core_def)
qed

definition a_exit :: "u64 \<Rightarrow> sched \<Rightarrow> sched" where
  "a_exit c a = a_next (a_wake c a)"

lemma thread_exit_step:
  assumes sched_ok: "sched_ok s a" and m: "tp s \<noteq> main_thread s" and i: "tp s \<noteq> idle_thread s"
  shows "\<exists>s'. thread_exit s = Ret s' \<and> sched_ok s' (a_exit (child_exit (parent (thr s (tp s)))) a) \<and> keeps s s' \<and>
    state (thr s' (tp s)) = THREAD_EXITED"
proof -
  let ?s1 = "set_thread_state (tp s) THREAD_EXITED s" and ?c = "child_exit (parent (thr s (tp s)))"
  have core: "core s a" using sched_ok by (simp add: sched_ok_def)
  note c1 = exit_mark [OF assms]
  obtain s2 where 2: "condition_broadcast ?c ?s1 = Ret s2" "core s2 (a_wake ?c a)" "keeps ?s1 s2" "tp s2 = tp ?s1"
    using condition_broadcast_step [OF c1(1)] by blast
  have tp1: "tp ?s1 = tp s" "state (thr ?s1 (tp s)) = THREAD_EXITED" "parent (thr ?s1 (tp s)) = parent (thr s (tp s))"
    by (simp_all add: set_thread_state_def)
  then have e2: "state (thr s2 (tp s2)) = THREAD_EXITED" using 2 by (simp add: keeps_def)
  obtain n rs where r: "ready a = n # rs" using idle_ready [OF sched_ok i] by blast
  then have r2: "ready (a_wake ?c a) = n # (rs @ waiting a ?c)" by (simp add: a_wake_def)
  obtain l h where 3: "suspend_self s2 = Ret (after_switch (sie s2) n l h s2)" "same_threads (thr s2) h"
    "sched_ok (after_switch (sie s2) n l h s2) ((a_wake ?c a)\<lparr>run := n, ready := rs @ waiting a ?c\<rparr>)"
    using suspend_self_blocked [OF 2(2) r2] e2 by auto
  have k: "keeps s (after_switch (sie s2) n l h s2)"
    using c1(2) 2(3) after_switch_keeps [OF 3(2)] keeps_trans by blast
  have e: "state (thr (after_switch (sie s2) n l h s2) (tp s)) = THREAD_EXITED"
    using after_switch_keeps [OF 3(2), of "sie s2" n l] e2 2(4) tp1(1) by (simp add: keeps_def)
  have "parent (thr s (tp s)) \<noteq> 0"
    using live_parent [OF coreD(9) [OF core] coreD(4) [OF core] m] live_nonzero by blast
  then have "thread_exit s = Ret (after_switch (sie s2) n l h s2)"
    using m tp1 2(1) 3(1) by (simp add: thread_exit_def Let_def)
  moreover have "a_exit ?c a = (a_wake ?c a)\<lparr>run := n, ready := rs @ waiting a ?c\<rparr>"
    using r2 by (simp add: a_exit_def a_next_def)
  ultimately show ?thesis using k e 3(3) by simp
qed

subsection \<open>Recycling\<close>

lemma table_inj:
  "table s \<Longrightarrow> i < NTHR \<Longrightarrow> j < NTHR \<Longrightarrow> thrtab s ! i = thrtab s ! j \<Longrightarrow> thrtab s ! i \<noteq> 0 \<Longrightarrow> i = j"
  unfolding table_def by (metis of_nat_eq_iff)

lemma reparent_eq:
  assumes "parent (h t) \<noteq> t" and "t \<noteq> 0"
  shows "reparent t tab h = (\<lambda>c. if c \<in> set tab \<and> c \<noteq> 0 \<and> parent (h c) = t then (h c)\<lparr>parent := parent (h t)\<rparr> else h c)"
  unfolding reparent_def using assms
proof (induction tab arbitrary: h)
  case (Cons x tab)
  define h1 where "h1 = (if x \<noteq> 0 \<and> parent (h x) = t then h(x := (h x)\<lparr>parent := parent (h t)\<rparr>) else h)"
  have p: "parent (h1 t) = parent (h t)" using Cons.prems by (auto simp: h1_def)
  show ?case
    using Cons.IH [of h1] Cons.prems p unfolding h1_def [symmetric] fold_Cons comp_apply
    by (auto simp: h1_def)
qed auto

lemma recycle_thread_step:
  assumes sched_ok: "sched_ok s a" and tid: "0 < tid" "tid < int NTHR" and t: "thrtab s ! nat tid = t" "t \<noteq> 0"
    and ex: "state (thr s t) = THREAD_EXITED" and p: "parent (thr s t) = tp s"
  shows "\<exists>s'. recycle_thread tid s = Ret s' \<and> sched_ok s' a \<and> live s' = live s - {t} \<and> mem s' = mem s \<and>
    thrtab s' = (thrtab s)[nat tid := 0]"
proof -
  have c: "core s a" and st: "state (thr s (tp s)) = THREAD_RUNNING" using sched_ok by (auto simp: sched_ok_def)
  note C = coreD [OF c] and T = tableD [OF coreD(9) [OF c]]
  have ne: "tp s \<noteq> t" "main_thread s \<noteq> t" "idle_thread s \<noteq> t" using st ex T(4,5) by auto
  define h where "h = reparent t (drop 1 (thrtab s)) (thr s)"
  have h: "h = (\<lambda>c. if c \<in> set (drop 1 (thrtab s)) \<and> c \<noteq> 0 \<and> parent (thr s c) = t
      then (thr s c)\<lparr>parent := tp s\<rparr> else thr s c)"
    unfolding h_def by (subst reparent_eq) (use p ne t in auto)
  define s' where "s' = s\<lparr>thr := h, thrtab := (thrtab s)[nat tid := 0]\<rparr>"
  have f: "state (h x) = state (thr s x)" "wait_cond (h x) = wait_cond (thr s x)"
    "list_next (h x) = list_next (thr s x)" "thr_id (h x) = thr_id (thr s x)" for x by (simp_all add: h)
  have n: "nat tid < NTHR" "nat tid \<noteq> 0" using tid by auto
  have lv: "live s' = live s - {t}"
  proof -
    have "set ((thrtab s)[nat tid := 0]) = insert 0 (set (thrtab s) - {t})"
      unfolding t(1) [symmetric]
    proof (rule set_update_unique)
      show "nat tid < length (thrtab s)" using n T(1) by simp
      show "i = nat tid" if "i < length (thrtab s)" "thrtab s ! i = thrtab s ! nat tid" for i
        by (rule table_inj [OF C(9)]) (use that n T(1) t in simp_all)
    qed
    then show ?thesis by (auto simp: live_def s'_def)
  qed
  have "recycle_thread tid s = Ret s'"
    using tid t ex by (simp add: recycle_thread_def thrtab_get_def kfree_def s'_def h_def Let_def)
  moreover have "queues s' a"
    using C(1,2) tq.rep_frame [of "thr s" _ _ h] f(3) by (simp add: queues_def s'_def)
  moreover have "placed s' a"
  proof (rule placedI, unfold lv)
    fix x d
    show "run a = tp s'" "tp s' \<in> live s - {t}" using C(3,4) ne by (simp_all add: s'_def)
    show "x \<in> set (ready a) \<longleftrightarrow> x \<in> live s - {t} \<and> state (thr s' x) = THREAD_READY"
      using C(5) [of x] ex by (auto simp: s'_def f)
    show "x \<in> set (waiting a d) \<longleftrightarrow> x \<in> live s - {t} \<and> state (thr s' x) = THREAD_WAITING \<and> wait_cond (thr s' x) = d"
      using C(6) [of x d] ex by (auto simp: s'_def f)
    show "x = tp s'" if "x \<in> live s - {t}" "state (thr s' x) = THREAD_RUNNING"
      using that C(7) [of x] by (auto simp: s'_def f)
    show "state (thr s' x) \<notin> {THREAD_UNINITIALIZED, THREAD_STOPPED}" if "x \<in> live s - {t}"
      using that C(8) [of x] by (auto simp: s'_def f)
  qed
  moreover have "table s'"
  proof -
    have par: "parent (h (thrtab s ! i)) \<in> live s - {t}"
      if i: "i < NTHR" "thrtab s ! i \<noteq> 0" "i \<noteq> MAIN_TID" "i \<noteq> nat tid" for i
    proof (cases "parent (thr s (thrtab s ! i)) = t")
      case True
      have "thrtab s ! i \<in> set (drop 1 (thrtab s))"
        using i(1,3) T(1) by (auto simp: in_set_conv_nth MAIN_TID_def intro!: exI [of _ "i - 1"])
      with True i(2) C(4) ne show ?thesis by (simp add: h)
    next
      case False
      then show ?thesis using C(9) i by (auto simp: h table_def)
    qed
    have "nat tid \<noteq> IDLE_TID" using C(9) t ne by (auto simp: table_def)
    then show ?thesis using C(9) n par unfolding table_def lv
      by (simp add: s'_def f nth_list_update MAIN_TID_def)
  qed
  ultimately show ?thesis using st lv by (simp add: sched_ok_def core_def s'_def f)
qed

subsection \<open>Spawning\<close>

text \<open>
  \<open>mem_ok s ps used\<close>: the heap and the free pages \<open>ps\<close> do not overlap the memory in use, which contains
  every \<open>struct thread\<close> in the thread table.
\<close>

definition mem_ok :: "kstate \<Rightarrow> u64 list \<Rightarrow> nat set \<Rightarrow> bool" where
  "mem_ok s ps used \<longleftrightarrow> heap_inv (mem s) ps used \<and> 0 \<in> used \<and> (\<forall>t \<in> live s. bytes t 200 \<subseteq> used)"

lemma free_slot_eq: "free_slot ts i = i + length (takeWhile (\<lambda>t. t \<noteq> 0) ts)"
  by (induction ts i rule: free_slot.induct) auto

lemma free_slot_less:
  assumes "length ts = Suc n" and "free_slot (drop 1 ts) 1 \<noteq> Suc n"
  shows "free_slot (drop 1 ts) 1 < Suc n" "ts ! free_slot (drop 1 ts) 1 = 0" "0 < free_slot (drop 1 ts) 1"
proof -
  let ?k = "length (takeWhile (\<lambda>t. t \<noteq> 0) (drop 1 ts))"
  have k: "?k < length (drop 1 ts)"
    using assms length_takeWhile_le [of "\<lambda>t. t \<noteq> 0" "drop 1 ts"] by (simp add: free_slot_eq)
  then have "drop 1 ts ! ?k = 0" using nth_length_takeWhile [of "\<lambda>t. t \<noteq> 0" "drop 1 ts"] by simp
  with k assms(1) show "free_slot (drop 1 ts) 1 < Suc n" "ts ! free_slot (drop 1 ts) 1 = 0"
    "0 < free_slot (drop 1 ts) 1" by (auto simp: free_slot_eq)
qed

lemma anchor_in_ram:
  assumes "page_ok p"
  shows "in_ram (p + PAGE_SIZE - 16)" "in_ram (p + PAGE_SIZE - 16 + 8)"
    "unat (p + PAGE_SIZE - 16) = unat p + 4080" "unat (p + PAGE_SIZE - 16 + 8) = unat p + 4088"
proof -
  have b: "unat p + 4096 \<le> 0x80800000" "0x80000000 \<le> unat p"
    using page_ok_bound [OF assms] assms
    by (auto simp: page_ok_def in_ram_def RAM_START_def word_le_nat_alt)
  have e: "p + PAGE_SIZE - 16 = p + 4080" "p + 4080 + 8 = p + 4088" by (simp_all add: PAGE_SIZE_def)
  have u: "unat (p + 4080) = unat p + 4080" "unat (p + 4088) = unat p + 4088"
    using b(1) by (auto intro!: unat_add_small [THEN trans])
  show "unat (p + PAGE_SIZE - 16) = unat p + 4080" "unat (p + PAGE_SIZE - 16 + 8) = unat p + 4088"
    unfolding e by (rule u)+
  show "in_ram (p + PAGE_SIZE - 16)" "in_ram (p + PAGE_SIZE - 16 + 8)"
    unfolding e using u b by (simp_all add: in_ram_def RAM_START_def RAM_END_def RAM_SIZE_def word_le_nat_alt
        word_less_nat_alt)
qed

lemma heap_inv_store:
  assumes "heap_inv m ps used" and "a \<notin> set ps"
  shows "heap_inv (m\<lparr>pmem := (pmem m)(a := v)\<rparr>) ps used"
  using assms by (auto simp: heap_inv_def pool_def heap_block_def)

lemma new_stack_Ret:
  assumes inv: "heap_inv m (p # ps) used"
  shows "\<exists>m'. new_stack child m = Ret (p, p + PAGE_SIZE - 16, m') \<and> heap_inv m' ps (used \<union> bytes p 4096) \<and>
    pmem m' = (pmem m)(p + PAGE_SIZE - 16 := child, p + PAGE_SIZE - 16 + 8 := 0)"
proof -
  let ?a = "p + PAGE_SIZE - 16" and ?m = "m\<lparr>free_list := pmem m p\<rparr>"
  have po: "pool m (p # ps)" using inv by (simp add: heap_inv_def)
  have p: "page_ok p" "p \<notin> set ps" using pa.free_ok [OF po] pa.free_distinct [OF po] by auto
  have al: "memory_alloc_page m = Ret (p, ?m)" "pool ?m ps" using memory_alloc_page_Cons [OF po] by auto
  note a = anchor_in_ram [OF p(1)]
  have ne: "?a \<notin> set ps" "?a + 8 \<notin> set ps"
  proof -
    have "unat p mod 4096 = 0" using p(1) by (simp add: page_ok_def)
    then have "(unat p + 4080) mod 4096 \<noteq> 0" "(unat p + 4088) mod 4096 \<noteq> 0" by (simp_all add: mod_add_eq [symmetric])
    then have "\<not> page_ok ?a" "\<not> page_ok (?a + 8)" unfolding page_ok_def a(3,4) by blast+
    then show "?a \<notin> set ps" "?a + 8 \<notin> set ps" using pa.free_ok [OF po] by auto
  qed
  have "heap_inv ?m ps (used \<union> bytes p 4096)"
    by (rule heap_inv_take [OF inv al(2) p]) simp_all
  then have "heap_inv (?m\<lparr>pmem := (pmem m)(?a := child, ?a + 8 := 0)\<rparr>) ps (used \<union> bytes p 4096)"
    using heap_inv_store [OF heap_inv_store [OF _ ne(1)] ne(2), of ?m "used \<union> bytes p 4096" child 0] by simp
  then show ?thesis using al(1) a(1,2)
    by (intro exI [of _ "?m\<lparr>pmem := (pmem m)(?a := child, ?a + 8 := 0)\<rparr>"])
      (simp add: new_stack_def store_def Let_def)
qed

definition spawned :: "nat \<Rightarrow> u64 \<Rightarrow> string \<Rightarrow> u64 \<Rightarrow> u64 \<Rightarrow> kstate \<Rightarrow> thread" where
  "spawned tid child name anchor page s = (thr s child)
     \<lparr>thr_id := int tid, thr_name := name, parent := tp s, proc := proc (thr s (tp s)),
      stack_base := anchor, stack_size := anchor - page, state := THREAD_READY\<rparr>"

lemma set_slot:
  assumes "tid < length tab" and "tab ! tid = 0" and "child \<noteq> (0 :: u64)"
  shows "set (tab[tid := child]) - {0} = insert child (set tab - {0})"
proof (rule set_eqI)
  fix x
  show "x \<in> set (tab[tid := child]) - {0} \<longleftrightarrow> x \<in> insert child (set tab - {0})"
    using assms set_update_subset_insert [of tab tid child]
    by (auto simp: set_update_memI) (metis in_set_conv_nth length_list_update nth_list_update_neq)
qed

text \<open>A new thread behind the others in the run queue keeps the invariant.\<close>

lemma spawn_ok:
  assumes sched_ok: "sched_ok s a" and tid: "0 < tid" "tid < NTHR" "thrtab s ! tid = 0" and child: "child \<noteq> 0" "child \<notin> live s"
    and t: "thr_id t = int tid" "parent t = tp s" "state t = THREAD_READY"
    and s1: "s1 = s\<lparr>mem := m, cond := cs, thrtab := (thrtab s)[tid := child], thr := (thr s)(child := t)\<rparr>"
    and cs: "\<And>c. wait_list (cs c) = wait_list (cond s c)"
  shows "\<exists>l h. tlinsert (ready_list s) child (thr s1) = Ret (l, h) \<and> relinked (insert child (set (ready a))) (thr s1) h \<and>
    sched_ok (s1\<lparr>ready_list := l, thr := h\<rparr>) (a_spawn child a) \<and> live (s1\<lparr>ready_list := l, thr := h\<rparr>) = insert child (live s)"
proof -
  have c: "core s a" and st: "state (thr s (tp s)) = THREAD_RUNNING" using sched_ok by (auto simp: sched_ok_def)
  note C = coreD [OF c] and T = tableD [OF coreD(9) [OF c]]
  have nr: "child \<notin> set (ready a)" "child \<notin> set (waiting a d)" for d using C(5,6) child by auto
  have th1: "thr s1 = (thr s)(child := t)" by (simp add: s1)
  have q: "tlist (thr s1) (ready_list s) (ready a)"
    by (rule tq.rep_frame [OF C(1)]) (use nr in \<open>auto simp: th1\<close>)
  obtain l h where 1: "tlinsert (ready_list s) child (thr s1) = Ret (l, h)" "tlist h l (ready a @ [child])"
    "relinked (insert child (set (ready a))) (thr s1) h"
    using tq.ins_rep [OF q child(1) nr(1)] by blast
  note f = relinked_fields [OF 1(3)]
  let ?s = "s1\<lparr>ready_list := l, thr := h\<rparr>"
  have h: "state (h x) = (if x = child then THREAD_READY else state (thr s x))"
    "wait_cond (h x) = (if x = child then wait_cond t else wait_cond (thr s x))"
    "thr_id (h x) = (if x = child then int tid else thr_id (thr s x))"
    "parent (h x) = (if x = child then tp s else parent (thr s x))" for x by (simp_all add: f th1 t)
  have tl: "tid < length (thrtab s)" using tid T(1) by simp
  have lv: "live ?s = insert child (live s)" using set_slot [OF tl tid(3) child(1)] by (simp add: live_def s1)
  have "queues ?s (a_spawn child a)"
  proof -
    have "tlist h (wait_list (cond s d)) (waiting a d)" for d
      by (rule tq.rep_other [OF tq.rep_frame [OF C(2)] 1(3)])
        (use nr(2) [of d] C(5) C(6) [of _ d] in \<open>auto simp: th1\<close>)
    then show ?thesis using 1(2) by (simp add: queues_def a_spawn_def s1 cs)
  qed
  moreover have "placed ?s (a_spawn child a)"
  proof (rule placedI, unfold lv)
    fix x d
    show "run (a_spawn child a) = tp ?s" "tp ?s \<in> insert child (live s)" using C(3,4) by (simp_all add: s1 a_spawn_def)
    show "x \<in> set (ready (a_spawn child a)) \<longleftrightarrow> x \<in> insert child (live s) \<and> state (thr ?s x) = THREAD_READY"
      using C(5) [of x] by (auto simp: h a_spawn_def)
    show "x \<in> set (waiting (a_spawn child a) d) \<longleftrightarrow>
        x \<in> insert child (live s) \<and> state (thr ?s x) = THREAD_WAITING \<and> wait_cond (thr ?s x) = d"
      using C(6) [of x d] nr(2) [of d] by (auto simp: h a_spawn_def)
    show "x = tp ?s" if "x \<in> insert child (live s)" "state (thr ?s x) = THREAD_RUNNING"
      using that C(7) [of x] by (auto simp: s1 h split: if_splits)
    show "state (thr ?s x) \<notin> {THREAD_UNINITIALIZED, THREAD_STOPPED}" if "x \<in> insert child (live s)"
      using that C(8) [of x] by (auto simp: h)
  qed
  moreover have "table ?s"
  proof -
    have ne: "main_thread s \<noteq> child" "idle_thread s \<noteq> child" using T(2,3) child by auto
    have ti: "tid \<noteq> IDLE_TID" using C(9) tid(3) by (auto simp: table_def)
    have lc: "thrtab s ! i \<noteq> child" if "i < NTHR" for i
      using child that T(1) by (auto simp: live_def)
    have "thr_id (h ((thrtab s)[tid := child] ! i)) = int i \<and>
        (i \<noteq> MAIN_TID \<longrightarrow> parent (h ((thrtab s)[tid := child] ! i)) \<in> insert child (live s))"
      if i: "i < NTHR" "(thrtab s)[tid := child] ! i \<noteq> 0" for i
    proof (cases "i = tid")
      case True
      with tl C(4) show ?thesis by (simp add: h)
    next
      case False
      with i C(9) lc [OF i(1)] show ?thesis by (auto simp: h table_def)
    qed
    then show ?thesis using C(9) ne ti tid(1) T(4,5) unfolding table_def lv
      by (simp add: s1 h MAIN_TID_def)
  qed
  moreover have "state (thr ?s (tp ?s)) = THREAD_RUNNING" using C(4) child st by (auto simp: h s1)
  ultimately have "sched_ok ?s (a_spawn child a)" by (simp add: sched_ok_def core_def)
  with 1(1,3) lv show ?thesis by blast
qed

subsection \<open>Forking\<close>

text \<open>A fork puts the parent behind the ready threads and runs the child at once.\<close>

definition a_fork :: "u64 \<Rightarrow> sched \<Rightarrow> sched" where
  "a_fork child a = a\<lparr>run := child, ready := ready a @ [run a]\<rparr>"

lemma fork_ok:
  assumes sched_ok: "sched_ok s a" and tid: "0 < tid" "tid < NTHR" "thrtab s ! tid = 0" and child: "child \<noteq> 0" "child \<notin> live s"
    and ni: "tp s \<noteq> idle_thread s"
    and h1: "\<And>x. x \<noteq> child \<Longrightarrow> h1 x = thr s x"
    and ins: "tlinsert (ready_list s) (tp s) h1 = Ret (l, h)"
    and th: "\<And>x. list_next (thr s' x) = list_next (h x)"
      "\<And>x. state (thr s' x) = (if x = child then THREAD_RUNNING else if x = tp s then THREAD_READY else state (h x))"
      "\<And>x. wait_cond (thr s' x) = wait_cond (h x)" "\<And>x. thr_id (thr s' x) = thr_id (h x)"
      "\<And>x. parent (thr s' x) = parent (h x)"
    and t: "thr_id (h1 child) = int tid" "parent (h1 child) = tp s"
    and s': "thrtab s' = (thrtab s)[tid := child]" "tp s' = child" "main_thread s' = main_thread s"
      "idle_thread s' = idle_thread s" "ready_list s' = l"
    and cs: "\<And>c. wait_list (cond s' c) = wait_list (cond s c)"
  shows "sched_ok s' (a_fork child a)" and "live s' = insert child (live s)"
proof -
  have c: "core s a" and st: "state (thr s (tp s)) = THREAD_RUNNING" using sched_ok by (auto simp: sched_ok_def)
  note C = coreD [OF c] and T = tableD [OF coreD(9) [OF c]]
  have nr: "child \<notin> set (ready a)" "child \<notin> set (waiting a d)" "tp s \<notin> set (ready a)" "tp s \<notin> set (waiting a d)" for d
    using C(5,6) child st by auto
  have ct: "child \<noteq> tp s" "tp s \<noteq> 0" using child C(4) by (auto simp: live_def)
  have q: "tlist h1 (ready_list s) (ready a)"
    by (rule tq.rep_frame [OF C(1)]) (metis h1 nr(1))
  have 1: "tlist h l (ready a @ [tp s])" "relinked (insert (tp s) (set (ready a))) h1 h"
    using tq.ins_rep [OF q ct(2) nr(3)] ins by auto
  note f = relinked_fields [OF 1(2)]
  have tl: "tid < length (thrtab s)" using tid T(1) by simp
  show lv: "live s' = insert child (live s)" using set_slot [OF tl tid(3) child(1)] by (simp add: live_def s')
  have rep: "tlist (thr s') k xs" if "tlist h k xs" for k xs by (rule tq.rep_frame [OF that]) (simp add: th(1))
  have st': "state (thr s' x) = (if x = child then THREAD_RUNNING else if x = tp s then THREAD_READY else state (thr s x))" for x
    using f(7) [of x] h1 [of x] by (simp add: th(2))
  have wc: "wait_cond (thr s' x) = wait_cond (thr s x)" if "x \<noteq> child" for x using that f(8) [of x] h1 [of x] by (simp add: th(3))
  have "queues s' (a_fork child a)"
  proof -
    have "tlist h (wait_list (cond s d)) (waiting a d)" for d
    proof (rule tq.rep_other [OF tq.rep_frame [OF C(2)] 1(2)])
      show "\<forall>x \<in> set (waiting a d). list_next (h1 x) = list_next (thr s x)" by (metis h1 nr(2))
    qed (use nr(4) [of d] C(5) C(6) [of _ d] in auto)
    then show ?thesis using rep 1(1) C(3) by (simp add: queues_def a_fork_def s' cs)
  qed
  moreover have "placed s' (a_fork child a)"
  proof (rule placedI, unfold lv)
    fix x d
    show "run (a_fork child a) = tp s'" "tp s' \<in> insert child (live s)" by (simp_all add: a_fork_def s')
    show "x \<in> set (ready (a_fork child a)) \<longleftrightarrow> x \<in> insert child (live s) \<and> state (thr s' x) = THREAD_READY"
      using C(3,4) C(5) [of x] nr(1) ct by (auto simp: st' a_fork_def)
    show "x \<in> set (waiting (a_fork child a) d) \<longleftrightarrow>
        x \<in> insert child (live s) \<and> state (thr s' x) = THREAD_WAITING \<and> wait_cond (thr s' x) = d"
      using C(6) [of x d] nr(2,4) [of d] wc [of x] st by (auto simp: st' a_fork_def)
    show "x = tp s'" if "x \<in> insert child (live s)" "state (thr s' x) = THREAD_RUNNING"
      using that C(7) [of x] by (auto simp: s' st' split: if_splits)
    show "state (thr s' x) \<notin> {THREAD_UNINITIALIZED, THREAD_STOPPED}" if "x \<in> insert child (live s)"
      using that C(8) [of x] by (auto simp: st')
  qed
  moreover have "table s'"
  proof -
    have ne: "main_thread s \<noteq> child" "idle_thread s \<noteq> child" using T(2,3) child by auto
    have ti: "tid \<noteq> IDLE_TID" using C(9) tid(3) by (auto simp: table_def)
    have lc: "thrtab s ! i \<noteq> child" if "i < NTHR" for i using child that T(1) by (auto simp: live_def)
    have "thr_id (thr s' ((thrtab s)[tid := child] ! i)) = int i \<and>
        (i \<noteq> MAIN_TID \<longrightarrow> parent (thr s' ((thrtab s)[tid := child] ! i)) \<in> insert child (live s))"
      if i: "i < NTHR" "(thrtab s)[tid := child] ! i \<noteq> 0" for i
    proof (cases "i = tid")
      case True
      with tl C(4) t show ?thesis by (simp add: th f)
    next
      case False
      with i C(9) lc [OF i(1)] h1 show ?thesis by (auto simp: th f table_def)
    qed
    then show ?thesis using C(9) ne ti tid(1) T(4,5) ni unfolding table_def lv by (simp add: s' st' MAIN_TID_def)
  qed
  ultimately show "sched_ok s' (a_fork child a)" by (simp add: sched_ok_def core_def s' st')
qed

end
