(* ===== verification/Kernel.thy ===== *)
theory Kernel
  imports Scheduler
begin

text \<open>
  The thread operations as a transition system, its invariant, start-up, and the properties of threads.
\<close>

lemma sched_ok_setup:
  assumes "sched_ok s a"
  shows "sched_ok (thread_setup t sp start args s) a" and "live (thread_setup t sp start args s) = live s"
proof -
  let ?s = "thread_setup t sp start args s"
  have f: "state (thr ?s x) = state (thr s x)" "wait_cond (thr ?s x) = wait_cond (thr s x)"
    "list_next (thr ?s x) = list_next (thr s x)" "thr_id (thr ?s x) = thr_id (thr s x)"
    "parent (thr ?s x) = parent (thr s x)" for x by (simp_all add: thread_setup_def Let_def)
  have g: "tp ?s = tp s" "thrtab ?s = thrtab s" "ready_list ?s = ready_list s" "cond ?s = cond s"
    "main_thread ?s = main_thread s" "idle_thread ?s = idle_thread s"
    by (simp_all add: thread_setup_def Let_def)
  show lv: "live ?s = live s" by (simp add: live_def g)
  have "tlist (thr ?s) l xs = tlist (thr s) l xs" for l xs
    using tq.rep_frame [of "thr s" l xs "thr ?s"] tq.rep_frame [of "thr ?s" l xs "thr s"] f(3) by auto
  then show "sched_ok ?s a" using assms by (simp add: sched_ok_def core_def queues_def placed_def table_def f g lv)
qed

lemma sched_ok_regs: "sched_ok (s\<lparr>sp_reg := sp, s_regs := rs, sie := b\<rparr>) a = sched_ok s a"
  by (simp add: sched_ok_def core_def queues_def placed_def table_def live_def)

lemma kmalloc_block_Ret:
  assumes "heap_inv s ps used" and "unat sz \<le> 4096" and "kmalloc sz s = Ret (p, s')"
  shows "\<exists>ps'. bytes p (unat sz) \<inter> used = {} \<and> heap_inv s' ps' (used \<union> bytes p (unat sz)) \<and> pmem s' = pmem s"
proof (cases "ps \<noteq> [] \<or> (unat sz + 15) div 16 * 16 \<le> unat (heap_end s) - unat (heap_start s)")
  case True
  then show ?thesis using kmalloc_block [OF assms(1,2)] assms(3) by auto
next
  case False
  have hle: "heap_start s \<le> heap_end s" and po: "pool s ps" using assms(1) by (auto simp: heap_inv_def)
  have "\<not> (sz + 16 - 1) div 16 * 16 \<le> heap_end s - heap_start s"
    using False unat_round16 [OF assms(2)] by (simp add: word_le_nat_alt unat_sub_small [OF hle])
  moreover obtain msg where "memory_alloc_page s = Panic msg" using False po pa.alloc_Nil by blast
  ultimately show ?thesis using assms(3) by (simp add: kmalloc_def Let_def split: if_splits)
qed

lemma bytes_self: "0 < n \<Longrightarrow> unat p \<in> bytes p n"
  by (simp add: bytes_def)

text \<open>
  The member \<open>child_exit\<close> of a new thread is an empty condition if its memory happens to hold null pointers, and if no
  thread waits on a condition at that address.
\<close>

definition fresh_cond :: "condition \<Rightarrow> u64 \<Rightarrow> kstate \<Rightarrow> bool" where
  "fresh_cond junk t s \<longleftrightarrow> wait_list junk = tlclear \<and> wait_list (cond s (child_exit t)) = tlclear"

lemma tlist_Nil: "tlist h l [] \<longleftrightarrow> l = tlclear"
  by (cases l) (auto simp: tlist_def tlclear_def)

lemma fresh_cond_wait_list:
  "fresh_cond junk t s \<Longrightarrow> wait_list (((cond s)(child_exit t := junk)) c) = wait_list (cond s c)"
  by (simp add: fresh_cond_def)

text \<open>
  \<open>thread_spawn\<close> keeps the invariants of the scheduler and of the memory, and the new thread goes to the end of
  the run queue.
\<close>

lemma thread_spawn_step:
  assumes sched_ok: "sched_ok s a" and ok: "mem_ok s ps used" and sp: "thread_spawn junk name start arg s = Ret (tid, s')"
    and fresh: "fresh_cond junk (thrtab s' ! nat tid) s"
  shows "\<exists>child ps' used'. sched_ok s' (a_spawn child a) \<and> mem_ok s' ps' used' \<and> child \<notin> live s \<and>
    0 < tid \<and> tid < int IDLE_TID \<and> thrtab s ! nat tid = 0 \<and> thrtab s' = (thrtab s)[nat tid := child] \<and>
    parent (thr s' child) = tp s \<and> ctx_ra (thr_context (thr s' child)) = Glue"
proof -
  have T: "length (thrtab s) = NTHR" and tab: "table s" using sched_ok by (auto simp: sched_ok_def core_def table_def)
  define k where "k = free_slot (drop (Suc 0) (thrtab s)) (Suc 0)"
  obtain child m1 page anchor m2 l h where k: "k \<noteq> NTHR" and
    km: "kmalloc sizeof_thread (mem s) = Ret (child, m1)" and ns: "new_stack child m1 = Ret (page, anchor, m2)"
    and ins: "tlinsert (ready_list s) child ((thr s)(child := spawned k child name anchor page s)) = Ret (l, h)"
    and s': "tid = int k" "s' = thread_setup child (stack_base (h child)) start [arg]
      (s\<lparr>mem := m2, cond := (cond s)(child_exit child := junk), thrtab := (thrtab s)[k := child], ready_list := l, thr := h\<rparr>)"
    using sp unfolding thread_spawn_def
    by (auto simp: Let_def k_def [symmetric] intr_disable_def intr_restore_def set_thread_state_def spawned_def
        ready_insert_def split: if_splits)
  have k': "k < NTHR" "thrtab s ! k = 0" "0 < k"
    using free_slot_less [of "thrtab s" 15] T k by (simp_all add: k_def NTHR_def)
  have "k \<noteq> IDLE_TID" using tab k'(2) by (auto simp: table_def)
  then have ki: "k < IDLE_TID" using k'(1) by (simp add: IDLE_TID_def)
  have inv: "heap_inv (mem s) ps used" using ok by (simp add: mem_ok_def)
  obtain ps1 where 1: "bytes child 200 \<inter> used = {}" "heap_inv m1 ps1 (used \<union> bytes child 200)"
    using kmalloc_block_Ret [OF inv _ km] by (auto simp: sizeof_thread_def)
  have po: "pool m1 ps1" using 1(2) by (simp add: heap_inv_def)
  have "ps1 \<noteq> []" using ns pa.alloc_Nil [of m1] po by (auto simp: new_stack_def)
  then obtain p qs where ps1: "ps1 = p # qs" by (cases ps1) auto
  have 2: "heap_inv m2 qs (used \<union> bytes child 200 \<union> bytes p 4096)"
    using new_stack_Ret [OF 1(2) [unfolded ps1], of child] ns by auto
  have nz: "child \<noteq> 0" using 1(1) ok bytes_self [of 200 child] by (auto simp: mem_ok_def)
  have nl: "child \<notin> live s" using 1(1) ok bytes_self [of 200 child] by (auto simp: mem_ok_def)
  have "thrtab s' ! nat tid = child" using k'(1) T by (simp add: s' thread_setup_def Let_def)
  define cs where "cs = (cond s)(child_exit child := junk)"
  have cw: "wait_list (cs c) = wait_list (cond s c)" for c
    unfolding cs_def using fresh_cond_wait_list fresh \<open>thrtab s' ! nat tid = child\<close> by blast
  let ?s1 = "s\<lparr>mem := m2, cond := cs, thrtab := (thrtab s)[k := child],
    thr := (thr s)(child := spawned k child name anchor page s)\<rparr>"
  have W: "sched_ok (?s1\<lparr>ready_list := l, thr := h\<rparr>) (a_spawn child a)"
    "live (?s1\<lparr>ready_list := l, thr := h\<rparr>) = insert child (live s)"
    "relinked (insert child (set (ready a))) (thr ?s1) h"
    using spawn_ok [OF sched_ok k'(3,1,2) nz nl _ _ _ refl cw, of "spawned k child name anchor page s" m2] ins
    by (simp_all add: spawned_def)
  have "sched_ok s' (a_spawn child a)" "live s' = insert child (live s)"
    using sched_ok_setup [OF W(1)] W(2) unfolding s'(2) cs_def [symmetric] by simp_all
  moreover have "mem_ok s' qs (used \<union> bytes child 200 \<union> bytes p 4096)"
    using 2 ok calculation(2) by (auto simp: mem_ok_def s'(2) thread_setup_def Let_def)
  moreover have "parent (h child) = tp s" using relinked_fields(2) [OF W(3)] by (simp add: spawned_def)
  then have "parent (thr s' child) = tp s" "ctx_ra (thr_context (thr s' child)) = Glue"
    by (simp_all add: s'(2) thread_setup_def Let_def)
  moreover have "thrtab s' = (thrtab s)[k := child]" by (simp add: s'(2) thread_setup_def Let_def)
  ultimately show ?thesis using nl ki k' s'(1) by auto
qed

text \<open>\<open>thread_fork_to_user\<close>, if there is a free slot and the trap frame names the running thread.\<close>

definition forked :: "nat \<Rightarrow> u64 \<Rightarrow> u64 \<Rightarrow> u64 \<Rightarrow> u64 \<Rightarrow> kstate \<Rightarrow> thread" where
  "forked tid child cp anchor page s = (thr s child)
     \<lparr>thr_id := int tid, thr_name := thr_name (thr s (tp s)), parent := tp s, proc := cp,
      stack_base := anchor, stack_size := anchor - page\<rparr>"

definition before_finish :: "condition \<Rightarrow> nat \<Rightarrow> u64 \<Rightarrow> u64 \<Rightarrow> trap_frame \<Rightarrow> mstate \<Rightarrow> thread_list \<Rightarrow> tstore \<Rightarrow> kstate \<Rightarrow> kstate" where
  "before_finish junk k child cp tfr m l h s =
     (let h = h(tp s := (h (tp s))\<lparr>state := THREAD_READY\<rparr>);
          h = h(child := (h child)\<lparr>state := THREAD_RUNNING\<rparr>)
      in thread_setup child (stack_base (h child)) (tfr_x tfr ! TFR_S11)
           (map (\<lambda>r. tfr_x tfr ! r) [TFR_S0, TFR_S1, TFR_S2, TFR_S3, TFR_S4])
           (s\<lparr>mem := m, cond := (cond s)(child_exit child := junk),
              procs := (procs s)(cp := (procs s cp)\<lparr>proc_tid := int k\<rparr>),
              thrtab := (thrtab s)[k := child], ready_list := l, thr := h\<rparr>))"

lemma thread_fork_unfold:
  assumes "free_slot (thrtab s) 0 = k" and "k < NTHR" and "tfr_x tfr ! TFR_TP = tp s"
  shows "thread_fork_to_user junk cp tfr s =
    obind (kmalloc sizeof_thread (mem s)) (\<lambda>(child, m).
    obind (new_stack child m) (\<lambda>(page, anchor, m).
    obind (tlinsert (ready_list s) (tp s) ((thr s)(child := forked k child cp anchor page s))) (\<lambda>(l, h).
    obind (thread_finish_fork child cp (before_finish junk k child cp tfr m l h s)) (\<lambda>s.
      Ret (proc_tid (procs s cp), s)))))"
unfolding thread_fork_to_user_def Let_def
proof (intro obind_cong refl, clarsimp simp del: obind_eq_Ret, intro obind_cong refl, clarsimp simp del: obind_eq_Ret, goal_cases)
  case (1 child m1 page anchor m)
  show ?case using assms
    by (simp add: intr_disable_def ready_insert_def obind_assoc intr_restore_def set_thread_state_def forked_def del: obind_eq_Ret)
      (rule obind_cong [OF refl], clarsimp simp: before_finish_def Let_def)
qed

text \<open>Words that are copied into a page outside the pool leave the pool as it is.\<close>

lemma in_page_not_free:
  assumes "pool m ps" and "page_ok p" and "p \<notin> set ps" and "unat a = unat p + k" and "k < 4096"
  shows "a \<notin> set ps"
proof
  assume a: "a \<in> set ps"
  then have "unat a mod 4096 = 0" using pa.free_ok [OF assms(1)] by (auto simp: page_ok_def)
  then have "4096 dvd unat p + k" unfolding assms(4) by (simp only: dvd_eq_mod_eq_0)
  moreover have "4096 dvd unat p" using assms(2) by (auto simp: page_ok_def)
  ultimately have "4096 dvd k" by (simp only: dvd_add_right_iff)
  then have "unat a = unat p" using assms(4,5) by (auto simp: dvd_def)
  then have "a = p" by (simp only: word_unat_eq_iff)
  with a assms(3) show False by blast
qed

lemma copies_heap_inv:
  "heap_inv m ps used \<Longrightarrow> \<forall>i \<in> set is. d i \<notin> set ps \<Longrightarrow> ofold (\<lambda>i. copy_word (f i) (d i)) is m = Ret m' \<Longrightarrow>
     heap_inv m' ps used"
proof (induction "is" arbitrary: m)
  case (Cons i "is")
  then obtain m1 where m1: "copy_word (f i) (d i) m = Ret m1" "ofold (\<lambda>i. copy_word (f i) (d i)) is m1 = Ret m'" by auto
  then obtain v where "m1 = m\<lparr>pmem := (pmem m)(d i := v)\<rparr>" by (auto simp: copy_word_def store_def split: if_splits)
  then have "heap_inv m1 ps used" using heap_inv_store Cons.prems by auto
  then show ?case using Cons.IH m1(2) Cons.prems(2) by auto
qed auto

text \<open>
  When a fork leaves the kernel intact: the saved \<open>tp\<close> is that of the running thread, the thread table has a free slot,
  and the words that \<open>_thread_finish_fork\<close> copies, one per byte in use on the kernel stack, fit into the new stack page.
\<close>

definition fork_safe :: "trap_frame \<Rightarrow> kstate \<Rightarrow> bool" where
  "fork_safe tfr s \<longleftrightarrow> tfr_x tfr ! TFR_TP = tp s \<and> 0 \<in> set (thrtab s) \<and> unat (stack_base (thr s (tp s)) - sp_reg s) < 510"

lemma free_slot_found:
  assumes "0 \<in> set ts"
  shows "free_slot ts 0 < length ts" and "ts ! free_slot ts 0 = 0"
proof -
  have *: "length (takeWhile (\<lambda>t. t \<noteq> 0) ts) < length ts"
    using assms length_takeWhile_le [of "\<lambda>t. t \<noteq> 0" ts] takeWhile_eq_all_conv [of "\<lambda>t. t \<noteq> 0" ts]
    by (metis le_neq_implies_less takeWhile_eq_take take_all_iff order_refl)
  then show "free_slot ts 0 < length ts" "ts ! free_slot ts 0 = 0"
    using nth_length_takeWhile [OF *] by (simp_all add: free_slot_eq)
qed

lemma before_finish_fields:
  assumes "child \<noteq> tp s"
  shows "tp (before_finish junk k child cp tfr m l h s) = tp s"
    "mem (before_finish junk k child cp tfr m l h s) = m"
    "thrtab (before_finish junk k child cp tfr m l h s) = (thrtab s)[k := child]"
    "sp_reg (before_finish junk k child cp tfr m l h s) = sp_reg s"
    "main_thread (before_finish junk k child cp tfr m l h s) = main_thread s"
    "idle_thread (before_finish junk k child cp tfr m l h s) = idle_thread s"
    "ready_list (before_finish junk k child cp tfr m l h s) = l"
    "cond (before_finish junk k child cp tfr m l h s) = (cond s)(child_exit child := junk)"
    "ctx_sp (thr_context (thr (before_finish junk k child cp tfr m l h s) child)) = stack_base (h child)"
    "list_next (thr (before_finish junk k child cp tfr m l h s) x) = list_next (h x)"
    "wait_cond (thr (before_finish junk k child cp tfr m l h s) x) = wait_cond (h x)"
    "thr_id (thr (before_finish junk k child cp tfr m l h s) x) = thr_id (h x)"
    "parent (thr (before_finish junk k child cp tfr m l h s) x) = parent (h x)"
    "stack_base (thr (before_finish junk k child cp tfr m l h s) x) = stack_base (h x)"
    "state (thr (before_finish junk k child cp tfr m l h s) x) =
       (if x = child then THREAD_RUNNING else if x = tp s then THREAD_READY else state (h x))"
  using assms by (simp_all add: before_finish_def thread_setup_def Let_def)

text \<open>The words below the anchor of a stack.\<close>

lemma stack_word: "unat b = k \<Longrightarrow> 8 * Suc i \<le> k \<Longrightarrow> unat (b - 8 - 8 * of_nat i :: u64) = k - 8 * Suc i"
proof -
  assume b: "unat b = k" and le: "8 * Suc i \<le> k"
  have k: "k < 2 ^ 64" using b unat_u64_lt [of b] by simp
  have e: "b - 8 - 8 * of_nat i = b - of_nat (8 * Suc i)" by simp
  have u: "unat (of_nat (8 * Suc i) :: u64) = 8 * Suc i" using le k by (intro unat_of_nat_small) simp
  have "of_nat (8 * Suc i) \<le> b" unfolding word_le_nat_alt u using b le by simp
  then have "unat (b - of_nat (8 * Suc i)) = unat b - 8 * Suc i" using u by (simp only: unat_sub)
  then show ?thesis unfolding e b .
qed

lemma anchor_word:
  assumes "page_ok p" and "i < 510"
  shows "unat (p + PAGE_SIZE - 16 - 8 - 8 * of_nat i) = unat p + (4072 - 8 * i)"
  using stack_word [OF anchor_in_ram(3) [OF assms(1)], of i] assms(2) by simp

lemma stack_word_in_ram:
  assumes "page_ok p" and "i < 510"
  shows "in_ram (p + PAGE_SIZE - 16 - 8 - 8 * of_nat i)"
proof -
  have b: "unat p + 4096 \<le> 0x80800000" "0x80000000 \<le> unat p"
    using page_ok_bound [OF assms(1)] assms(1) by (auto simp: page_ok_def in_ram_def RAM_START_def word_le_nat_alt)
  show ?thesis unfolding in_ram_def word_le_nat_alt word_less_nat_alt anchor_word [OF assms] using b
    by (simp add: RAM_START_def RAM_END_def RAM_SIZE_def)
qed

text \<open>The memory after \<open>_thread_finish_fork\<close>: the words copied lie in the page of the new stack.\<close>

lemma finish_fork_heap_inv:
  assumes inv: "heap_inv (mem s) ps used" and p: "page_ok p" "p \<notin> set ps"
    and sp: "ctx_sp (thr_context (thr s child)) = p + PAGE_SIZE - 16" and ne: "child \<noteq> tp s"
    and used: "unat (stack_base (thr s (tp s)) - sp_reg s) < 510" and f: "thread_finish_fork child cp s = Ret s'"
  shows "heap_inv (mem s') ps used"
proof -
  let ?sp = "p + PAGE_SIZE - 16" and ?u = "stack_base (thr s (tp s)) - sp_reg s"
  have po: "pool (mem s) ps" using inv by (simp add: heap_inv_def)
  have d: "?sp - 8 - 8 * of_nat i \<notin> set ps" if "i < 510" for i
    by (rule in_page_not_free [OF po p anchor_word [OF p(1) that]]) simp
  have z: "?sp - 24 * 8 \<notin> set ps" using d [of 23] by simp
  have n: "fork_copies ?u \<le> 510" using used by (simp add: fork_copies_def)
  obtain m1 m2 where m: "ofold (\<lambda>i. copy_word (stack_base (thr s (tp s)) - 8 - 8 * of_nat i) (?sp - 8 - 8 * of_nat i))
      [0..<fork_copies ?u] (mem s) = Ret m1" "store (?sp - 24 * 8) 0 m1 = Ret m2" "mem s' = m2"
    using f ne sp unfolding thread_finish_fork_def Let_def by auto
  have "heap_inv m1 ps used" by (rule copies_heap_inv [OF inv _ m(1)]) (use d n in auto)
  from heap_inv_store [OF this z, of 0] show ?thesis using m(2) unfolding m(3) store_def by (simp split: if_splits)
qed

lemma finish_fork_fields:
  assumes "thread_finish_fork child cp s = Ret s'"
  shows "tp s' = child" "thrtab s' = thrtab s" "main_thread s' = main_thread s" "idle_thread s' = idle_thread s"
    "ready_list s' = ready_list s" "cond s' = cond s"
    "list_next (thr s' x) = list_next (thr s x)" "state (thr s' x) = state (thr s x)"
    "wait_cond (thr s' x) = wait_cond (thr s x)" "thr_id (thr s' x) = thr_id (thr s x)"
    "parent (thr s' x) = parent (thr s x)"
proof -
  obtain m sp where s': "s' = (s\<lparr>thr := (thr s)(tp s := (thr s (tp s))
      \<lparr>thr_context := \<lparr>ctx_s = s_regs s, ctx_ra = InFork cp, ctx_sp = sp_reg s\<rparr>\<rparr>)\<rparr>)
      \<lparr>mem := m, sp_reg := sp, tp := child, pc := InFork cp\<rparr>"
    using assms unfolding thread_finish_fork_def Let_def obind_eq_Ret by blast
  show "tp s' = child" "thrtab s' = thrtab s" "main_thread s' = main_thread s" "idle_thread s' = idle_thread s"
    "ready_list s' = ready_list s" "cond s' = cond s"
    "list_next (thr s' x) = list_next (thr s x)" "state (thr s' x) = state (thr s x)"
    "wait_cond (thr s' x) = wait_cond (thr s x)" "thr_id (thr s' x) = thr_id (thr s x)"
    "parent (thr s' x) = parent (thr s x)"
    by (simp_all add: s')
qed

lemma thread_fork_step:
  assumes sched_ok: "sched_ok s a" and ok: "mem_ok s ps used" and ni: "tp s \<noteq> idle_thread s" and safe: "fork_safe tfr s"
    and fk: "thread_fork_to_user junk cp tfr s = Ret (tid, s')" and fresh: "fresh_cond junk (tp s') s"
  shows "\<exists>ps' used'. sched_ok s' (a_fork (tp s') a) \<and> mem_ok s' ps' used' \<and> tp s' \<notin> live s \<and>
    parent (thr s' (tp s')) = tp s \<and> main_thread s' = main_thread s \<and> idle_thread s' = idle_thread s"
proof -
  have T: "length (thrtab s) = NTHR" "thrtab s ! MAIN_TID \<noteq> 0" and tpl: "tp s \<in> live s"
    using sched_ok by (auto simp: sched_ok_def core_def table_def placed_def)
  define k where "k = free_slot (thrtab s) 0"
  have k: "k < NTHR" "thrtab s ! k = 0" using free_slot_found [of "thrtab s"] safe T(1) by (simp_all add: k_def fork_safe_def)
  have ftp: "tfr_x tfr ! TFR_TP = tp s" using safe by (simp add: fork_safe_def)
  have k0: "0 < k" using k(2) T(2) by (cases k) (auto simp: MAIN_TID_def)
  obtain child m1 page anchor m2 l h where km: "kmalloc sizeof_thread (mem s) = Ret (child, m1)"
    and ns: "new_stack child m1 = Ret (page, anchor, m2)"
    and ins: "tlinsert (ready_list s) (tp s) ((thr s)(child := forked k child cp anchor page s)) = Ret (l, h)"
    and ff: "thread_finish_fork child cp (before_finish junk k child cp tfr m2 l h s) = Ret s'"
    using fk unfolding thread_fork_unfold [OF k_def [symmetric] k(1) ftp] by auto
  have inv: "heap_inv (mem s) ps used" using ok by (simp add: mem_ok_def)
  obtain ps1 where 1: "bytes child 200 \<inter> used = {}" "heap_inv m1 ps1 (used \<union> bytes child 200)"
    using kmalloc_block_Ret [OF inv _ km] by (auto simp: sizeof_thread_def)
  have po: "pool m1 ps1" using 1(2) by (simp add: heap_inv_def)
  have "ps1 \<noteq> []" using ns pa.alloc_Nil [of m1] po by (auto simp: new_stack_def)
  then obtain p qs where ps1: "ps1 = p # qs" by (cases ps1) auto
  have 2: "heap_inv m2 qs (used \<union> bytes child 200 \<union> bytes p 4096)" "page = p" "anchor = p + PAGE_SIZE - 16"
    using new_stack_Ret [OF 1(2) [unfolded ps1], of child] ns by auto
  have p: "page_ok p" "p \<notin> set qs" using pa.free_ok [OF po] pa.free_distinct [OF po] by (auto simp: ps1)
  have nz: "child \<noteq> 0" "child \<notin> live s" using 1(1) ok bytes_self [of 200 child] by (auto simp: mem_ok_def)
  then have ne: "child \<noteq> tp s" using tpl by auto
  let ?b = "before_finish junk k child cp tfr m2 l h s" and ?h1 = "(thr s)(child := forked k child cp anchor page s)"
  note B = before_finish_fields [OF ne, of junk k cp tfr m2 l h]
  have core: "core s a" and st: "state (thr s (tp s)) = THREAD_RUNNING" using sched_ok by (auto simp: sched_ok_def)
  have q: "tlist ?h1 (ready_list s) (ready a)"
    by (rule tq.rep_frame [OF coreD(1) [OF core]]) (use coreD(5) [OF core] nz in auto)
  have "tp s \<notin> set (ready a)" "tp s \<noteq> 0" using coreD(5) [OF core] st tpl by (auto simp: live_def)
  with tq.ins_rep [OF q] ins have rl: "relinked (insert (tp s) (set (ready a))) ?h1 h" by fastforce
  note f = relinked_fields [OF rl]
  note F = finish_fork_fields [OF ff]
  have cs: "wait_list (cond s' c) = wait_list (cond s c)" for c
    using fresh_cond_wait_list [of junk child s c] fresh by (simp add: F(1,6) B(8))
  have W: "sched_ok s' (a_fork child a)" "live s' = insert child (live s)"
    by (rule fork_ok [OF sched_ok k0 k nz ni _ ins]; (rule cs | simp add: F B forked_def))+
  have "heap_inv (mem s') qs (used \<union> bytes child 200 \<union> bytes p 4096)"
  proof (rule finish_fork_heap_inv [OF _ p _ _ _ ff])
    show "heap_inv (mem ?b) qs (used \<union> bytes child 200 \<union> bytes p 4096)" using 2(1) by (simp add: B)
    show "ctx_sp (thr_context (thr ?b child)) = p + PAGE_SIZE - 16" by (simp add: B f forked_def 2)
    show "child \<noteq> tp ?b" using ne by (simp add: B)
    show "unat (stack_base (thr ?b (tp ?b)) - sp_reg ?b) < 510" using safe ne by (simp add: B f fork_safe_def)
  qed
  then have "mem_ok s' qs (used \<union> bytes child 200 \<union> bytes p 4096)" using ok W(2) by (auto simp: mem_ok_def)
  moreover have "parent (thr s' child) = tp s" "main_thread s' = main_thread s" "idle_thread s' = idle_thread s"
    by (simp_all add: F B f forked_def)
  ultimately show ?thesis using W nz F(1) by auto
qed

text \<open>A safe fork succeeds if two pages are free and the stack of the parent lies in memory.\<close>

lemma copies_Ret:
  "\<forall>i \<in> set is. in_ram (f i) \<and> in_ram (d i) \<Longrightarrow> \<exists>m'. ofold (\<lambda>i. copy_word (f i) (d i)) is m = Ret m'"
  by (induction "is" arbitrary: m) (auto simp: copy_word_def load_def store_def)

lemma thread_fork_Ret:
  assumes sched_ok: "sched_ok s a" and ok: "mem_ok s ps used" and len: "2 \<le> length ps" and safe: "fork_safe tfr s"
    and ram: "\<forall>i < 510. in_ram (stack_base (thr s (tp s)) - 8 - 8 * of_nat i)"
  shows "\<exists>tid s'. thread_fork_to_user junk cp tfr s = Ret (tid, s')"
proof -
  have T: "length (thrtab s) = NTHR" and tpl: "tp s \<in> live s" and core: "core s a"
    and st: "state (thr s (tp s)) = THREAD_RUNNING"
    using sched_ok by (auto simp: sched_ok_def core_def table_def placed_def)
  define k where "k = free_slot (thrtab s) 0"
  have k: "k < NTHR" using free_slot_found [of "thrtab s"] safe T by (simp add: k_def fork_safe_def)
  have ftp: "tfr_x tfr ! TFR_TP = tp s" and used: "unat (stack_base (thr s (tp s)) - sp_reg s) < 510"
    using safe by (simp_all add: fork_safe_def)
  have inv: "heap_inv (mem s) ps used" using ok by (simp add: mem_ok_def)
  have "ps \<noteq> []" using len by auto
  then obtain child m1 ps1 where 1: "kmalloc sizeof_thread (mem s) = Ret (child, m1)"
    "bytes child 200 \<inter> used = {}" "heap_inv m1 ps1 (used \<union> bytes child 200)" "length ps \<le> Suc (length ps1)"
    using kmalloc_block [OF inv, of sizeof_thread] by (auto simp: sizeof_thread_def)
  from 1(4) len obtain p qs where ps1: "ps1 = p # qs" by (cases ps1) auto
  obtain m2 where 2: "new_stack child m1 = Ret (p, p + PAGE_SIZE - 16, m2)"
    using new_stack_Ret [OF 1(3) [unfolded ps1]] by blast
  have p: "page_ok p" using 1(3) pa.free_ok [of m1 ps1] by (auto simp: heap_inv_def ps1)
  have nz: "child \<noteq> 0" "child \<notin> live s" using 1(2) ok bytes_self [of 200 child] by (auto simp: mem_ok_def)
  then have ne: "child \<noteq> tp s" using tpl by auto
  let ?h1 = "(thr s)(child := forked k child cp (p + PAGE_SIZE - 16) p s)"
  have q: "tlist ?h1 (ready_list s) (ready a)"
    by (rule tq.rep_frame [OF coreD(1) [OF core]]) (use coreD(5) [OF core] nz in auto)
  have "tp s \<notin> set (ready a)" "tp s \<noteq> 0" using coreD(5) [OF core] st tpl by (auto simp: live_def)
  then obtain l h where ins: "tlinsert (ready_list s) (tp s) ?h1 = Ret (l, h)" and rl: "relinked (insert (tp s) (set (ready a))) ?h1 h"
    using tq.ins_rep [OF q] by blast
  note f = relinked_fields [OF rl]
  let ?b = "before_finish junk k child cp tfr m2 l h s"
  note B = before_finish_fields [OF ne, of junk k cp tfr m2 l h]
  have base: "stack_base (thr ?b (tp ?b)) = stack_base (thr s (tp s))" using ne by (simp add: B f)
  have sp: "ctx_sp (thr_context (thr ?b child)) = p + PAGE_SIZE - 16" by (simp add: B f forked_def)
  have n: "fork_copies (stack_base (thr s (tp s)) - sp_reg s) \<le> 510" using used by (simp add: fork_copies_def)
  obtain m3 where m3: "ofold (\<lambda>i. copy_word (stack_base (thr s (tp s)) - 8 - 8 * of_nat i) (p + PAGE_SIZE - 16 - 8 - 8 * of_nat i))
      [0..<fork_copies (stack_base (thr s (tp s)) - sp_reg s)] m2 = Ret m3"
    using copies_Ret [of "[0..<fork_copies (stack_base (thr s (tp s)) - sp_reg s)]"] ram stack_word_in_ram [OF p] n by fastforce
  have "in_ram (p + PAGE_SIZE - 16 - 24 * 8)" using stack_word_in_ram [OF p, of 23] by simp
  then have "store (p + PAGE_SIZE - 16 - 24 * 8) 0 m3 = Ret (m3\<lparr>pmem := (pmem m3)(p + PAGE_SIZE - 16 - 24 * 8 := 0)\<rparr>)"
    by (simp add: store_def)
  then obtain s' where "thread_finish_fork child cp ?b = Ret s'"
    using m3 base sp ne unfolding thread_finish_fork_def Let_def by (simp add: B)
  then show ?thesis unfolding thread_fork_unfold [OF k_def [symmetric] k ftp] using 1(1) 2 ins by auto
qed

section \<open>The kernel as a transition system\<close>

text \<open>
  One rule per operation on threads and conditions. The idle thread only runs \<open>idle_thread_func\<close>; \<open>condition_broadcast\<close> is
  also called from interrupt handlers, whatever the running thread is. A caller of \<open>thread_join\<close> or \<open>thread_join_any\<close>
  that was suspended goes on with \<open>thread_join_loop\<close> or \<open>thread_join_any_resume\<close>. Between the operations a thread changes its
  registers and the interrupt flag (\<open>k_regs\<close>). Three operations have guards that the code does not check: a condition is initialised only while no thread waits on it; the memory of a new thread holds null
  pointers in the place of \<open>child_exit\<close> (\<open>fresh_cond\<close>); and a fork is one that \<open>fork_safe\<close> describes.
\<close>

inductive kstep :: "kstate \<Rightarrow> kstate \<Rightarrow> bool" where
  k_idle: "tp s = idle_thread s \<Longrightarrow> idle_thread_func s = Ret s' \<Longrightarrow> kstep s s'"
| k_broadcast: "condition_broadcast c s = Ret s' \<Longrightarrow> kstep s s'"
| k_regs: "kstep s (s\<lparr>sp_reg := sp, s_regs := rs, sie := b\<rparr>)"
| k_init: "wait_list (cond s c) = tlclear \<Longrightarrow> kstep s (condition_init c name s)"
| k_yield: "tp s \<noteq> idle_thread s \<Longrightarrow> thread_yield s = Ret s' \<Longrightarrow> kstep s s'"
| k_wait: "tp s \<noteq> idle_thread s \<Longrightarrow> condition_wait c s = Ret s' \<Longrightarrow> kstep s s'"
| k_spawn: "tp s \<noteq> idle_thread s \<Longrightarrow> thread_spawn junk name start arg s = Ret (tid, s') \<Longrightarrow>
    fresh_cond junk (thrtab s' ! nat tid) s \<Longrightarrow> kstep s s'"
| k_fork: "tp s \<noteq> idle_thread s \<Longrightarrow> thread_fork_to_user junk cp tfr s = Ret (tid, s') \<Longrightarrow>
    fork_safe tfr s \<Longrightarrow> fresh_cond junk (tp s') s \<Longrightarrow> kstep s s'"
| k_exit: "tp s \<noteq> idle_thread s \<Longrightarrow> thread_exit s = Ret s' \<Longrightarrow> kstep s s'"
| k_join: "tp s \<noteq> idle_thread s \<Longrightarrow> thread_join tid s = Ret (r, s') \<Longrightarrow> kstep s s'"
| k_join_any: "tp s \<noteq> idle_thread s \<Longrightarrow> thread_join_any s = Ret (r, s') \<Longrightarrow> kstep s s'"
| k_join_any_resume: "tp s \<noteq> idle_thread s \<Longrightarrow> thread_join_any_resume s = Ret (r, s') \<Longrightarrow> kstep s s'"

definition kinv :: "kstate \<Rightarrow> bool" where
  "kinv s \<longleftrightarrow> (\<exists>a ps used. sched_ok s a \<and> mem_ok s ps used)"

lemma heap_inv_same:
  "pmem m' = pmem m \<Longrightarrow> free_list m' = free_list m \<Longrightarrow> heap_start m' = heap_start m \<Longrightarrow> heap_end m' = heap_end m \<Longrightarrow>
   heap_inv m' ps used = heap_inv m ps used"
  by (simp add: heap_inv_def pool_def heap_block_def)

lemma keeps_mem_ok: "keeps s s' \<Longrightarrow> mem_ok s ps used \<Longrightarrow> mem_ok s' ps used"
  unfolding mem_ok_def keeps_live using heap_inv_same [of "mem s'" "mem s"] by (simp add: keeps_live) (simp add: keeps_def)

lemma kinv_keeps: "sched_ok s' a \<Longrightarrow> keeps s s' \<Longrightarrow> mem_ok s ps used \<Longrightarrow> kinv s'"
  unfolding kinv_def using keeps_mem_ok by blast

lemma recycle_kinv:
  assumes "kinv s" and "0 < tid" and "tid < int NTHR" and "thrtab s ! nat tid \<noteq> 0"
    and "state (thr s (thrtab s ! nat tid)) = THREAD_EXITED" and "parent (thr s (thrtab s ! nat tid)) = tp s"
    and "recycle_thread tid s = Ret s'"
  shows "kinv s'"
proof -
  obtain a ps used where w: "sched_ok s a" "mem_ok s ps used" using assms(1) by (auto simp: kinv_def)
  obtain s1 where "recycle_thread tid s = Ret s1" "sched_ok s1 a" "live s1 = live s - {thrtab s ! nat tid}" "mem s1 = mem s"
    using recycle_thread_step [OF w(1) assms(2,3) refl assms(4,5,6)] by blast
  moreover from this w(2) have "mem_ok s1 ps used" by (auto simp: mem_ok_def)
  ultimately show ?thesis using assms(7) by (auto simp: kinv_def)
qed

lemma wait_kinv:
  assumes "kinv s" and "tp s \<noteq> idle_thread s" and "condition_wait c s = Ret s'"
  shows "kinv s'"
  using assms condition_wait_step [OF _ assms(2), of _ c] kinv_keeps unfolding kinv_def by fastforce

lemma exited_childD:
  "find (exited_child s) [1..<NTHR] = Some i \<Longrightarrow> 0 < i \<and> i < NTHR \<and> thrtab s ! i \<noteq> 0 \<and>
     parent (thr s (thrtab s ! i)) = tp s \<and> state (thr s (thrtab s ! i)) = THREAD_EXITED"
proof -
  assume "find (exited_child s) [1..<NTHR] = Some i"
  then obtain k where k: "k < length [1..<NTHR]" "exited_child s ([1..<NTHR] ! k)" "i = [1..<NTHR] ! k"
    by (auto simp: find_Some_iff)
  have "[1..<NTHR] ! k = Suc k" using k(1) by simp
  with k show ?thesis by (auto simp: exited_child_def is_child_def)
qed

lemma join_loop_kinv:
  assumes inv: "kinv s" and i: "tp s \<noteq> idle_thread s" and tid: "0 < tid" "tid < int NTHR"
    and c: "thrtab s ! nat tid \<noteq> 0" "parent (thr s (thrtab s ! nat tid)) = tp s"
    and j: "thread_join_loop tid (thrtab s ! nat tid) s = Ret (r, s')"
  shows "kinv s'"
proof (cases "state (thr s (thrtab s ! nat tid)) = THREAD_EXITED")
  case True
  then show ?thesis using j recycle_kinv [OF inv tid c(1) True c(2)] by (auto simp: thread_join_loop_def)
next
  case False
  then show ?thesis using j wait_kinv [OF inv i] by (auto simp: thread_join_loop_def)
qed

lemma join_kinv:
  assumes "kinv s" and "tp s \<noteq> idle_thread s" and "thread_join tid s = Ret (r, s')"
  shows "kinv s'"
  using assms join_loop_kinv [OF assms(1,2), of tid r s']
  by (auto simp: thread_join_def thrtab_get_def split: if_splits)

lemma kstep_kinv:
  assumes "kstep s s'" and inv: "kinv s"
  shows "kinv s'"
proof -
  obtain a ps used where w: "sched_ok s a" and m: "mem_ok s ps used" using inv by (auto simp: kinv_def)
  have core: "core s a" and st: "state (thr s (tp s)) = THREAD_RUNNING" using w by (auto simp: sched_ok_def)
  show ?thesis using assms(1)
  proof cases
    case k_idle
    show ?thesis
    proof (cases "tlempty (ready_list s)")
      case True
      then have s': "s' = s\<lparr>sie := True\<rparr>" using k_idle by (simp add: idle_thread_func_def intr_enable_def intr_disable_def)
      have "sched_ok s' a" using w by (simp add: s' sched_ok_def core_def queues_def placed_def table_def live_def)
      moreover have "mem_ok s' ps used" using m by (simp add: s' mem_ok_def live_def)
      ultimately show ?thesis by (auto simp: kinv_def)
    next
      case False
      then have "ready a \<noteq> []" using coreD(1) [OF core] by (auto simp: tlempty_def tlist_def)
      with thread_yield_step [OF w] False k_idle kinv_keeps [OF _ _ m] show ?thesis
        by (auto simp: idle_thread_func_def)
    qed
  next
    case (k_broadcast c)
    have "tp s \<notin> set (waiting a c)" using coreD(6) [OF core] st by auto
    with condition_broadcast_step [OF core, of c] k_broadcast st have "sched_ok s' (a_wake c a)" "keeps s s'"
      by (auto simp: sched_ok_def)
    then show ?thesis using kinv_keeps m by blast
  next
    case (k_regs sp rs b)
    then have "sched_ok s' a" using w sched_ok_regs by simp
    moreover have "keeps s s'" using k_regs by (simp add: keeps_def)
    ultimately show ?thesis using kinv_keeps m by blast
  next
    case (k_init c name)
    then have "tlist (thr s) tlclear (waiting a c)" using coreD(2) [OF core, of c] by simp
    with k_init have "sched_ok s' a"
      using w by (simp add: condition_init_def sched_ok_def core_def queues_def placed_def table_def live_def)
    moreover have "keeps s s'" using k_init by (simp add: condition_init_def keeps_def)
    ultimately show ?thesis using kinv_keeps m by blast
  next
    case k_yield
    then show ?thesis using thread_yield_step [OF w] idle_ready [OF w] kinv_keeps [OF _ _ m] by fastforce
  next
    case (k_wait c)
    then show ?thesis using wait_kinv inv by blast
  next
    case (k_spawn junk name start arg tid)
    then show ?thesis using thread_spawn_step [OF w m] unfolding kinv_def by blast
  next
    case (k_fork junk cp tfr tid)
    then show ?thesis using thread_fork_step [OF w m] unfolding kinv_def by blast
  next
    case k_exit
    then have "tp s \<noteq> main_thread s" by (auto simp: thread_exit_def)
    then show ?thesis using thread_exit_step [OF w] k_exit kinv_keeps [OF _ _ m] by fastforce
  next
    case (k_join tid r)
    then show ?thesis using join_kinv inv by blast
  next
    case (k_join_any r)
    then show ?thesis using join_kinv [OF inv] wait_kinv [OF inv]
      by (auto simp: thread_join_any_def split: option.splits if_splits)
  next
    case (k_join_any_resume r)
    then obtain i where "find (exited_child s) [1..<NTHR] = Some i" "recycle_thread (int i) s = Ret s'"
      by (auto simp: thread_join_any_resume_def split: option.splits)
    then show ?thesis using recycle_kinv [OF inv, of "int i"] exited_childD by auto
  qed
qed

section \<open>Start-up\<close>

text \<open>
  The static initialisers of \<open>main_thread\<close>, \<open>idle_thread\<close>, \<open>thrtab\<close> and \<open>ready_list\<close>, in zeroed memory; the heap is
  initialised before the thread manager.
\<close>

definition zero_cond :: condition where
  "zero_cond = \<lparr>cond_name = '''', wait_list = tlclear\<rparr>"

definition boot_state :: "u64 \<Rightarrow> u64 \<Rightarrow> mstate \<Rightarrow> kstate" where
  "boot_state main idle m =
     (let c = \<lparr>ctx_s = replicate 12 0, ctx_ra = Glue, ctx_sp = 0\<rparr>;
          z = \<lparr>thr_context = c, thr_name = '''', stack_base = 0, stack_size = 0, state = THREAD_UNINITIALIZED,
               thr_id = 0, proc = 0, parent = 0, list_next = 0, wait_cond = 0\<rparr>
      in \<lparr>mem = m,
         thr = (\<lambda>_. z)(main := z\<lparr>thr_name := ''main'', thr_id := int MAIN_TID, state := THREAD_RUNNING\<rparr>,
                       idle := z\<lparr>thr_name := ''idle'', thr_id := int IDLE_TID, state := THREAD_READY, parent := main\<rparr>),
         cond = (\<lambda>_. zero_cond)
                (child_exit main := \<lparr>cond_name = ''main.child_exit'', wait_list = tlclear\<rparr>),
         procs = (\<lambda>_. \<lparr>proc_id = 0, proc_tid = 0, mtag = 0, iotab = replicate 16 0\<rparr>),
         thrtab = (replicate NTHR 0)[MAIN_TID := main, IDLE_TID := idle],
         ready_list = tlclear, thrmgr_initialized = False, main_thread = main, idle_thread = idle,
         tp = 0, s_regs = replicate 12 0, sp_reg = 0, pc = Glue, sie = False\<rparr>)"

lemma boot_live: "main \<noteq> 0 \<Longrightarrow> idle \<noteq> 0 \<Longrightarrow> live (boot_state main idle m) = {main, idle}"
proof -
  assume "main \<noteq> 0" "idle \<noteq> 0"
  moreover have "(replicate NTHR (0::u64))[MAIN_TID := main, IDLE_TID := idle] = main # replicate 14 0 @ [idle]"
    by (simp add: NTHR_def MAIN_TID_def IDLE_TID_def numeral_eq_Suc)
  ultimately show ?thesis by (auto simp: live_def boot_state_def Let_def)
qed

lemma thread_init_ok:
  assumes ne: "main \<noteq> 0" "idle \<noteq> 0" "main \<noteq> idle"
  shows "\<exists>s. thread_init ma ml ia il f (boot_state main idle m) = Ret s \<and> mem s = m \<and> idle_thread s = idle \<and>
    live s = {main, idle} \<and> sched_ok s \<lparr>run = main, ready = [idle], waiting = (\<lambda>_. [])\<rparr>"
proof -
  let ?b = "boot_state main idle m"
  define s1 where "s1 = thread_setup idle ia f [] ((init_main_thread ma ml ?b)\<lparr>thr := (thr (init_main_thread ma ml ?b))
    (idle := (thr (init_main_thread ma ml ?b) idle)\<lparr>stack_base := ia, stack_size := ia - il\<rparr>)\<rparr>)"
  have f1: "ready_list s1 = tlclear" "thrtab s1 = thrtab ?b" "cond s1 = cond ?b" "main_thread s1 = main"
    "idle_thread s1 = idle" "mem s1 = m"
    by (simp_all add: s1_def thread_setup_def init_main_thread_def boot_state_def Let_def)
  have f2: "state (thr s1 x) = state (thr ?b x)" "thr_id (thr s1 x) = thr_id (thr ?b x)"
    "parent (thr s1 x) = parent (thr ?b x)" for x
    by (simp_all add: s1_def thread_setup_def init_main_thread_def Let_def)
  obtain l h where 1: "tlinsert tlclear idle (thr s1) = Ret (l, h)" "tlist h l [idle]" "relinked {idle} (thr s1) h"
    using tq.ins_rep [of "thr s1" tlclear "[]" idle] ne by (auto simp: tlclear_def)
  note f = relinked_fields [OF 1(3)]
  define s where "s = s1\<lparr>ready_list := l, thr := h, tp := main, thrmgr_initialized := True\<rparr>"
  let ?a = "\<lparr>run = main, ready = [idle], waiting = (\<lambda>_. [])\<rparr>"
  have st: "state (h main) = THREAD_RUNNING" "state (h idle) = THREAD_READY" "parent (h idle) = main"
    "thr_id (h main) = 0" "thr_id (h idle) = int IDLE_TID"
    using ne by (simp_all add: f f2 boot_state_def Let_def MAIN_TID_def)
  have lv: "live s = {main, idle}" using boot_live [OF ne(1,2)] by (simp add: s_def live_def f1)
  have "queues s ?a" using 1(2) by (simp add: queues_def s_def f1 boot_state_def Let_def tlclear_def zero_cond_def)
  moreover have "placed s ?a"
    unfolding placed_def lv using st ne by (auto simp: s_def)
  moreover have "table s"
  proof -
    have tb: "thrtab s = main # replicate 14 0 @ [idle]"
      by (simp add: s_def f1 boot_state_def Let_def NTHR_def MAIN_TID_def IDLE_TID_def numeral_eq_Suc)
    have nth: "thrtab s ! i \<noteq> 0 \<Longrightarrow> i < 16 \<Longrightarrow> i = 0 \<or> i = 15" for i
      by (auto simp: tb nth_Cons nth_append split: nat.splits if_splits)
    have e: "thrtab s ! 0 = main" "thrtab s ! 15 = idle" by (simp_all add: tb nth_append)
    have fs: "main_thread s = main" "idle_thread s = idle" "thr s = h" by (simp_all add: s_def f1)
    have "thr_id (thr s (thrtab s ! i)) = int i \<and> (i \<noteq> 0 \<longrightarrow> parent (thr s (thrtab s ! i)) \<in> live s)"
      if "i < 16" "thrtab s ! i \<noteq> 0" for i
      using nth [OF that(2,1)] e st by (auto simp: fs lv IDLE_TID_def NTHR_def)
    moreover have "length (thrtab s) = 16" by (simp add: tb)
    ultimately show ?thesis
      using e st ne by (simp add: table_def fs NTHR_def MAIN_TID_def IDLE_TID_def)
  qed
  ultimately have "sched_ok s ?a" using st by (simp add: sched_ok_def core_def s_def)
  moreover have "thread_init ma ml ia il f ?b = Ret s"
  proof -
    have im: "idle_thread (init_main_thread ma ml ?b) = idle" by (simp add: init_main_thread_def boot_state_def Let_def)
    have "init_idle_thread ia il f (init_main_thread ma ml ?b) = Ret (s1\<lparr>ready_list := l, thr := h\<rparr>)"
      using 1(1) f1 by (simp add: init_idle_thread_def Let_def im s1_def [symmetric] ready_insert_def)
    then show ?thesis by (simp add: thread_init_def Let_def s_def f1)
  qed
  moreover have "mem s = m" "idle_thread s = idle" by (simp_all add: s_def f1)
  ultimately show ?thesis using lv by blast
qed

section \<open>Properties\<close>

text \<open>
  C1: the scheduler's invariant. From the state after start-up, whatever operations of \<open>kstep\<close> the threads and the
  interrupt handlers perform and in whatever order (yield, wait, broadcast, spawn, fork, exit, join and the idle loop),
  exactly one thread is running and it is the current one,
  every other thread in the table is on the run queue exactly if it is ready, and on the wait list of the
  condition it waits for exactly if it is waiting; the idle thread is never blocked. Therefore no assertion of
  the scheduler fails: a thread other than the idle thread can always yield, wait on any condition and (unless
  it is the main thread) exit, the idle thread can always run its loop, and broadcasting never fails.
  The runs are those in which a new thread finds null pointers in its uninitialised \<open>child_exit\<close>, and every fork has a
  free slot in the thread table, comes with the running thread as the saved \<open>tp\<close>, and uses less than 510 bytes of the
  kernel stack; the code relies on these conditions without checking them.
\<close>
theorem scheduler_never_fails:
  assumes "main \<noteq> 0" and "idle \<noteq> 0" and "main \<noteq> idle" and "heap_inv m ps used"
    and "0 \<in> used" and "bytes main 200 \<subseteq> used" and "bytes idle 200 \<subseteq> used"
    and "thread_init ma ml ia il f (boot_state main idle m) = Ret s0" and "rtranclp kstep s0 s"
  shows "(\<exists>a. sched_ok s a) \<and> (\<forall>c. \<exists>s'. condition_broadcast c s = Ret s') \<and>
    (if tp s = idle_thread s then \<exists>s'. idle_thread_func s = Ret s'
     else (\<exists>s'. thread_yield s = Ret s') \<and> (\<forall>c. \<exists>s'. condition_wait c s = Ret s') \<and>
       (if tp s = main_thread s then thread_exit s = Halted else \<exists>s'. thread_exit s = Ret s'))"
proof -
  have "kinv s0"
    using thread_init_ok [OF assms(1-3), of ma ml ia il f m] assms(4-8) by (auto simp: kinv_def mem_ok_def)
  with assms(9) have "kinv s" by (induction rule: rtranclp_induct) (auto intro: kstep_kinv)
  then obtain a ps used where w: "sched_ok s a" by (auto simp: kinv_def)
  have core: "core s a" and st: "state (thr s (tp s)) = THREAD_RUNNING" using w by (auto simp: sched_ok_def)
  have b: "\<exists>s'. condition_broadcast c s = Ret s'" for c using condition_broadcast_step [OF core] by blast
  show ?thesis
  proof (cases "tp s = idle_thread s")
    case True
    have "\<exists>s'. idle_thread_func s = Ret s'"
    proof (cases "ready a = []")
      case True
      then show ?thesis using coreD(1) [OF core] by (simp add: idle_thread_func_def tlempty_def tlist_def)
    next
      case False
      then have "\<exists>s'. thread_yield s = Ret s'" using thread_yield_step [OF w] by blast
      moreover have "\<not> tlempty (ready_list s)"
        using False coreD(1) [OF core] chain_head by (auto simp: tlempty_def tlist_def)
      ultimately show ?thesis by (simp add: idle_thread_func_def)
    qed
    with True w b show ?thesis by auto
  next
    case False
    have "\<exists>s'. thread_yield s = Ret s'" using thread_yield_step [OF w] idle_ready [OF w False] by auto
    moreover have "\<exists>s'. condition_wait c s = Ret s'" for c using condition_wait_step [OF w False] by blast
    moreover have "tp s \<noteq> main_thread s \<Longrightarrow> \<exists>s'. thread_exit s = Ret s'"
      using thread_exit_step [OF w _ False] by blast
    ultimately show ?thesis using False w b by (auto simp: thread_exit_def)
  qed
qed

lemma demo_used: "heap_inv demo_heap [0x80402000, 0x80401000] {0..<0x80100000}"
  by (auto simp: heap_inv_def demo_heap_def pool_def page_ok_def in_ram_def RAM_START_def RAM_END_def
      RAM_SIZE_def heap_block_def bytes_def)

text \<open>For the witness: the main thread, with 256 bytes on its stack, forks a child, which can exit.\<close>

definition demo_fork_frame :: trap_frame where
  "demo_fork_frame = \<lparr>tfr_x = (replicate 32 0)[TFR_TP := 0x80010000], tfr_sstatus = 0, tfr_sepc = 0\<rparr>"

lemma demo_stack_in_ram: "i < 510 \<Longrightarrow> in_ram (0x80020000 - 8 - 8 * of_nat i)"
proof -
  assume i: "i < 510"
  then have "unat (0x80020000 - 8 - 8 * of_nat i :: u64) = 0x80020000 - 8 * Suc i" by (intro stack_word) simp_all
  moreover have "0x80000000 \<le> 0x80020000 - 8 * Suc i" "0x80020000 - 8 * Suc i < (0x80800000 :: nat)" using i by simp_all
  ultimately show ?thesis by (simp add: in_ram_def word_le_nat_alt word_less_nat_alt RAM_START_def RAM_END_def RAM_SIZE_def)
qed

theorem scheduler_never_fails_witness:
  "\<exists>s0 s s'. thread_init 0x80020000 0x8001F000 0x80022000 0x80021000 0x80000100
       (boot_state 0x80010000 0x80011000 demo_heap) = Ret s0 \<and>
     rtranclp kstep s0 s \<and> parent (thr s (tp s)) = 0x80010000 \<and> thread_exit s = Ret s'"
proof -
  let ?a = "\<lparr>run = 0x80010000, ready = [0x80011000], waiting = (\<lambda>_. [])\<rparr> :: sched"
  obtain s0 where s0: "thread_init 0x80020000 0x8001F000 0x80022000 0x80021000 0x80000100
       (boot_state 0x80010000 0x80011000 demo_heap) = Ret s0"
    and i0: "mem s0 = demo_heap" "idle_thread s0 = 0x80011000" "live s0 = {0x80010000, 0x80011000}" and w: "sched_ok s0 ?a"
    using thread_init_ok [of "0x80010000" "0x80011000" "0x80020000" "0x8001F000" "0x80022000" "0x80021000"
      "0x80000100" demo_heap] by auto
  have b: "stack_base (thr s0 0x80010000) = 0x80020000" "thrtab s0 = (replicate NTHR 0)[MAIN_TID := 0x80010000, IDLE_TID := 0x80011000]"
    "main_thread s0 = 0x80010000"
    using s0 unfolding thread_init_def init_idle_thread_def
    by (auto simp: Let_def init_main_thread_def thread_setup_def boot_state_def ready_insert_def tlinsert_def tlclear_def set_next_def)
  have tp0: "tp s0 = 0x80010000" using w by (simp add: sched_ok_def core_def placed_def)
  define s1 where "s1 = s0\<lparr>sp_reg := 0x8001FF00, s_regs := s_regs s0, sie := sie s0\<rparr>"
  have st1: "kstep s0 s1" unfolding s1_def by (rule k_regs)
  have w1: "sched_ok s1 ?a" using w unfolding s1_def sched_ok_regs .
  have m1: "mem_ok s1 [0x80402000, 0x80401000] {0..<0x80100000}"
    using demo_used i0 by (auto simp: mem_ok_def s1_def live_def bytes_def)
  have "0 \<in> set (thrtab s1)"
    using nth_mem [of 1 "thrtab s1"] by (simp add: s1_def b NTHR_def MAIN_TID_def IDLE_TID_def)
  then have safe: "fork_safe demo_fork_frame s1"
    by (simp add: fork_safe_def demo_fork_frame_def TFR_TP_def) (simp add: s1_def tp0 b(1))
  obtain tid s where f: "thread_fork_to_user zero_cond 0x8001A000 demo_fork_frame s1 = Ret (tid, s)"
    using thread_fork_Ret [OF w1 m1 _ safe, of zero_cond "0x8001A000"] demo_stack_in_ram b(1) tp0 by (auto simp: s1_def)
  have fresh: "fresh_cond zero_cond (tp s) s1"
    using w1 by (auto simp: fresh_cond_def zero_cond_def sched_ok_def core_def queues_def tlist_Nil)
  have ni: "tp s1 \<noteq> idle_thread s1" using tp0 i0 by (simp add: s1_def)
  have st2: "kstep s1 s" by (rule k_fork [OF ni f safe fresh])
  have run: "rtranclp kstep s0 s" using st1 st2 by (meson converse_rtranclp_into_rtranclp rtranclp.rtrancl_refl)
  have c: "tp s \<notin> live s1" "parent (thr s (tp s)) = tp s1" "main_thread s = main_thread s1" "idle_thread s = idle_thread s1"
    using thread_fork_step [OF w1 m1 ni safe f fresh] by auto
  have "live s1 = {0x80010000, 0x80011000}" using i0(3) by (simp add: s1_def live_def)
  then have "tp s \<noteq> main_thread s" "tp s \<noteq> idle_thread s" "parent (thr s (tp s)) = 0x80010000"
    using c tp0 b(3) i0(2) by (auto simp: s1_def)
  with scheduler_never_fails [OF _ _ _ demo_used _ _ _ s0 run] s0 run show ?thesis by (auto simp: bytes_def)
qed

text \<open>
  C2: the scheduler implements round-robin queues. The abstract scheduler has a running thread, a queue of
  ready threads and one queue of waiting threads per condition. Each operation of the code on linked lists of
  \<open>struct thread\<close> has the effect of the abstract operation: yielding puts the running thread behind all ready
  ones and runs the first; waiting appends it to the queue of the condition; a broadcast moves all threads that wait
  for the condition, in order, behind the ready ones; an exit wakes the parent's waiters and runs the
  first ready thread. Nothing outside the links, states and contexts of threads changes.
\<close>
theorem scheduler_refines_queues:
  assumes "sched_ok s a"
  shows "(ready a \<noteq> [] \<longrightarrow> (\<exists>s'. thread_yield s = Ret s' \<and> sched_ok s' (a_yield a) \<and> keeps s s')) \<and>
    (tp s \<noteq> idle_thread s \<longrightarrow> (\<exists>s'. condition_wait c s = Ret s' \<and> sched_ok s' (a_wait c a) \<and> keeps s s')) \<and>
    (\<exists>s'. condition_broadcast c s = Ret s' \<and> sched_ok s' (a_wake c a) \<and> keeps s s') \<and>
    (tp s \<notin> {main_thread s, idle_thread s} \<longrightarrow>
      (\<exists>s'. thread_exit s = Ret s' \<and> sched_ok s' (a_exit (child_exit (parent (thr s (tp s)))) a) \<and> keeps s s' \<and>
        state (thr s' (tp s)) = THREAD_EXITED))"
proof -
  have core: "core s a" and st: "state (thr s (tp s)) = THREAD_RUNNING" using assms by (auto simp: sched_ok_def)
  have "tp s \<notin> set (waiting a c)" using coreD(6) [OF core] st by auto
  with condition_broadcast_step [OF core, of c] st
  have "\<exists>s'. condition_broadcast c s = Ret s' \<and> sched_ok s' (a_wake c a) \<and> keeps s s'"
    by (auto simp: sched_ok_def)
  then show ?thesis
    using thread_yield_step [OF assms] condition_wait_step [OF assms, of c] thread_exit_step [OF assms] by auto
qed

text \<open>A start-up state for witnesses.\<close>

definition demo_boot :: "kstate outcome" where
  "demo_boot = thread_init 0x80020000 0x8001F000 0x80022000 0x80021000 0x80000100
     (boot_state 0x80010000 0x80011000 demo_heap)"

lemma demo_boot_ok:
  "\<exists>s. demo_boot = Ret s \<and> mem s = demo_heap \<and> idle_thread s = 0x80011000 \<and> live s = {0x80010000, 0x80011000} \<and>
     sched_ok s \<lparr>run = 0x80010000, ready = [0x80011000], waiting = (\<lambda>_. [])\<rparr>"
  unfolding demo_boot_def by (rule thread_init_ok) simp_all

theorem scheduler_refines_queues_witness:
  "\<exists>s s'. demo_boot = Ret s \<and> condition_wait 0x80012000 s = Ret s' \<and>
     sched_ok s' \<lparr>run = 0x80011000, ready = [], waiting = (\<lambda>_. [])(0x80012000 := [0x80010000])\<rparr>"
proof -
  obtain s where s: "demo_boot = Ret s" "idle_thread s = 0x80011000"
    "sched_ok s \<lparr>run = 0x80010000, ready = [0x80011000], waiting = (\<lambda>_. [])\<rparr>" using demo_boot_ok by blast
  have "tp s = 0x80010000" using s(3) by (simp add: sched_ok_def core_def placed_def)
  with scheduler_refines_queues [OF s(3), of "0x80012000"] s show ?thesis
    by (auto simp: a_wait_def a_next_def)
qed

text \<open>\<open>n\<close> calls of \<open>thread_yield\<close>, each by the thread that the previous one resumed.\<close>

fun yields :: "nat \<Rightarrow> kstate \<Rightarrow> kstate outcome" where
  "yields 0 s = Ret s"
| "yields (Suc n) s = obind (thread_yield s) (yields n)"

lemma yields_run:
  assumes "sched_ok s a" and "ready a = xs @ t # ys"
  shows "\<exists>s' a'. yields (Suc (length xs)) s = Ret s' \<and> sched_ok s' a' \<and> tp s' = t \<and> keeps s s'"
  using assms
proof (induction xs arbitrary: s a ys)
  case Nil
  then obtain s' where 1: "thread_yield s = Ret s'" "sched_ok s' (a_yield a)" "keeps s s'"
    using thread_yield_step [of s a] by auto
  have "tp s' = run (a_yield a)" using 1(2) by (simp add: sched_ok_def core_def placed_def)
  with Nil.prems(2) have "tp s' = t" by (simp add: a_yield_def a_next_def)
  with 1 show ?case by auto
next
  case (Cons x xs)
  then obtain s1 where 1: "thread_yield s = Ret s1" "sched_ok s1 (a_yield a)" "keeps s s1"
    using thread_yield_step [of s a] by auto
  have "ready (a_yield a) = xs @ t # (ys @ [run a])" using Cons.prems(2) by (simp add: a_yield_def a_next_def)
  from Cons.IH [OF 1(2) this] 1(1,3) show ?case by (auto intro: keeps_trans)
qed

text \<open>
  C3: no ready thread starves. A thread that has \<open>n\<close> threads before it in the run queue is running after
  \<open>n + 1\<close> calls of \<open>thread_yield\<close>.
\<close>
theorem yield_is_fair:
  assumes "sched_ok s a" and "ready a = xs @ t # ys"
  shows "\<exists>s'. yields (Suc (length xs)) s = Ret s' \<and> tp s' = t"
  using yields_run [OF assms] by blast

theorem yield_is_fair_witness:
  "\<exists>s s'. demo_boot = Ret s \<and> yields 1 s = Ret s' \<and> tp s' = 0x80011000"
proof -
  obtain s where s: "demo_boot = Ret s"
    "sched_ok s \<lparr>run = 0x80010000, ready = [0x80011000], waiting = (\<lambda>_. [])\<rparr>" using demo_boot_ok by blast
  have "ready \<lparr>run = 0x80010000, ready = [0x80011000], waiting = (\<lambda>_. [])\<rparr> = [] @ 0x80011000 # []" by simp
  from yield_is_fair [OF s(2) this] s(1) show ?thesis by auto
qed

text \<open>
  C20: the stack of an exited thread is never given back. \<open>suspend_self\<close> frees the stack page of the thread it
  takes for the previous one, if that has exited; but \<open>_thread_swtch\<close> returns its argument, the resumed
  thread itself, which is running. So the exit of a thread, the switch to the next one and the recycling of its
  slot in the thread table leave the list of free pages as it was.
\<close>
theorem thread_exit_leaks_stack:
  assumes "sched_ok s a" and "tp s \<notin> {main_thread s, idle_thread s}" and "thread_exit s = Ret s1"
    and "recycle_thread tid s2 = Ret s3"
  shows "free_list (mem s1) = free_list (mem s) \<and> pmem (mem s1) = pmem (mem s) \<and>
    stack_base (thr s1 (tp s)) = stack_base (thr s (tp s)) \<and> mem s3 = mem s2"
proof -
  have "keeps s s1" using thread_exit_step [OF assms(1)] assms(2,3) by auto
  moreover have "mem s3 = mem s2" using assms(4) by (auto simp: recycle_thread_def kfree_def Let_def)
  ultimately show ?thesis by (simp add: keeps_def)
qed

text \<open>
  C21: \<open>thread_join\<close> checks its argument too late, and the accessors do not check theirs at all. \<open>thread_join\<close>
  reads the entry of the thread table before it tests the index, and the assertions of \<open>thread_process\<close>,
  \<open>thread_set_process\<close> and \<open>thread_name\<close> hold for every index; for an index outside the table all
  four access memory behind or before it instead of reporting an error.
\<close>
theorem thread_index_unchecked:
  assumes "tid < 0 \<or> int NTHR \<le> tid"
  shows "thread_join tid s = Fault \<and> thread_process tid s = Fault \<and> thread_set_process tid p s = Fault \<and>
    thread_name tid s = Fault"
  using assms
  by (auto simp: thread_join_def thread_process_def thread_set_process_def thread_name_def thrtab_get_def c_assert_def)

theorem thread_index_unchecked_witness:
  "thread_join 16 (boot_state 1 2 demo_heap) = Fault \<and> thread_process 16 (boot_state 1 2 demo_heap) = Fault \<and>
   thread_set_process 16 0 (boot_state 1 2 demo_heap) = Fault \<and> thread_name 16 (boot_state 1 2 demo_heap) = Fault"
  by (rule thread_index_unchecked) (simp add: NTHR_def)

lemma thread_spawn_Ret:
  assumes ok: "sched_ok s a" and m: "mem_ok s ps used" and len: "2 \<le> length ps"
    and slot: "free_slot (drop 1 (thrtab s)) 1 \<noteq> NTHR"
  shows "\<exists>s'. thread_spawn junk name start arg s = Ret (int (free_slot (drop 1 (thrtab s)) 1), s')"
proof -
  have T: "length (thrtab s) = NTHR" using ok by (auto simp: sched_ok_def core_def table_def)
  define k where "k = free_slot (drop (Suc 0) (thrtab s)) (Suc 0)"
  have k: "k \<noteq> NTHR" "k < NTHR" "thrtab s ! k = 0" "0 < k"
    using free_slot_less [of "thrtab s" 15] T slot by (simp_all add: k_def NTHR_def)
  have inv: "heap_inv (mem s) ps used" using m by (simp add: mem_ok_def)
  have "ps \<noteq> []" using len by auto
  then obtain child m1 ps1 where 1: "kmalloc sizeof_thread (mem s) = Ret (child, m1)"
    "bytes child 200 \<inter> used = {}" "heap_inv m1 ps1 (used \<union> bytes child 200)" "length ps \<le> Suc (length ps1)"
    using kmalloc_block [OF inv, of sizeof_thread] by (auto simp: sizeof_thread_def)
  from 1(4) len obtain p qs where ps1: "ps1 = p # qs" by (cases ps1) auto
  obtain m2 where 2: "new_stack child m1 = Ret (p, p + PAGE_SIZE - 16, m2)"
    using new_stack_Ret [OF 1(3) [unfolded ps1]] by blast
  have nl: "child \<noteq> 0" "child \<notin> live s" using 1(2) m bytes_self [of 200 child] by (auto simp: mem_ok_def)
  let ?t = "spawned k child name (p + PAGE_SIZE - 16) p s"
  obtain l h where "tlinsert (ready_list s) child ((thr s)(child := ?t)) = Ret (l, h)"
    using spawn_ok [OF ok k(4,2,3) nl _ _ _ refl refl, of ?t m2] by (auto simp: spawned_def)
  then show ?thesis using 1(1) 2 k(1) unfolding thread_spawn_def
    by (simp add: Let_def k_def [symmetric] intr_disable_def intr_restore_def set_thread_state_def spawned_def
        ready_insert_def)
qed

text \<open>Start-up, then the main thread spawns a thread and yields twice, so that the new thread runs.\<close>

definition demo_child :: "kstate outcome" where
  "demo_child = obind demo_boot (\<lambda>s. obind (thread_spawn zero_cond ''child'' 0x80000200 7 s) (\<lambda>(_, s). yields 2 s))"

lemma demo_child_ok:
  "\<exists>s child. demo_child = Ret s \<and> sched_ok s \<lparr>run = child, ready = [0x80010000, 0x80011000], waiting = (\<lambda>_. [])\<rparr> \<and>
     child \<notin> {0x80010000, 0x80011000} \<and> thrtab s ! 1 = child \<and> parent (thr s child) = 0x80010000 \<and>
     main_thread s = 0x80010000 \<and> idle_thread s = 0x80011000"
proof -
  let ?a = "\<lparr>run = 0x80010000, ready = [0x80011000], waiting = (\<lambda>_. [])\<rparr> :: sched"
  obtain s0 where s0: "demo_boot = Ret s0" "mem s0 = demo_heap" "idle_thread s0 = 0x80011000"
    "live s0 = {0x80010000, 0x80011000}" "sched_ok s0 ?a"
    using demo_boot_ok by blast
  have tp0: "tp s0 = 0x80010000" using s0(5) by (simp add: sched_ok_def core_def placed_def)
  have m: "mem_ok s0 [0x80402000, 0x80401000] {0..<0x80100000}"
    using demo_used by (auto simp: mem_ok_def s0 bytes_def)
  have tab: "thrtab s0 ! 1 = 0" "main_thread s0 = 0x80010000" "length (thrtab s0) = 16"
  proof -
    have "thrtab s0 = (replicate NTHR 0)[MAIN_TID := 0x80010000, IDLE_TID := 0x80011000]" "main_thread s0 = 0x80010000"
      using s0(1) unfolding demo_boot_def thread_init_def init_idle_thread_def
      by (auto simp: Let_def init_main_thread_def thread_setup_def boot_state_def ready_insert_def)
    then show "thrtab s0 ! 1 = 0" "main_thread s0 = 0x80010000" "length (thrtab s0) = 16"
      by (simp_all add: NTHR_def MAIN_TID_def IDLE_TID_def)
  qed
  have slot: "free_slot (drop 1 (thrtab s0)) 1 = 1"
    using Cons_nth_drop_Suc [of 1 "thrtab s0", symmetric] tab(1,3) by simp
  obtain s1 where s1: "thread_spawn zero_cond ''child'' 0x80000200 7 s0 = Ret (1, s1)"
    using thread_spawn_Ret [OF s0(5) m, of zero_cond "''child''" "0x80000200" 7] slot by (auto simp: NTHR_def)
  have fresh: "fresh_cond zero_cond (thrtab s1 ! nat 1) s0"
    using s0(5) by (auto simp: fresh_cond_def zero_cond_def sched_ok_def core_def queues_def tlist_Nil)
  obtain child where c: "sched_ok s1 (a_spawn child ?a)" "child \<notin> live s0" "thrtab s1 = (thrtab s0)[1 := child]"
    "parent (thr s1 child) = tp s0" using thread_spawn_step [OF s0(5) m s1 fresh] by auto
  have g: "main_thread s1 = main_thread s0" "idle_thread s1 = idle_thread s0"
    using s1 unfolding thread_spawn_def
    by (auto simp: Let_def intr_disable_def intr_restore_def set_thread_state_def ready_insert_def thread_setup_def
      split: if_splits)
  obtain s2 where s2: "thread_yield s1 = Ret s2" "sched_ok s2 (a_yield (a_spawn child ?a))" "keeps s1 s2"
    using thread_yield_step [OF c(1)] by (auto simp: a_spawn_def)
  obtain s3 where s3: "thread_yield s2 = Ret s3" "sched_ok s3 (a_yield (a_yield (a_spawn child ?a)))" "keeps s2 s3"
    using thread_yield_step [OF s2(2)] by (auto simp: a_spawn_def a_yield_def a_next_def)
  have "demo_child = Ret s3" by (simp add: demo_child_def s0(1) s1 s2(1) s3(1) numeral_2_eq_2 del: obind_eq_Ret)
  moreover have "thrtab s3 ! 1 = child" "parent (thr s3 child) = 0x80010000" "main_thread s3 = 0x80010000"
    "idle_thread s3 = 0x80011000"
    using s2(3) s3(3) c(3,4) tab(2,3) tp0 g s0(3) by (simp_all add: keeps_def)
  ultimately show ?thesis using s3(2) c(2) s0(4)
    by (intro exI [of _ s3] exI [of _ child]) (simp add: a_spawn_def a_yield_def a_next_def)
qed

theorem thread_exit_leaks_stack_witness:
  "\<exists>s s1 s3. demo_child = Ret s \<and> thread_exit s = Ret s1 \<and> recycle_thread 1 s1 = Ret s3 \<and>
     free_list (mem s1) = free_list (mem s) \<and> mem s3 = mem s1"
proof -
  obtain s child where s: "demo_child = Ret s"
    "sched_ok s \<lparr>run = child, ready = [0x80010000, 0x80011000], waiting = (\<lambda>_. [])\<rparr>"
    "child \<notin> {0x80010000, 0x80011000}" "thrtab s ! 1 = child" "parent (thr s child) = 0x80010000"
    "main_thread s = 0x80010000" "idle_thread s = 0x80011000" using demo_child_ok by blast
  have tp: "tp s = child" "child \<in> live s" using s(2) by (simp_all add: sched_ok_def core_def placed_def)
  have n: "tp s \<notin> {main_thread s, idle_thread s}" using s(3,6,7) tp by simp
  obtain s1 where s1: "thread_exit s = Ret s1" "keeps s s1" "state (thr s1 child) = THREAD_EXITED"
    "sched_ok s1 (a_exit (child_exit (parent (thr s child))) \<lparr>run = child, ready = [0x80010000, 0x80011000], waiting = (\<lambda>_. [])\<rparr>)"
    using thread_exit_step [OF s(2)] n tp by auto
  have tp1: "tp s1 = 0x80010000"
    using s1(4) by (simp add: sched_ok_def core_def placed_def a_exit_def a_wake_def a_next_def)
  obtain s3 where s3: "recycle_thread 1 s1 = Ret s3"
    using recycle_thread_step [OF s1(4), of 1 child] s1(2,3) s(4,5) tp tp1
    by (auto simp: keeps_def NTHR_def live_def)
  show ?thesis using thread_exit_leaks_stack [OF s(2) n s1(1) s3] s(1) s1(1) s3 by auto
qed

section \<open>Fork\<close>

text \<open>\<open>copy_words n src dst\<close>: what the loop of \<open>_thread_finish_fork\<close> has copied after \<open>n\<close> rounds.\<close>

lemma copy_words:
  assumes "\<forall>i < n. in_ram (src - 8 - 8 * of_nat i) \<and> in_ram (dst - 8 - 8 * of_nat i)"
    and "\<forall>i < n. \<forall>j < n. src - 8 - 8 * of_nat i \<noteq> dst - 8 - 8 * of_nat j"
    and "\<forall>i < n. \<forall>j < n. dst - 8 - 8 * of_nat i = dst - 8 - 8 * of_nat j \<longrightarrow> i = j"
  shows "\<exists>m'. ofold (\<lambda>i. copy_word (src - 8 - 8 * of_nat i) (dst - 8 - 8 * of_nat i)) [0..<n] m = Ret m' \<and>
    (\<forall>i < n. pmem m' (dst - 8 - 8 * of_nat i) = pmem m (src - 8 - 8 * of_nat i)) \<and>
    (\<forall>a. (\<forall>i < n. a \<noteq> dst - 8 - 8 * of_nat i) \<longrightarrow> pmem m' a = pmem m a)"
  using assms
proof (induction n)
  case (Suc n)
  have p: "\<forall>i < n. in_ram (src - 8 - 8 * of_nat i) \<and> in_ram (dst - 8 - 8 * of_nat i)"
    "\<forall>i < n. \<forall>j < n. src - 8 - 8 * of_nat i \<noteq> dst - 8 - 8 * of_nat j"
    "\<forall>i < n. \<forall>j < n. dst - 8 - 8 * of_nat i = dst - 8 - 8 * of_nat j \<longrightarrow> i = j"
    using Suc.prems by (meson less_SucI)+
  obtain m1 where
    m1: "ofold (\<lambda>i. copy_word (src - 8 - 8 * of_nat i) (dst - 8 - 8 * of_nat i)) [0..<n] m = Ret m1"
    and c: "\<forall>i < n. pmem m1 (dst - 8 - 8 * of_nat i) = pmem m (src - 8 - 8 * of_nat i)"
    and u: "\<forall>a. (\<forall>i < n. a \<noteq> dst - 8 - 8 * of_nat i) \<longrightarrow> pmem m1 a = pmem m a"
    using Suc.IH [OF p] by blast
  let ?s = "src - 8 - 8 * of_nat n" and ?d = "dst - 8 - 8 * of_nat n"
  define m2 where "m2 = m1\<lparr>pmem := (pmem m1)(?d := pmem m1 ?s)\<rparr>"
  have r: "in_ram ?s" "in_ram ?d" using Suc.prems(1) by blast+
  have src: "pmem m1 ?s = pmem m ?s" using u Suc.prems(2) by auto
  have "ofold (\<lambda>i. copy_word (src - 8 - 8 * of_nat i) (dst - 8 - 8 * of_nat i)) [0..<Suc n] m = Ret m2"
    using m1 r by (simp add: ofold_snoc copy_word_def load_def store_def m2_def)
  moreover have "pmem m2 (dst - 8 - 8 * of_nat i) = pmem m (src - 8 - 8 * of_nat i)" if "i < Suc n" for i
  proof (cases "i = n")
    case True
    then show ?thesis using src by (simp add: m2_def)
  next
    case False
    then have "dst - 8 - 8 * of_nat i \<noteq> ?d" "i < n" using Suc.prems(3) that by auto
    then show ?thesis using c by (simp add: m2_def)
  qed
  moreover have "pmem m2 a = pmem m a" if "\<forall>i < Suc n. a \<noteq> dst - 8 - 8 * of_nat i" for a
    using that u by (simp add: m2_def)
  ultimately show ?case by blast
qed simp

text \<open>
  C19: \<open>_thread_finish_fork\<close> copies eight times too much. If the parent has \<open>n\<close> bytes on its kernel stack, the
  loop copies \<open>n + 1\<close> words of eight bytes: the child gets the parent's stack with 0 in the saved \<open>a0\<close> (the
  return value of \<open>fork\<close> in the child), but the \<open>7 n + 8\<close> bytes below it are overwritten as well. The
  stack of the child begins 4080 bytes above its page, so with 510 bytes or more in use the copy runs over the
  end of the stack page into the page below it.
\<close>
theorem finish_fork_copies_too_much:
  assumes base: "unat (stack_base (thr s (tp s))) = b" and n: "unat (stack_base (thr s (tp s)) - sp_reg s) = n"
    and sp: "unat (ctx_sp (thr_context (thr s child))) = d" and "child \<noteq> tp s" and "23 \<le> n" and "n < 2 ^ 20"
    and ram: "0x80000000 + 8 * Suc n \<le> b" "b \<le> 0x80800000" "0x80000000 + 8 * Suc n \<le> d" "d \<le> 0x80800000"
    and apart: "b + 8 * Suc n \<le> d \<or> d + 8 * Suc n \<le> b"
  shows "\<exists>s'. thread_finish_fork child cp s = Ret s' \<and> tp s' = child \<and> pc s' = InFork cp \<and>
    sp_reg s' = ctx_sp (thr_context (thr s child)) - of_nat n \<and>
    (\<forall>i \<le> n. pmem (mem s') (of_nat (d - 8 * Suc i)) = (if i = 23 then 0 else pmem (mem s) (of_nat (b - 8 * Suc i)))) \<and>
    (\<forall>p. d = p + 4080 \<longrightarrow> 510 \<le> n \<longrightarrow> d - 8 * Suc n < p)"
proof -
  let ?b = "stack_base (thr s (tp s))" and ?d = "ctx_sp (thr_context (thr s child))"
  have wb: "unat (?b - 8 - 8 * of_nat i) = b - 8 * Suc i" if "i < Suc n" for i
    by (rule stack_word [OF base]) (use that ram(1) in simp)
  have wd: "unat (?d - 8 - 8 * of_nat i) = d - 8 * Suc i" if "i < Suc n" for i
    by (rule stack_word [OF sp]) (use that ram(3) in simp)
  have eb: "?b - 8 - 8 * of_nat i = of_nat (b - 8 * Suc i)" if "i < Suc n" for i
    unfolding wb [OF that, symmetric] by simp
  have ed: "?d - 8 - 8 * of_nat i = of_nat (d - 8 * Suc i)" if "i < Suc n" for i
    unfolding wd [OF that, symmetric] by simp
  have R: "in_ram w \<longleftrightarrow> 0x80000000 \<le> unat w \<and> unat w < 0x80800000" for w
    by (simp add: in_ram_def RAM_START_def RAM_END_def RAM_SIZE_def word_le_nat_alt word_less_nat_alt)
  have 1: "\<forall>i < Suc n. in_ram (?b - 8 - 8 * of_nat i) \<and> in_ram (?d - 8 - 8 * of_nat i)"
    using wb wd ram unfolding R by auto
  have 2: "\<forall>i < Suc n. \<forall>j < Suc n. ?b - 8 - 8 * of_nat i \<noteq> ?d - 8 - 8 * of_nat j"
  proof (intro allI impI notI)
    fix i j assume ij: "i < Suc n" "j < Suc n" and "?b - 8 - 8 * of_nat i = ?d - 8 - 8 * of_nat j"
    from this(3) have "unat (?b - 8 - 8 * of_nat i) = unat (?d - 8 - 8 * of_nat j)" by (rule arg_cong)
    then have "b - 8 * Suc i = d - 8 * Suc j" unfolding wb [OF ij(1)] wd [OF ij(2)] .
    then show False using ij apart ram(1,3) by auto
  qed
  have 3: "\<forall>i < Suc n. \<forall>j < Suc n. ?d - 8 - 8 * of_nat i = ?d - 8 - 8 * of_nat j \<longrightarrow> i = j"
  proof (intro allI impI)
    fix i j assume ij: "i < Suc n" "j < Suc n" and "?d - 8 - 8 * of_nat i = ?d - 8 - 8 * of_nat j"
    then have "d - 8 * Suc i = d - 8 * Suc j" using wd [OF ij(1)] wd [OF ij(2)] by simp
    then show "i = j" using ij ram(3) by auto
  qed
  obtain m' where m': "ofold (\<lambda>i. copy_word (?b - 8 - 8 * of_nat i) (?d - 8 - 8 * of_nat i)) [0..<Suc n] (mem s) = Ret m'"
    and c: "\<forall>i < Suc n. pmem m' (?d - 8 - 8 * of_nat i) = pmem (mem s) (?b - 8 - 8 * of_nat i)"
    using copy_words [OF 1 2 3, of "mem s"] by blast
  have a0: "?d - 24 * 8 = ?d - 8 - 8 * of_nat 23" by simp
  have nn: "?b - sp_reg s = of_nat n" unfolding n [symmetric] by simp
  have fc: "fork_copies (?b - sp_reg s) = Suc n"
  proof -
    have "0 \<le> sint (?b - sp_reg s)"
      unfolding nn using assms(6) by (simp add: signed_of_nat signed_take_bit_int_eq_self)
    then show ?thesis using n by (simp add: fork_copies_def)
  qed
  define m2 where "m2 = m'\<lparr>pmem := (pmem m')(?d - 24 * 8 := 0)\<rparr>"
  have st: "store (?d - 24 * 8) 0 m' = Ret m2"
  proof -
    have "in_ram (?d - 24 * 8)" unfolding a0 using 1 [rule_format, of 23] assms(5) by fastforce
    then show ?thesis by (simp add: store_def m2_def)
  qed
  have "thread_finish_fork child cp s = Ret (s\<lparr>thr := (thr s)(tp s := (thr s (tp s))
      \<lparr>thr_context := \<lparr>ctx_s = s_regs s, ctx_ra = InFork cp, ctx_sp = sp_reg s\<rparr>\<rparr>),
      mem := m2, sp_reg := ?d - (?b - sp_reg s), tp := child, pc := InFork cp\<rparr>)"
    using m' st fc assms(4) unfolding thread_finish_fork_def by (simp add: Let_def del: upt_Suc)
  moreover have "pmem m2 (of_nat (d - 8 * Suc i)) = (if i = 23 then 0 else pmem (mem s) (of_nat (b - 8 * Suc i)))"
    if "i \<le> n" for i
  proof -
    have i: "i < Suc n" using that by simp
    have "?d - 8 - 8 * of_nat i = ?d - 8 - 8 * of_nat 23 \<longleftrightarrow> i = 23" using 3 i assms(5) by auto
    then have "pmem m2 (?d - 8 - 8 * of_nat i) = (if i = 23 then 0 else pmem (mem s) (?b - 8 - 8 * of_nat i))"
      using c i unfolding m2_def a0 by simp
    then show ?thesis unfolding eb [OF i] ed [OF i] .
  qed
  ultimately show ?thesis using nn ram(3) by auto
qed

text \<open>A parent with 600 bytes on its kernel stack, and a child whose stack page is at \<open>0x80400000\<close>.\<close>

definition demo_fork :: kstate where
  "demo_fork =
     (let s = boot_state 0x80010000 0x80011000 demo_heap;
          c = thr_context (thr s 0x80500000)
      in s\<lparr>tp := 0x80010000, sp_reg := 0x80020000 - 600,
           thr := (thr s)(0x80010000 := (thr s 0x80010000)\<lparr>stack_base := 0x80020000\<rparr>,
                          0x80500000 := (thr s 0x80500000)\<lparr>thr_context := c\<lparr>ctx_sp := 0x80400FF0\<rparr>\<rparr>)\<rparr>)"

theorem finish_fork_copies_too_much_witness:
  "\<exists>s'. thread_finish_fork 0x80500000 0 demo_fork = Ret s' \<and>
     pmem (mem s') (of_nat (0x80400FF0 - 8 * Suc 510)) = pmem (mem demo_fork) (of_nat (0x80020000 - 8 * Suc 510)) \<and>
     (0x80400FF0 - 8 * Suc 510 :: nat) < 0x80400000"
proof -
  have "\<exists>s'. thread_finish_fork 0x80500000 0 demo_fork = Ret s' \<and> tp s' = 0x80500000 \<and> pc s' = InFork 0 \<and>
    sp_reg s' = ctx_sp (thr_context (thr demo_fork 0x80500000)) - of_nat 600 \<and>
    (\<forall>i \<le> 600. pmem (mem s') (of_nat (0x80400FF0 - 8 * Suc i)) =
       (if i = 23 then 0 else pmem (mem demo_fork) (of_nat (0x80020000 - 8 * Suc i)))) \<and>
    (\<forall>p. 0x80400FF0 = p + 4080 \<longrightarrow> 510 \<le> (600 :: nat) \<longrightarrow> 0x80400FF0 - 8 * Suc 600 < p)"
    by (rule finish_fork_copies_too_much) (simp_all add: demo_fork_def Let_def)
  then show ?thesis by (auto dest!: spec [of _ 510])
qed

end
