(* ===== verification/Lock.thy ===== *)
theory Lock
  imports Kernel
begin

text \<open>
  \<^verbatim>\<open>kern/lock.h\<close>: sleep locks on condition variables. A lock is its condition variable, by address, and the id of
  the thread that holds it. \<open>lock_acquire\<close> blocks in \<open>condition_wait\<close>; its loop is a definition of its own, which the
  caller enters again when it is resumed. The last section puts locks into the transition system of the
  kernel and shows mutual exclusion.
\<close>

section \<open>Operations\<close>

record lock =
  lock_cond :: u64
  lock_tid :: int

definition lock_init :: "string \<Rightarrow> lock \<Rightarrow> kstate \<Rightarrow> lock \<times> kstate" where
  "lock_init name lk s =
     (let s = condition_init (lock_cond lk) name s in (lk\<lparr>lock_tid := - 1\<rparr>, s))"

definition lock_acquire_loop :: "bool \<Rightarrow> lock \<Rightarrow> kstate \<Rightarrow> (unit progress \<times> lock \<times> kstate) outcome" where
  "lock_acquire_loop saved lk s =
     (if lock_tid lk \<noteq> - 1 then obind (condition_wait (lock_cond lk) s) (\<lambda>s. Ret (Wait, lk, s))
      else Ret (Done (), lk\<lparr>lock_tid := running_thread s\<rparr>, intr_restore saved s))"

definition lock_acquire :: "lock \<Rightarrow> kstate \<Rightarrow> (unit progress \<times> lock \<times> kstate) outcome" where
  "lock_acquire lk s = (case intr_disable s of (saved, s) \<Rightarrow> lock_acquire_loop saved lk s)"

definition lock_release :: "lock \<Rightarrow> kstate \<Rightarrow> (lock \<times> kstate) outcome" where
  "lock_release lk s =
     obind (c_assert (lock_tid lk = running_thread s)) (\<lambda>_.
     let lk = lk\<lparr>lock_tid := - 1\<rparr> in
     obind (condition_broadcast (lock_cond lk) s) (\<lambda>s. Ret (lk, s)))"

text \<open>
  The drivers and the file system are modelled as seen by one thread: for thread \<open>tid\<close> the lock is a holder id,
  taking a lock that is held means waiting for another step of the system, \<open>Running\<close>, and releasing
  asserts that the thread is the holder.
\<close>

definition lk_acquire :: "int \<Rightarrow> int \<Rightarrow> int outcome" where
  "lk_acquire tid holder = (if holder \<noteq> - 1 then Running else Ret tid)"

definition lk_release :: "int \<Rightarrow> int \<Rightarrow> int outcome" where
  "lk_release tid holder = obind (c_assert (holder = tid)) (\<lambda>_. Ret (- 1))"

lemma lk_acquire_refines:
  "lk_acquire (running_thread s) (lock_tid lk) = Ret h \<longleftrightarrow>
     lock_acquire lk s = Ret (Done (), lk\<lparr>lock_tid := h\<rparr>, s) \<and> lock_tid lk = - 1 \<and> h = running_thread s"
  by (auto simp: lk_acquire_def lock_acquire_def lock_acquire_loop_def intr_disable_def intr_restore_def
      running_thread_def)

lemma lk_release_refines:
  "lk_release (running_thread s) (lock_tid lk) = Ret h \<Longrightarrow> lock_release lk s = Ret (lk', s') \<Longrightarrow>
     lk' = lk\<lparr>lock_tid := h\<rparr>"
  by (auto simp: lk_release_def lock_release_def)

section \<open>Locks over the scheduler\<close>

lemma sched_ok_sie [simp]: "sched_ok (s\<lparr>sie := b\<rparr>) a \<longleftrightarrow> sched_ok s a"
  by (simp add: sched_ok_def core_def queues_def placed_def table_def live_def)

lemma keeps_sie [simp]: "keeps (s\<lparr>sie := b\<rparr>) s' \<longleftrightarrow> keeps s s'" "keeps s (s'\<lparr>sie := b\<rparr>) \<longleftrightarrow> keeps s s'"
  by (simp_all add: keeps_def)

lemma keeps_refl: "keeps s s"
  by (simp add: keeps_def)

text \<open>The running thread has a valid id, so a lock that is held never looks free.\<close>

lemma running_thread_range:
  assumes "sched_ok s a"
  shows "0 \<le> running_thread s \<and> running_thread s < int NTHR"
proof -
  have "tp s \<in> live s" "table s" using assms by (auto simp: sched_ok_def core_def placed_def)
  then obtain i where "i < NTHR" "thrtab s ! i = tp s" "tp s \<noteq> 0"
    by (auto simp: live_def in_set_conv_nth table_def)
  with \<open>table s\<close> show ?thesis by (auto simp: running_thread_def table_def)
qed

lemma lock_acquire_loop_free:
  "lock_tid lk = - 1 \<Longrightarrow>
   lock_acquire_loop b lk s = Ret (Done (), lk\<lparr>lock_tid := running_thread s\<rparr>, s\<lparr>sie := b\<rparr>)"
  by (simp add: lock_acquire_loop_def intr_restore_def)

lemma lock_acquire_loop_held:
  assumes "sched_ok s a" and "tp s \<noteq> idle_thread s" and "lock_tid lk \<noteq> - 1"
  shows "\<exists>s'. lock_acquire_loop b lk s = Ret (Wait, lk, s') \<and> sched_ok s' (a_wait (lock_cond lk) a) \<and> keeps s s'"
  using condition_wait_step [OF assms(1,2), of "lock_cond lk"] assms(3) by (auto simp: lock_acquire_loop_def)

lemma lock_acquire_loop_step:
  assumes "sched_ok s a" and "tp s \<noteq> idle_thread s"
  shows "\<exists>r lk' s' a'. lock_acquire_loop b lk s = Ret (r, lk', s') \<and> sched_ok s' a' \<and> keeps s s' \<and>
    (r = Done () \<longleftrightarrow> lock_tid lk = - 1) \<and>
    lk' = (if lock_tid lk = - 1 then lk\<lparr>lock_tid := running_thread s\<rparr> else lk)"
proof (cases "lock_tid lk = - 1")
  case True
  then show ?thesis using lock_acquire_loop_free [OF True, of b s] assms(1) by (auto simp: keeps_refl)
next
  case False
  then show ?thesis using lock_acquire_loop_held [OF assms False, of b] by auto
qed

lemma lock_acquire_eq: "lock_acquire lk s = lock_acquire_loop (sie s) lk (s\<lparr>sie := False\<rparr>)"
  by (simp add: lock_acquire_def intr_disable_def)

lemma running_thread_sie [simp]: "running_thread (s\<lparr>sie := b\<rparr>) = running_thread s"
  by (simp add: running_thread_def)

lemma lock_acquire_step:
  assumes "sched_ok s a" and "tp s \<noteq> idle_thread s"
  shows "\<exists>r lk' s' a'. lock_acquire lk s = Ret (r, lk', s') \<and> sched_ok s' a' \<and> keeps s s' \<and>
    (r = Done () \<longleftrightarrow> lock_tid lk = - 1) \<and>
    lk' = (if lock_tid lk = - 1 then lk\<lparr>lock_tid := running_thread s\<rparr> else lk)"
  using lock_acquire_loop_step [of "s\<lparr>sie := False\<rparr>" a "sie s" lk] assms
  by (auto simp: lock_acquire_eq split: if_splits)

lemma lock_release_step:
  assumes "sched_ok s a" and "lock_tid lk = running_thread s"
  shows "\<exists>s'. lock_release lk s = Ret (lk\<lparr>lock_tid := - 1\<rparr>, s') \<and> sched_ok s' (a_wake (lock_cond lk) a) \<and> keeps s s'"
proof -
  have core: "core s a" and st: "state (thr s (tp s)) = THREAD_RUNNING" using assms by (auto simp: sched_ok_def)
  have "tp s \<notin> set (waiting a (lock_cond lk))" using coreD(6) [OF core] st by auto
  with condition_broadcast_step [OF core, of "lock_cond lk"] st assms(2) show ?thesis
    by (auto simp: sched_ok_def lock_release_def)
qed

section \<open>Mutual exclusion\<close>

text \<open>
  The transition system of the kernel with one lock: the set holds the ids of the threads that have returned from
  \<open>lock_acquire\<close> and have not called \<open>lock_release\<close> since.
\<close>

inductive lock_step :: "lock \<times> kstate \<times> int set \<Rightarrow> lock \<times> kstate \<times> int set \<Rightarrow> bool" where
  l_kernel: "kstep s s' \<Longrightarrow> lock_step (lk, s, cs) (lk, s', cs)"
| l_acquire: "tp s \<noteq> idle_thread s \<Longrightarrow> lock_acquire lk s = Ret (r, lk', s') \<Longrightarrow>
    lock_step (lk, s, cs) (lk', s', if r = Done () then insert (running_thread s) cs else cs)"
| l_resume: "tp s \<noteq> idle_thread s \<Longrightarrow> lock_acquire_loop saved lk s = Ret (r, lk', s') \<Longrightarrow>
    lock_step (lk, s, cs) (lk', s', if r = Done () then insert (running_thread s) cs else cs)"
| l_release: "lock_release lk s = Ret (lk', s') \<Longrightarrow>
    lock_step (lk, s, cs) (lk', s', cs - {running_thread s})"

inductive_cases lock_step_cases: "lock_step x y"

definition lock_inv :: "lock \<times> kstate \<times> int set \<Rightarrow> bool" where
  "lock_inv x \<longleftrightarrow> (case x of (lk, s, cs) \<Rightarrow>
     kinv s \<and> (if lock_tid lk = - 1 then cs = {} else cs = {lock_tid lk}))"

lemma kinv_sie [simp]: "kinv (s\<lparr>sie := b\<rparr>) = kinv s"
  by (simp add: kinv_def mem_ok_def live_def)

lemma acquire_inv:
  assumes "kinv s" and "tp s \<noteq> idle_thread s" and "lock_acquire_loop b lk s = Ret (r, lk', s')"
    and "lock_inv (lk, s, cs)"
  shows "lock_inv (lk', s', if r = Done () then insert (running_thread s) cs else cs)"
proof -
  obtain a ps used where w: "sched_ok s a" "mem_ok s ps used" using assms(1) by (auto simp: kinv_def)
  obtain a' where "sched_ok s' a'" "keeps s s'" "r = Done () \<longleftrightarrow> lock_tid lk = - 1"
    "lk' = (if lock_tid lk = - 1 then lk\<lparr>lock_tid := running_thread s\<rparr> else lk)"
    using lock_acquire_loop_step [OF w(1) assms(2), of b lk] assms(3) by auto
  moreover from this w(2) have "kinv s'" using kinv_keeps by blast
  moreover have "running_thread s \<noteq> - 1" using running_thread_range [OF w(1)] by simp
  ultimately show ?thesis using assms(4) by (auto simp: lock_inv_def)
qed

lemma lock_step_inv:
  assumes "lock_step x y" and inv: "lock_inv x"
  shows "lock_inv y"
  using assms(1)
proof cases
  case (l_kernel s s' lk cs)
  then show ?thesis using inv kstep_kinv by (auto simp: lock_inv_def)
next
  case (l_acquire s lk r lk' s' cs)
  have "lock_inv (lk, s\<lparr>sie := False\<rparr>, cs)" and "kinv (s\<lparr>sie := False\<rparr>)"
    using inv l_acquire(1) by (simp_all add: lock_inv_def)
  then show ?thesis using acquire_inv [of "s\<lparr>sie := False\<rparr>" "sie s" lk r lk' s' cs] l_acquire
    by (auto simp: lock_acquire_eq split: if_splits)
next
  case (l_resume s saved lk r lk' s' cs)
  then show ?thesis using inv acquire_inv [of s saved lk r lk' s' cs] by (simp add: lock_inv_def)
next
  case (l_release lk s lk' s' cs)
  then obtain a ps used where w: "sched_ok s a" "mem_ok s ps used" using inv by (auto simp: lock_inv_def kinv_def)
  have h: "lock_tid lk = running_thread s" using l_release(3) by (auto simp: lock_release_def)
  obtain "lk' = lk\<lparr>lock_tid := - 1\<rparr>" "sched_ok s' (a_wake (lock_cond lk) a)" "keeps s s'"
    using lock_release_step [OF w(1) h] l_release(3) by auto
  moreover from this w(2) have "kinv s'" using kinv_keeps by blast
  moreover have "running_thread s \<noteq> - 1" using running_thread_range [OF w(1)] by simp
  ultimately show ?thesis using inv l_release h by (auto simp: lock_inv_def)
qed

text \<open>
  C22: mutual exclusion. From a state in which the lock was initialised, whatever the threads and interrupt handlers do
  and in whatever order, at most one thread is between \<open>lock_acquire\<close> and \<open>lock_release\<close>, and it is the one the lock
  names; that thread can release the lock, and for any other the assertion of \<open>lock_release\<close> stops the kernel.
\<close>
theorem lock_mutual_exclusion:
  assumes "lock_init name lk0 s = (lk, s0)" and "kinv s0" and "rtranclp lock_step (lk, s0, {}) (lk', s', cs)"
  shows "cs = (if lock_tid lk' = - 1 then {} else {lock_tid lk'}) \<and>
    (running_thread s' \<in> cs \<longrightarrow> (\<exists>lk2 s2. lock_release lk' s' = Ret (lk2, s2))) \<and>
    (running_thread s' \<notin> cs \<longrightarrow> lock_release lk' s' = Panic ''ASSERTION FAILED'')"
proof -
  have "lock_inv (lk, s0, {})" using assms(1,2) by (auto simp: lock_inv_def lock_init_def Let_def)
  with assms(3) have inv: "lock_inv (lk', s', cs)"
    by (induction rule: rtranclp_induct) (auto intro: lock_step_inv)
  then obtain a ps used where w: "sched_ok s' a" by (auto simp: lock_inv_def kinv_def)
  have cs: "cs = (if lock_tid lk' = - 1 then {} else {lock_tid lk'})" using inv by (simp add: lock_inv_def)
  have r: "running_thread s' \<noteq> - 1" using running_thread_range [OF w] by simp
  have "\<exists>lk2 s2. lock_release lk' s' = Ret (lk2, s2)" if "running_thread s' = lock_tid lk'"
    using lock_release_step [OF w that [symmetric]] by blast
  moreover have "lock_release lk' s' = Panic ''ASSERTION FAILED''" if "running_thread s' \<noteq> lock_tid lk'"
    using that by (simp add: lock_release_def c_assert_def)
  ultimately show ?thesis using cs r by (simp add: cs)
qed

lemma demo_lock:
  "\<exists>s. demo_boot = Ret s \<and> tp s \<noteq> idle_thread s \<and>
     kinv (snd (lock_init ''l'' \<lparr>lock_cond = 0x80012000, lock_tid = 7\<rparr> s))"
proof -
  obtain s where s: "demo_boot = Ret s" "idle_thread s = 0x80011000" "mem s = demo_heap" "live s = {0x80010000, 0x80011000}"
    and w: "sched_ok s \<lparr>run = 0x80010000, ready = [0x80011000], waiting = (\<lambda>_. [])\<rparr>" using demo_boot_ok by blast
  have tp: "tp s = 0x80010000" using w by (simp add: sched_ok_def core_def placed_def)
  let ?s = "snd (lock_init ''l'' \<lparr>lock_cond = 0x80012000, lock_tid = 7\<rparr> s)"
  have "sched_ok ?s \<lparr>run = 0x80010000, ready = [0x80011000], waiting = (\<lambda>_. [])\<rparr>"
    using w tp by (simp add: sched_ok_def core_def queues_def placed_def table_def live_def lock_init_def condition_init_def
      tlist_def tlclear_def)
  moreover have "mem_ok ?s [0x80402000, 0x80401000] {0..<0x80100000}"
    using demo_used s by (simp add: mem_ok_def live_def lock_init_def condition_init_def bytes_def)
  ultimately have "kinv ?s" unfolding kinv_def by blast
  moreover have "tp s \<noteq> idle_thread s" using s(2) tp by simp
  ultimately show ?thesis using s(1) by blast
qed

theorem lock_mutual_exclusion_witness:
  "\<exists>s s0 s' lk lk'. lock_init ''l'' \<lparr>lock_cond = 0x80012000, lock_tid = 7\<rparr> s = (lk, s0) \<and> kinv s0 \<and>
     rtranclp lock_step (lk, s0, {}) (lk', s', {running_thread s0}) \<and> lock_tid lk' = running_thread s0"
proof -
  let ?lk = "\<lparr>lock_cond = 0x80012000, lock_tid = 7\<rparr>"
  obtain s where s: "tp s \<noteq> idle_thread s" "kinv (snd (lock_init ''l'' ?lk s))" using demo_lock by blast
  obtain lk s0 where i: "lock_init ''l'' ?lk s = (lk, s0)" by fastforce
  have k: "kinv s0" using s(2) i by simp
  have lk: "lock_tid lk = - 1" and tp: "tp s0 \<noteq> idle_thread s0"
    using s(1) i by (auto simp: lock_init_def Let_def condition_init_def)
  obtain lk' s' where a: "lock_acquire lk s0 = Ret (Done (), lk', s')"
    using lk by (simp add: lock_acquire_eq lock_acquire_loop_free)
  from l_acquire [OF tp a, of "{}"] have st: "rtranclp lock_step (lk, s0, {}) (lk', s', {running_thread s0})" by simp
  from lock_mutual_exclusion [OF i k st] have "lock_tid lk' = running_thread s0" by (auto split: if_splits)
  with i k st show ?thesis by blast
qed

text \<open>
  C23: the lock is handed over. If a thread \<open>t\<close> is the first of those that wait for the lock, and the holder releases
  it, then \<open>t\<close> runs after the ready threads before it have yielded, and if none of these took the lock, \<open>t\<close> leaves
  \<open>lock_acquire\<close> as the holder.
\<close>
theorem lock_handover:
  assumes "sched_ok s a" and "lock_tid lk = running_thread s" and "waiting a (lock_cond lk) = t # ts"
  shows "\<exists>lk' s1 s2 s3. lock_release lk s = Ret (lk', s1) \<and> yields (Suc (length (ready a))) s1 = Ret s2 \<and> tp s2 = t \<and>
    lock_acquire_loop b lk' s2 = Ret (Done (), lk'\<lparr>lock_tid := thr_id (thr s t)\<rparr>, s3)"
proof -
  obtain s1 where 1: "lock_release lk s = Ret (lk\<lparr>lock_tid := - 1\<rparr>, s1)"
    "sched_ok s1 (a_wake (lock_cond lk) a)" "keeps s s1" using lock_release_step [OF assms(1,2)] by blast
  have "ready (a_wake (lock_cond lk) a) = ready a @ t # ts" using assms(3) by (simp add: a_wake_def)
  from yields_run [OF 1(2) this] obtain s2 where 2: "yields (Suc (length (ready a))) s1 = Ret s2" "tp s2 = t"
    "keeps s1 s2" by blast
  have "running_thread s2 = thr_id (thr s t)"
    using 1(3) 2(2,3) by (simp add: running_thread_def keeps_def)
  then have "lock_acquire_loop b (lk\<lparr>lock_tid := - 1\<rparr>) s2 =
      Ret (Done (), (lk\<lparr>lock_tid := - 1\<rparr>)\<lparr>lock_tid := thr_id (thr s t)\<rparr>, s2\<lparr>sie := b\<rparr>)"
    using lock_acquire_loop_free [of "lk\<lparr>lock_tid := - 1\<rparr>" b s2] by simp
  with 1(1) 2(1,2) show ?thesis by blast
qed

theorem lock_handover_witness:
  "\<exists>s a lk' s1 s2 s3. sched_ok s a \<and> waiting a 0x80012000 = [0x80010000] \<and>
     lock_release \<lparr>lock_cond = 0x80012000, lock_tid = running_thread s\<rparr> s = Ret (lk', s1) \<and>
     yields 1 s1 = Ret s2 \<and> tp s2 = 0x80010000 \<and>
     lock_acquire_loop True lk' s2 = Ret (Done (), lk'\<lparr>lock_tid := thr_id (thr s 0x80010000)\<rparr>, s3)"
proof -
  let ?a0 = "\<lparr>run = 0x80010000, ready = [0x80011000], waiting = (\<lambda>_. [])\<rparr> :: sched"
  obtain s0 where s0: "idle_thread s0 = 0x80011000" "sched_ok s0 ?a0" using demo_boot_ok by blast
  have "tp s0 = 0x80010000" using s0(2) by (simp add: sched_ok_def core_def placed_def)
  with s0 obtain s where s: "sched_ok s (a_wait 0x80012000 ?a0)"
    using condition_wait_step [OF s0(2), of "0x80012000"] by auto
  have a: "a_wait 0x80012000 ?a0 =
      \<lparr>run = 0x80011000, ready = [], waiting = (\<lambda>_. [])(0x80012000 := [0x80010000])\<rparr>"
    by (simp add: a_wait_def a_next_def)
  have "waiting (a_wait 0x80012000 ?a0) (lock_cond \<lparr>lock_cond = 0x80012000, lock_tid = running_thread s\<rparr>) = 0x80010000 # []"
    by (simp add: a)
  from lock_handover [OF s _ this, of True]
  have "\<exists>lk' s1 s2 s3. lock_release \<lparr>lock_cond = 0x80012000, lock_tid = running_thread s\<rparr> s = Ret (lk', s1) \<and>
     yields 1 s1 = Ret s2 \<and> tp s2 = 0x80010000 \<and>
     lock_acquire_loop True lk' s2 = Ret (Done (), lk'\<lparr>lock_tid := thr_id (thr s 0x80010000)\<rparr>, s3)"
    unfolding a by (simp del: yields.simps)
  moreover have "waiting (a_wait 0x80012000 ?a0) 0x80012000 = [0x80010000]" by (simp add: a)
  ultimately show ?thesis using s by blast
qed

end
