(* ===== verification/Kfs.thy ===== *)
theory Kfs
  imports Io Lock
begin

text \<open>
  \<^verbatim>\<open>kern/kfs.c\<close> and \<^verbatim>\<open>kern/fs.h\<close>: the file system on a device given by its I/O operations. The calls are seen from one
  thread \<open>tid\<close>; a call that finds the lock held by another thread waits, which is the outcome \<open>Running\<close>.
\<close>

section \<open>On-disk structures\<close>

text \<open>
  The boot block and an inode are blocks of bytes: \<open>num_inodes\<close> is the second word of the boot block, the directory
  starts at byte 64 with entries of 64 bytes (a name of 32 bytes, then the inode number), and an inode has the length of
  the file followed by the block numbers.
\<close>

definition FS_BLKSZ :: u64 where "FS_BLKSZ = 4096"
definition DIR_ENTRY_CT :: nat where "DIR_ENTRY_CT = 63"
definition DIR_ENTRY_SZ :: nat where "DIR_ENTRY_SZ = 64"
definition FS_NAMELEN :: nat where "FS_NAMELEN = 32"
definition DATA_BLOCK_NUM :: nat where "DATA_BLOCK_NUM = 1023"
definition MAX_OPEN_FILE_CT :: nat where "MAX_OPEN_FILE_CT = 32"
definition IN_USE :: u64 where "IN_USE = 1"
definition UNUSED :: u64 where "UNUSED = 0"

definition le32 :: "u8 list \<Rightarrow> nat \<Rightarrow> u32" where
  "le32 bs i = ucast (bs ! i) OR push_bit 8 (ucast (bs ! (i + 1))) OR push_bit 16 (ucast (bs ! (i + 2))) OR
     push_bit 24 (ucast (bs ! (i + 3)))"

definition num_inodes :: "u8 list \<Rightarrow> u32" where
  "num_inodes boot = le32 boot 4"

definition dir_name :: "u8 list \<Rightarrow> nat \<Rightarrow> u8 list" where
  "dir_name boot i = drop (DIR_ENTRY_SZ + DIR_ENTRY_SZ * i) boot"

definition dir_inode :: "u8 list \<Rightarrow> nat \<Rightarrow> u32" where
  "dir_inode boot i = le32 boot (DIR_ENTRY_SZ + DIR_ENTRY_SZ * i + FS_NAMELEN)"

definition byte_len :: "u8 list \<Rightarrow> u32" where
  "byte_len ino = le32 ino 0"

definition data_block_num :: "u8 list \<Rightarrow> nat \<Rightarrow> u32 outcome" where
  "data_block_num ino i = (if i < DATA_BLOCK_NUM then Ret (le32 ino (4 + 4 * i)) else Fault)"

section \<open>State\<close>

text \<open>
  An open file is named by the address of its \<open>struct io_intf\<close>. The state \<open>'s\<close> is that of the device \<open>system_io\<close>;
  \<open>flk\<close> is the id of the thread that holds the lock, or -1. \<open>heap_junk\<close> is what the heap blocks hold that
  receive an inode before it is read.
\<close>

record file_t =
  f_io_intf :: u64
  file_position :: u64
  file_size :: u64
  f_inode :: u64
  usage_flag :: u64

record 's fs =
  opened_files :: "file_t list"
  system_io :: 's
  super_block :: "u8 list"
  flk :: int
  f_refcnt :: "u64 \<Rightarrow> u32"
  heap_junk :: "u8 list"

definition fs_lock :: "int \<Rightarrow> 's fs \<Rightarrow> 's fs outcome" where
  "fs_lock tid f = obind (lk_acquire tid (flk f)) (\<lambda>h. Ret (f\<lparr>flk := h\<rparr>))"

definition fs_unlock :: "int \<Rightarrow> 's fs \<Rightarrow> 's fs outcome" where
  "fs_unlock tid f = obind (lk_release tid (flk f)) (\<lambda>h. Ret (f\<lparr>flk := h\<rparr>))"

text \<open>Calls of the device: \<open>ioctl(system_io, IOCTL_SETPOS, &pos)\<close>, and a full read into a block of old contents \<open>old\<close>.\<close>

definition sys_seek :: "'s io_ops \<Rightarrow> u64 \<Rightarrow> 's fs \<Rightarrow> 's fs outcome" where
  "sys_seek ops pos f =
     obind (ioctl ops IOCTL_SETPOS pos (system_io f)) (\<lambda>(_, _, s). Ret (f\<lparr>system_io := s\<rparr>))"

definition overlay :: "u8 list \<Rightarrow> nat \<Rightarrow> u8 list \<Rightarrow> u8 list outcome" where
  "overlay buf i bs =
     (if i + length bs \<le> length buf then Ret (take i buf @ bs @ drop (i + length bs) buf) else Fault)"

definition sys_read :: "'s io_ops \<Rightarrow> nat \<Rightarrow> 's fs \<Rightarrow> (int \<times> u8 list \<times> 's fs) outcome" where
  "sys_read ops n f =
     obind (ioread_full ops n (system_io f)) (\<lambda>(r, bs, s). Ret (r, bs, f\<lparr>system_io := s\<rparr>))"

section \<open>Mounting, opening and closing\<close>

definition fs_mount :: "'s io_ops \<Rightarrow> 's \<Rightarrow> 's fs \<Rightarrow> (int \<times> 's fs) outcome" where
  "fs_mount ops io f =
     (let f = f\<lparr>system_io := io, flk := - 1\<rparr> in
      obind (sys_read ops (unat FS_BLKSZ) f) (\<lambda>(read_result, bs, f).
      obind (overlay (super_block f) 0 bs) (\<lambda>blk.
      let f = f\<lparr>super_block := blk\<rparr> in
      Ret (if read_result < 0 then - EFILESYS else 0, f))))"

text \<open>The loop of \<open>fs_open\<close> over the directory entries from \<open>i\<close> on: the inode of the first one with this name, or -1.\<close>

fun dir_lookup :: "nat \<Rightarrow> nat \<Rightarrow> u8 list \<Rightarrow> u8 list \<Rightarrow> u32 outcome" where
  "dir_lookup 0 i boot name = Ret (- 1)"
| "dir_lookup (Suc k) i boot name =
     obind (strcmp (Some (dir_name boot i)) (Some name)) (\<lambda>c.
       if c = 0 then Ret (dir_inode boot i) else dir_lookup k (Suc i) boot name)"

fun slot_of :: "u64 \<Rightarrow> file_t list \<Rightarrow> nat \<Rightarrow> nat option" where
  "slot_of io [] i = None"
| "slot_of io (x # xs) i = (if f_io_intf x = io then Some i else slot_of io xs (Suc i))"

text \<open>
  \<open>fs_open\<close>; \<open>new_io\<close> is the address that \<open>kmalloc\<close> returns for the new object. The result carries the value stored
  in \<open>*io\<close>, if one is stored.
\<close>

definition fs_open ::
    "'s io_ops \<Rightarrow> int \<Rightarrow> u64 \<Rightarrow> u8 list \<Rightarrow> 's fs \<Rightarrow> (int \<times> u64 option \<times> 's fs) outcome" where
  "fs_open ops tid new_io name f =
     obind (fs_lock tid f) (\<lambda>f.
     obind (dir_lookup DIR_ENTRY_CT 0 (super_block f) name) (\<lambda>requested_inode.
     if requested_inode = - 1 then Ret (- ENOENT, None, f)
     else
       obind (sys_seek ops (ucast (4096 * requested_inode + 4096 :: u32)) f) (\<lambda>f.
       case op_read ops of None \<Rightarrow> Fault
       | Some rd \<Rightarrow>
           obind (rd (unat FS_BLKSZ) (system_io f)) (\<lambda>(read_result, bs, s).
           let f = f\<lparr>system_io := s\<rparr> in
           if read_result < 0 then Ret (- EFILESYS, None, f)
           else
             obind (overlay (heap_junk f) 0 bs) (\<lambda>file_struct.
             let f = f\<lparr>f_refcnt := (f_refcnt f)(new_io := 1)\<rparr> in
             case slot_of 0 (opened_files f) 0 of
               None \<Rightarrow> Ret (- EFILESYS, Some new_io, f)
             | Some i \<Rightarrow>
                 let f = f\<lparr>opened_files := (opened_files f)[i :=
                       \<lparr>f_io_intf = new_io, file_position = 0, file_size = ucast (byte_len file_struct),
                        f_inode = ucast requested_inode, usage_flag = IN_USE\<rparr>]\<rparr> in
                 obind (fs_unlock tid f) (\<lambda>f. Ret (0, Some new_io, f)))))))"

definition fs_close :: "u64 \<Rightarrow> 's fs \<Rightarrow> 's fs" where
  "fs_close io f =
     (case slot_of io (opened_files f) 0 of
        None \<Rightarrow> f
      | Some i \<Rightarrow>
          let r = f_refcnt f io - 1;
              f = f\<lparr>f_refcnt := (f_refcnt f)(io := r)\<rparr>
          in if r \<le> 0
             then f\<lparr>opened_files := (opened_files f)[i := (opened_files f ! i)\<lparr>usage_flag := UNUSED\<rparr>]\<rparr>
             else f)"

section \<open>Control\<close>

text \<open>The argument is accessed as an \<open>int\<close>: the low half of the cell.\<close>

definition fs_getlen :: "file_t \<Rightarrow> u64 \<Rightarrow> int \<times> u64" where
  "fs_getlen fd arg = (let arg = set_low (file_size fd) arg in (int_of arg, arg))"

definition fs_getpos :: "file_t \<Rightarrow> u64 \<Rightarrow> int \<times> u64" where
  "fs_getpos fd arg = (let arg = set_low (file_position fd) arg in (int_of arg, arg))"

definition fs_setpos :: "file_t \<Rightarrow> u64 \<Rightarrow> int \<times> file_t" where
  "fs_setpos fd arg = (int_of arg, fd\<lparr>file_position := of_int (int_of arg)\<rparr>)"

definition fs_getblksz :: "file_t \<Rightarrow> u64 \<Rightarrow> int \<times> u64" where
  "fs_getblksz fd arg = (let arg = set_low FS_BLKSZ arg in (int_of arg, arg))"

text \<open>The slot \<open>fs_ioctl\<close> works on: the last one with this object.\<close>

definition last_slot :: "u64 \<Rightarrow> file_t list \<Rightarrow> nat option" where
  "last_slot io xs =
     (case filter (\<lambda>i. f_io_intf (xs ! i) = io) [0..<length xs] of [] \<Rightarrow> None | is \<Rightarrow> Some (last is))"

definition fs_ioctl :: "int \<Rightarrow> u64 \<Rightarrow> int \<Rightarrow> u64 \<Rightarrow> 's fs \<Rightarrow> (int \<times> u64 \<times> 's fs) outcome" where
  "fs_ioctl tid io cmd arg f =
     (case last_slot io (opened_files f) of
        None \<Rightarrow> Ret (- EFILESYS, arg, f)
      | Some i \<Rightarrow>
          obind (fs_lock tid f) (\<lambda>f.
          let fd = opened_files f ! i;
              (ret, arg, fd) =
                (if cmd = IOCTL_GETLEN then case fs_getlen fd arg of (r, arg) \<Rightarrow> (r, arg, fd)
                 else if cmd = IOCTL_GETPOS then case fs_getpos fd arg of (r, arg) \<Rightarrow> (r, arg, fd)
                 else if cmd = IOCTL_SETPOS then case fs_setpos fd arg of (r, fd) \<Rightarrow> (r, arg, fd)
                 else if cmd = IOCTL_GETBLKSZ then case fs_getblksz fd arg of (r, arg) \<Rightarrow> (r, arg, fd)
                 else (- EFILESYS, arg, fd));
              f = f\<lparr>opened_files := (opened_files f)[i := fd]\<rparr>
          in obind (fs_unlock tid f) (\<lambda>f. Ret (ret, arg, f))))"

section \<open>Reading and writing\<close>

text \<open>
  The split of a transfer of \<open>n\<close> bytes at \<open>pos\<close>: the bytes up to the next block boundary, the number of whole blocks, and
  the rest; all in 64-bit arithmetic.
\<close>

definition fs_split :: "u64 \<Rightarrow> u64 \<Rightarrow> u64 \<times> u64 \<times> u64" where
  "fs_split pos n =
     (let leading = pos mod FS_BLKSZ;
          leading_compensation = FS_BLKSZ - leading;
          leading_compensation = (if leading_compensation = FS_BLKSZ then 0 else leading_compensation);
          cycle = (n - leading_compensation) div FS_BLKSZ;
          remainder = (n - leading_compensation) mod FS_BLKSZ
      in if n < leading_compensation then (0, 0, n) else (leading_compensation, cycle, remainder))"

text \<open>The position of a data block on the device; the sum and the product are 32-bit.\<close>

definition block_pos :: "u8 list \<Rightarrow> u8 list \<Rightarrow> nat \<Rightarrow> u64 outcome" where
  "block_pos boot ino i = obind (data_block_num ino i) (\<lambda>b. Ret (ucast ((b + num_inodes boot) * 4096 + 4096)))"

function fs_read_loop ::
    "'s io_ops \<Rightarrow> u8 list \<Rightarrow> nat \<Rightarrow> u64 \<Rightarrow> u64 \<Rightarrow> u64 \<Rightarrow> nat \<Rightarrow> u8 list \<Rightarrow> 's fs \<Rightarrow> (u8 list \<times> 's fs) outcome" where
  "fs_read_loop ops ino i lc cycle remainder idx buf f =
     (if i < DATA_BLOCK_NUM then
        if lc \<noteq> 0 then
          obind (sys_read ops (unat lc) f) (\<lambda>(_, bs, f).
          obind (overlay buf idx bs) (\<lambda>buf.
          obind (block_pos (super_block f) ino (i + 1)) (\<lambda>buffer_start.
          obind (sys_seek ops buffer_start f) (\<lambda>f.
            fs_read_loop ops ino (i + 1) 0 cycle remainder (idx + unat lc) buf f))))
        else if cycle = 0 then
          obind (sys_read ops (unat remainder) f) (\<lambda>(_, bs, f).
          obind (overlay buf idx bs) (\<lambda>buf. Ret (buf, f)))
        else
          obind (sys_read ops (unat FS_BLKSZ) f) (\<lambda>(_, bs, f).
          obind (overlay buf idx bs) (\<lambda>buf.
          obind (block_pos (super_block f) ino (i + 1)) (\<lambda>buffer_start.
          obind (sys_seek ops buffer_start f) (\<lambda>f.
            fs_read_loop ops ino (i + 1) 0 (cycle - 1) remainder (idx + unat FS_BLKSZ) buf f))))
      else Ret (buf, f))"
  by pat_completeness auto
termination
  by (relation "measure (\<lambda>(ops, ino, i, lc, cycle, remainder, idx, buf, f). DATA_BLOCK_NUM - i)") auto

declare fs_read_loop.simps [simp del]

text \<open>The inode of an open file, read from the device; \<open>n\<close> cut at the end of the file.\<close>

definition read_inode :: "'s io_ops \<Rightarrow> u64 \<Rightarrow> 's fs \<Rightarrow> (u8 list \<times> 's fs) outcome" where
  "read_inode ops inode f =
     obind (sys_seek ops (inode * FS_BLKSZ + FS_BLKSZ) f) (\<lambda>f.
     obind (sys_read ops (unat FS_BLKSZ) f) (\<lambda>(_, bs, f).
     obind (overlay (heap_junk f) 0 bs) (\<lambda>ino. Ret (ino, f))))"

definition cut_at_end :: "u8 list \<Rightarrow> u64 \<Rightarrow> u64 \<Rightarrow> u64" where
  "cut_at_end ino pos n = (if pos + n > ucast (byte_len ino) then ucast (byte_len ino) - pos else n)"

definition file_inode :: "u64 \<Rightarrow> 's fs \<Rightarrow> u64" where
  "file_inode io f = (case slot_of io (opened_files f) 0 of None \<Rightarrow> - 1 | Some i \<Rightarrow> f_inode (opened_files f ! i))"

text \<open>\<open>fs_read\<close> into a buffer with contents \<open>buf\<close>; \<open>n\<close> is its length.\<close>

definition fs_read :: "'s io_ops \<Rightarrow> int \<Rightarrow> u64 \<Rightarrow> u8 list \<Rightarrow> 's fs \<Rightarrow> (int \<times> u8 list \<times> 's fs) outcome" where
  "fs_read ops tid io buf f =
     obind (fs_ioctl tid io IOCTL_GETPOS 0 f) (\<lambda>(r, _, f).
     let read_position = of_int r;
         inode = file_inode io f
     in if inode = - 1 then Ret (- EFILESYS, buf, f)
     else
       obind (fs_lock tid f) (\<lambda>f.
       obind (read_inode ops inode f) (\<lambda>(ino, f).
       let n = cut_at_end ino read_position (of_nat (length buf)) in
       obind (fs_unlock tid f) (\<lambda>f.
       obind (fs_lock tid f) (\<lambda>f.
       let (leading_compensation, cycle, remainder) = fs_split read_position n;
           block_passed = unat (read_position div FS_BLKSZ)
       in
       obind (block_pos (super_block f) ino block_passed) (\<lambda>buffer_start.
       obind (sys_seek ops (buffer_start + read_position mod FS_BLKSZ) f) (\<lambda>f.
       obind (fs_read_loop ops ino block_passed leading_compensation cycle remainder 0 buf f) (\<lambda>(buf, f).
       obind (fs_unlock tid f) (\<lambda>f.
       obind (fs_ioctl tid io IOCTL_SETPOS (read_position + n) f) (\<lambda>(_, _, f).
       Ret (long_of n, buf, f)))))))))))"

definition sys_write :: "'s io_ops \<Rightarrow> u8 list \<Rightarrow> nat \<Rightarrow> nat \<Rightarrow> 's fs \<Rightarrow> 's fs outcome" where
  "sys_write ops buf idx n f =
     (if idx + n \<le> length buf
      then obind (iowrite ops (take n (drop idx buf)) (system_io f)) (\<lambda>(_, s). Ret (f\<lparr>system_io := s\<rparr>))
      else Fault)"

function fs_write_loop ::
    "'s io_ops \<Rightarrow> u8 list \<Rightarrow> nat \<Rightarrow> u64 \<Rightarrow> u64 \<Rightarrow> u64 \<Rightarrow> nat \<Rightarrow> u8 list \<Rightarrow> 's fs \<Rightarrow> 's fs outcome" where
  "fs_write_loop ops ino i lc cycle remainder idx buf f =
     (if i < DATA_BLOCK_NUM then
        if lc \<noteq> 0 then
          obind (sys_write ops buf idx (unat lc) f) (\<lambda>f.
          obind (block_pos (super_block f) ino (i + 1)) (\<lambda>buffer_start.
          obind (sys_seek ops buffer_start f) (\<lambda>f.
            fs_write_loop ops ino (i + 1) 0 cycle remainder (idx + unat lc) buf f)))
        else if cycle = 0 then sys_write ops buf idx (unat remainder) f
        else
          obind (sys_write ops buf idx (unat FS_BLKSZ) f) (\<lambda>f.
          obind (block_pos (super_block f) ino (i + 1)) (\<lambda>buffer_start.
          obind (sys_seek ops buffer_start f) (\<lambda>f.
            fs_write_loop ops ino (i + 1) 0 (cycle - 1) remainder (idx + unat FS_BLKSZ) buf f)))
      else Ret f)"
  by pat_completeness auto
termination
  by (relation "measure (\<lambda>(ops, ino, i, lc, cycle, remainder, idx, buf, f). DATA_BLOCK_NUM - i)") auto

declare fs_write_loop.simps [simp del]

text \<open>\<open>fs_write\<close>; here the device's control operation is called without a test for null.\<close>

definition fs_write :: "'s io_ops \<Rightarrow> int \<Rightarrow> u64 \<Rightarrow> u8 list \<Rightarrow> 's fs \<Rightarrow> (int \<times> 's fs) outcome" where
  "fs_write ops tid io buf f =
     obind (fs_ioctl tid io IOCTL_GETPOS 0 f) (\<lambda>(r, _, f).
     let write_position = of_int r;
         inode = file_inode io f
     in if inode = - 1 then Ret (- EFILESYS, f)
     else
       obind (fs_lock tid f) (\<lambda>f.
       if op_ctl ops = None then Fault else
       obind (read_inode ops inode f) (\<lambda>(ino, f).
       let n = cut_at_end ino write_position (of_nat (length buf)) in
       obind (fs_unlock tid f) (\<lambda>f.
       let (leading_compensation, cycle, remainder) = fs_split write_position n;
           block_passed = unat (write_position div FS_BLKSZ)
       in
       obind (block_pos (super_block f) ino block_passed) (\<lambda>buffer_start.
       obind (sys_seek ops (buffer_start + write_position mod FS_BLKSZ) f) (\<lambda>f.
       obind (fs_lock tid f) (\<lambda>f.
       obind (fs_write_loop ops ino block_passed leading_compensation cycle remainder 0 buf f) (\<lambda>f.
       obind (fs_unlock tid f) (\<lambda>f.
       obind (fs_ioctl tid io IOCTL_SETPOS (write_position + n) f) (\<lambda>(_, _, f).
       Ret (long_of n, f)))))))))))"

end
