(* ===== verification/Elf.thy ===== *)
theory Elf
  imports Kfs Memory
begin

text \<open>
  \<^verbatim>\<open>kern/elf.c\<close>: the loader of executables, from any I/O object into the user part of the active memory space.
\<close>

section \<open>Headers\<close>

text \<open>
  An ELF header is 64 bytes and a program header 56 bytes; the members are read from the bytes at their offsets,
  least significant byte first.
\<close>

definition le16 :: "u8 list \<Rightarrow> nat \<Rightarrow> u16" where
  "le16 bs i = ucast (bs ! i) OR push_bit 8 (ucast (bs ! (i + 1)))"

definition le64 :: "u8 list \<Rightarrow> nat \<Rightarrow> u64" where
  "le64 bs i = ucast (le32 bs i) OR push_bit 32 (ucast (le32 bs (i + 4)))"

definition e_machine :: "u8 list \<Rightarrow> u16" where "e_machine h = le16 h 18"
definition e_entry :: "u8 list \<Rightarrow> u64" where "e_entry h = le64 h 24"
definition e_phoff :: "u8 list \<Rightarrow> u64" where "e_phoff h = le64 h 32"
definition e_phentsize :: "u8 list \<Rightarrow> u16" where "e_phentsize h = le16 h 54"
definition e_phnum :: "u8 list \<Rightarrow> u16" where "e_phnum h = le16 h 56"

definition p_type :: "u8 list \<Rightarrow> u32" where "p_type p = le32 p 0"
definition p_flags :: "u8 list \<Rightarrow> u32" where "p_flags p = le32 p 4"
definition p_offset :: "u8 list \<Rightarrow> u64" where "p_offset p = le64 p 8"
definition p_vaddr :: "u8 list \<Rightarrow> u64" where "p_vaddr p = le64 p 16"
definition p_filesz :: "u8 list \<Rightarrow> u64" where "p_filesz p = le64 p 32"
definition p_memsz :: "u8 list \<Rightarrow> u64" where "p_memsz p = le64 p 40"

definition sizeof_Ehdr :: nat where "sizeof_Ehdr = 64"
definition sizeof_Phdr :: nat where "sizeof_Phdr = 56"

definition READ_FAILURE :: int where "READ_FAILURE = 1"
definition DATA_SHORTAGE :: int where "DATA_SHORTAGE = 2"
definition MAGIC :: int where "MAGIC = 3"
definition CLASS :: int where "CLASS = 4"
definition LITTLE_ENDIAN :: int where "LITTLE_ENDIAN = 5"
definition ABI :: int where "ABI = 6"
definition MACHINE :: int where "MACHINE = 7"
definition PROG_READ_FAILURE :: int where "PROG_READ_FAILURE = 8"
definition PROG_ADDR :: int where "PROG_ADDR = 9"
definition PROG_SEC_READ :: int where "PROG_SEC_READ = 10"

lemmas elf_errors = READ_FAILURE_def DATA_SHORTAGE_def MAGIC_def CLASS_def LITTLE_ENDIAN_def ABI_def MACHINE_def
  PROG_READ_FAILURE_def PROG_ADDR_def PROG_SEC_READ_def

definition RISCV :: u16 where "RISCV = 0xF3"
definition PT_LOAD :: u32 where "PT_LOAD = 1"
definition PT_X :: u32 where "PT_X = 1"
definition PT_W :: u32 where "PT_W = 2"
definition PT_R :: u32 where "PT_R = 4"

definition flag_convert :: "u32 \<Rightarrow> u8" where
  "flag_convert flags =
     (let pte_flags = 0;
          pte_flags = (if flags AND PT_X \<noteq> 0 then pte_flags OR PTE_X else pte_flags);
          pte_flags = (if flags AND PT_W \<noteq> 0 then pte_flags OR PTE_W else pte_flags);
          pte_flags = (if flags AND PT_R \<noteq> 0 then pte_flags OR PTE_R else pte_flags)
      in pte_flags)"

section \<open>Loading\<close>

text \<open>The checks of the header, in order; 0 if all pass.\<close>

definition elf_check :: "int \<Rightarrow> u8 list \<Rightarrow> int" where
  "elf_check result h =
     (if result < 0 then - READ_FAILURE
      else if result < int sizeof_Ehdr then - DATA_SHORTAGE
      else if h ! 0 \<noteq> 0x7F \<or> h ! 1 \<noteq> 0x45 \<or> h ! 2 \<noteq> 0x4C \<or> h ! 3 \<noteq> 0x46 then - MAGIC
      else if h ! 4 \<noteq> 2 then - CLASS
      else if h ! 5 \<noteq> 1 then - LITTLE_ENDIAN
      else if h ! 7 \<noteq> 0 then - ABI
      else if e_machine h \<noteq> RISCV then - MACHINE
      else 0)"

text \<open>
  The state of a load: the device and the memory. Stores of the kernel to a user address go through the page
  tables in hardware: that is the argument \<open>vstore\<close>. A variable that is not completely overwritten by a short read keeps
  what was on the stack, \<open>junk\<close>; \<open>flagfn\<close> says how the flags of the segment become those of its pages.
\<close>

type_synonym vstore = "u64 \<Rightarrow> u8 list \<Rightarrow> mstate \<Rightarrow> mstate outcome"

definition elf_segment ::
    "'s io_ops \<Rightarrow> vstore \<Rightarrow> (u8 \<Rightarrow> u8) \<Rightarrow> u8 list \<Rightarrow> 's \<Rightarrow> mstate \<Rightarrow> (int \<times> 's \<times> mstate) outcome" where
  "elf_segment ops vstore flagfn ph s m =
     (if p_vaddr ph < USER_START_VMA \<or> p_vaddr ph + p_filesz ph > USER_END_VMA then Ret (- PROG_ADDR, s, m)
      else
        obind (memory_alloc_and_map_range (p_vaddr ph) (p_filesz ph) (PTE_R OR PTE_W) m) (\<lambda>(_, m).
        obind (ioseek ops (p_offset ph) s) (\<lambda>(_, s).
        obind (ioread_full ops (unat (p_filesz ph)) s) (\<lambda>(prog_result, bs, s).
        obind (vstore (p_vaddr ph) bs m) (\<lambda>m.
        obind (memory_set_range_flags (p_vaddr ph) (p_filesz ph) (flagfn (flag_convert (p_flags ph))) m) (\<lambda>m.
        if (of_int prog_result :: u64) < p_filesz ph then Ret (- PROG_SEC_READ, s, m)
        else Ret (0, s, m)))))))"

text \<open>The offset \<open>i * e_phentsize\<close> is an \<open>int\<close> product; its overflow is undefined behaviour, the outcome \<open>Fault\<close>.\<close>

fun elf_phdrs ::
    "nat \<Rightarrow> nat \<Rightarrow> 's io_ops \<Rightarrow> vstore \<Rightarrow> (u8 \<Rightarrow> u8) \<Rightarrow> (nat \<Rightarrow> u8 list) \<Rightarrow> u8 list \<Rightarrow> 's \<Rightarrow> mstate \<Rightarrow>
     (int \<times> 's \<times> mstate) outcome" where
  "elf_phdrs 0 i ops vstore flagfn junk h s m = Ret (0, s, m)"
| "elf_phdrs (Suc k) i ops vstore flagfn junk h s m =
     (if 2 ^ 31 \<le> i * unat (e_phentsize h) then Fault else
     obind (ioseek ops (e_phoff h + of_nat (i * unat (e_phentsize h))) s) (\<lambda>(_, s).
     obind (ioread_full ops sizeof_Phdr s) (\<lambda>(result_2, bs, s).
     if result_2 < 0 then Ret (- PROG_READ_FAILURE, s, m)
     else
       obind (overlay (junk i) 0 bs) (\<lambda>ph.
       if p_type ph = PT_LOAD then
         obind (elf_segment ops vstore flagfn ph s m) (\<lambda>(r, s, m).
           if r < 0 then Ret (r, s, m) else elf_phdrs k (Suc i) ops vstore flagfn junk h s m)
       else elf_phdrs k (Suc i) ops vstore flagfn junk h s m))))"

definition elf_load_with ::
    "'s io_ops \<Rightarrow> vstore \<Rightarrow> (u8 \<Rightarrow> u8) \<Rightarrow> (nat \<Rightarrow> u8 list) \<Rightarrow> u8 list \<Rightarrow> 's \<Rightarrow> mstate \<Rightarrow>
     (int \<times> u64 option \<times> 's \<times> mstate) outcome" where
  "elf_load_with ops vstore flagfn junk ejunk s m =
     obind (ioread_full ops sizeof_Ehdr s) (\<lambda>(result, bs, s).
     obind (overlay ejunk 0 bs) (\<lambda>h.
     let c = elf_check result h in
     if c < 0 then Ret (c, None, s, m)
     else
       obind (elf_phdrs (unat (e_phnum h)) 0 ops vstore flagfn junk h s m) (\<lambda>(r, s, m).
       if r < 0 then Ret (r, None, s, m) else Ret (0, Some (e_entry h), s, m))))"

text \<open>\<open>elf_load\<close> makes a segment accessible in user mode with its own flags; the test version can withhold execution.\<close>

definition elf_load ::
    "'s io_ops \<Rightarrow> vstore \<Rightarrow> (nat \<Rightarrow> u8 list) \<Rightarrow> u8 list \<Rightarrow> 's \<Rightarrow> mstate \<Rightarrow> (int \<times> u64 option \<times> 's \<times> mstate) outcome" where
  "elf_load ops vstore junk ejunk s m = elf_load_with ops vstore (\<lambda>fl. fl OR PTE_U) junk ejunk s m"

definition elf_load_for_test_use ::
    "'s io_ops \<Rightarrow> vstore \<Rightarrow> (nat \<Rightarrow> u8 list) \<Rightarrow> u8 list \<Rightarrow> u8 \<Rightarrow> 's \<Rightarrow> mstate \<Rightarrow>
     (int \<times> u64 option \<times> 's \<times> mstate) outcome" where
  "elf_load_for_test_use ops vstore junk ejunk rwxug_flags s m =
     elf_load_with ops vstore
       (\<lambda>fl. if rwxug_flags = PTE_X then (fl OR PTE_U) AND NOT PTE_X else fl OR PTE_U) junk ejunk s m"

section \<open>Properties\<close>

definition elf_valid :: "u8 list \<Rightarrow> bool" where
  "elf_valid h \<longleftrightarrow> take 6 h = [0x7F, 0x45, 0x4C, 0x46, 2, 1] \<and> h ! 7 = 0 \<and> e_machine h = RISCV"

lemma elf_check_valid:
  assumes "64 \<le> length h"
  shows "elf_check r h = 0 \<longleftrightarrow> 64 \<le> r \<and> elf_valid h"
proof -
  have "take 6 h = [h ! 0, h ! 1, h ! 2, h ! 3, h ! 4, h ! 5]"
    using assms by (intro nth_equalityI) (auto simp: nth_Cons numeral_eq_Suc less_Suc_eq split: nat.splits)
  then show ?thesis by (auto simp: elf_check_def elf_valid_def elf_errors sizeof_Ehdr_def)
qed

lemma elf_check_range: "- 7 \<le> elf_check r h \<and> elf_check r h \<le> 0"
  by (simp add: elf_check_def elf_errors)

text \<open>
  C32: nothing is loaded from a file that is not a complete 64-bit little-endian RISC-V ELF file for System V. If the
  header read from the device is short or differs in any of these, \<open>elf_load\<close> returns a negative error code, no entry point
  is stored, and the memory is as before.
\<close>
theorem elf_load_rejects:
  assumes "ioread_full ops 64 s = Ret (r, bs, s1)" and "length ejunk = 64" and "length bs \<le> 64"
    and "\<not> (64 \<le> r \<and> elf_valid (bs @ drop (length bs) ejunk))"
  shows "\<exists>e. elf_load ops vstore junk ejunk s m = Ret (e, None, s1, m) \<and> - 7 \<le> e \<and> e < 0"
proof -
  let ?h = "bs @ drop (length bs) ejunk"
  have h: "overlay ejunk 0 bs = Ret ?h" using assms(2,3) by (simp add: overlay_def)
  have "64 \<le> length ?h" using assms(2,3) by simp
  with elf_check_valid [of ?h r] assms(4) have "elf_check r ?h \<noteq> 0" by blast
  with elf_check_range [of r ?h] have c: "- 7 \<le> elf_check r ?h" "elf_check r ?h < 0" by auto
  then have "elf_load ops vstore junk ejunk s m = Ret (elf_check r ?h, None, s1, m)"
    using assms(1) h by (simp add: elf_load_def elf_load_with_def sizeof_Ehdr_def)
  with c show ?thesis by blast
qed

theorem elf_load_rejects_witness:
  "\<exists>e. elf_load iolit_ops (\<lambda>_ _ m. Ret m) (\<lambda>_. []) (replicate 64 0)
      \<lparr>lit_buf = replicate 64 1, lit_size = 64, lit_pos = 0\<rparr> demo_heap =
    Ret (e, None, \<lparr>lit_buf = replicate 64 1, lit_size = 64, lit_pos = 0\<rparr>, demo_heap) \<and> - 7 \<le> e \<and> e < 0"
proof -
  let ?s = "\<lparr>lit_buf = replicate 64 1, lit_size = 64, lit_pos = 0\<rparr>"
  have cp: "memcpy (replicate n x) (replicate n y) n = Ret (replicate n y)" for n and x y :: u8
    by (induction n) auto
  have "ioread_full iolit_ops 64 ?s = Ret (64, replicate 64 1, ?s)"
    using cp [of 64 0 1]
    by (simp add: ioread_full_def iolit_ops_def iolit_read_def ioread_full_loop.simps [of _ 64 0]
        ioread_full_loop.simps [of _ 64 64])
  moreover have "\<not> elf_valid (replicate 64 1 @ drop (length (replicate 64 (1::u8))) (replicate 64 0))"
    by (simp add: elf_valid_def)
  ultimately show ?thesis using elf_load_rejects [of iolit_ops ?s 64 "replicate 64 1" ?s "replicate 64 0"] by simp
qed

text \<open>
  C33: a failed read of a segment counts as success. The number of bytes read is compared with the size of the segment as
  an unsigned number, so a negative error code looks larger than any segment: the loader goes on with a page range
  that was never filled.
\<close>
theorem elf_read_error_ignored:
  assumes "USER_START_VMA \<le> p_vaddr ph" and "p_vaddr ph + p_filesz ph \<le> USER_END_VMA" and "p_filesz ph \<le> 2 ^ 62"
    and "memory_alloc_and_map_range (p_vaddr ph) (p_filesz ph) (PTE_R OR PTE_W) m = Ret (v, m1)"
    and "ioseek ops (p_offset ph) s = Ret (k, s1)" and "ioread_full ops (unat (p_filesz ph)) s1 = Ret (- e, bs, s2)"
    and "0 < e" and "e < 2 ^ 31" and "vst (p_vaddr ph) bs m1 = Ret m2"
    and "memory_set_range_flags (p_vaddr ph) (p_filesz ph) (flagfn (flag_convert (p_flags ph))) m2 = Ret m3"
  shows "elf_segment ops vst flagfn ph s m = Ret (0, s2, m3)"
proof -
  have u: "uint (of_int (- e) :: u64) = 2 ^ 64 - e"
  proof -
    have "uint (of_int (- e) :: u64) = (- e) mod 2 ^ 64" by (simp only: uint_word_of_int of_int_eq_iff) simp
    also have "\<dots> = (2 ^ 64 - e) mod 2 ^ 64" by (metis add.commute diff_conv_add_uminus mod_add_self2)
    also have "\<dots> = 2 ^ 64 - e" by (rule mod_pos_pos_trivial) (use assms(7,8) in auto)
    finally show ?thesis .
  qed
  have "uint (p_filesz ph) \<le> 2 ^ 62" using assms(3) by (simp add: word_le_def)
  then have "uint (p_filesz ph) \<le> uint (of_int (- e) :: u64)" unfolding u using assms(8) by simp
  then have "\<not> (of_int (- e) :: u64) < p_filesz ph" by (simp only: word_less_def not_less)
  moreover have "\<not> (p_vaddr ph < USER_START_VMA \<or> p_vaddr ph + p_filesz ph > USER_END_VMA)"
    using assms(1,2) by (simp add: not_less)
  ultimately show ?thesis using assms(4-6,9,10) by (simp add: elf_segment_def del: de_Morgan_disj)
qed

definition null_ops :: "unit io_ops" where
  "null_ops = \<lparr>op_close = None, op_read = None, op_write = None, op_ctl = None\<rparr>"

definition demo_phdr :: "u8 list" where
  "demo_phdr = [1, 0, 0, 0, 4, 0, 0, 0] @ replicate 8 0 @ [0, 0, 0, 0xC0, 0, 0, 0, 0] @ replicate 32 0"

theorem elf_read_error_ignored_witness:
  "elf_segment null_ops (\<lambda>_ _ m. Ret m) (\<lambda>fl. fl OR PTE_U) demo_phdr () demo_heap = Ret (0, (), demo_heap)"
proof -
  have f: "p_filesz demo_phdr = 0" "p_vaddr demo_phdr = 0xC0000000" "p_offset demo_phdr = 0"
    by code_simp+
  have r: "for_range 0 0 PAGE_SIZE = []" "round_up_size 0 PAGE_SIZE = 0"
    by (simp_all add: for_range_def round_up_size_def PAGE_SIZE_def)
  have "memory_alloc_and_map_range 0xC0000000 0 (PTE_R OR PTE_W) demo_heap = Ret (0xC0000000, demo_heap)"
    using r by (simp add: memory_alloc_and_map_range_def)
  moreover have "memory_set_range_flags 0xC0000000 0 fl demo_heap = Ret demo_heap" for fl
    using r by (simp add: memory_set_range_flags_def)
  ultimately show ?thesis
    using elf_read_error_ignored [of demo_phdr demo_heap "0xC0000000" demo_heap null_ops "()" "- ENOTSUP" "()" 3 "[]" "()"
      "\<lambda>_ _ m. Ret m" demo_heap "\<lambda>fl. fl OR PTE_U" demo_heap]
    by (simp add: f null_ops_def ioseek_def ioctl_def ioread_full_def ENOTSUP_def USER_START_VMA_def USER_END_VMA_def)
qed

end
