(* ===== verification/Timer.thy ===== *)
theory Timer
  imports Lock
begin

text \<open>
  \<^verbatim>\<open>kern/timer.c\<close> and \<^verbatim>\<open>kern/timer.h\<close>: the list of sleeping alarms, ordered by wake-up time, and the timer interrupt. An
  alarm blocks on its condition variable, so the operations act on the timer and on the state of the threads.
\<close>

section \<open>Data\<close>

text \<open>
  An alarm is identified by its address, which is also the address of its condition variable. \<open>mtime\<close> and \<open>mtcmp\<close> are
  the memory-mapped timer registers, \<open>stie\<close>, \<open>stip\<close> and \<open>mtie\<close> the enable and pending bits of the interrupt.
\<close>

record alarm =
  al_next :: u64
  twake :: u64

record timer =
  alarms :: "u64 \<Rightarrow> alarm"
  sleep_list :: u64
  next_tick :: u64
  mtime :: u64
  mtcmp :: u64
  stie :: bool
  stip :: bool
  mtie :: bool
  timer_initialized :: bool

definition TIMER_FREQ :: u64 where "TIMER_FREQ = 10000000"
definition TICK_FREQ :: u64 where "TICK_FREQ = 50"
definition TICK_PERIOD :: u64 where "TICK_PERIOD = TIMER_FREQ div TICK_FREQ"

section \<open>Operations\<close>

definition get_mtime :: "timer \<Rightarrow> u64" where "get_mtime ts = mtime ts"
definition set_mtime :: "u64 \<Rightarrow> timer \<Rightarrow> timer" where "set_mtime v ts = ts\<lparr>mtime := v\<rparr>"
definition get_mtcmp :: "timer \<Rightarrow> u64" where "get_mtcmp ts = mtcmp ts"
definition set_mtcmp :: "u64 \<Rightarrow> timer \<Rightarrow> timer" where "set_mtcmp v ts = ts\<lparr>mtcmp := v\<rparr>"

text \<open>The environment call of \<open>enable_mmode_timer_intr\<close> and the machine-mode interrupt of \<^verbatim>\<open>kern/trapasm.s\<close>.\<close>

definition enable_mmode_timer_intr :: "timer \<Rightarrow> timer" where
  "enable_mmode_timer_intr ts = ts\<lparr>stip := False, mtie := True\<rparr>"

definition mmode_intr_handler :: "timer \<Rightarrow> timer" where
  "mmode_intr_handler ts = ts\<lparr>stip := True, mtie := False\<rparr>"

definition timer_init :: "timer \<Rightarrow> timer" where
  "timer_init ts =
     (let ts = set_mtime 0 ts;
          ts = set_mtcmp TICK_PERIOD ts;
          ts = ts\<lparr>stie := True\<rparr>;
          ts = enable_mmode_timer_intr ts
      in ts\<lparr>timer_initialized := True\<rparr>)"

definition alarm_init :: "u64 \<Rightarrow> string option \<Rightarrow> timer \<times> kstate \<Rightarrow> timer \<times> kstate" where
  "alarm_init al name = (\<lambda>(ts, s).
     let s = condition_init al (case name of Some n \<Rightarrow> n | None \<Rightarrow> ''alarm'') s in
     (ts\<lparr>alarms := (alarms ts)(al := \<lparr>al_next = 0, twake = get_mtime ts\<rparr>)\<rparr>, s))"

definition alarm_reset :: "u64 \<Rightarrow> timer \<Rightarrow> timer" where
  "alarm_reset al ts = ts\<lparr>alarms := (alarms ts)(al := (alarms ts al)\<lparr>twake := get_mtime ts\<rparr>)\<rparr>"

definition link :: "u64 \<Rightarrow> u64 \<Rightarrow> timer \<Rightarrow> timer" where
  "link p q ts = ts\<lparr>alarms := (alarms ts)(p := (alarms ts p)\<lparr>al_next := q\<rparr>)\<rparr>"

text \<open>
  The new wake-up time; the loop that looks for the place of \<open>al\<close> behind \<open>prev\<close>, at most \<open>fuel\<close> alarms away; and the
  insertion in the list.
\<close>

definition alarm_advance :: "u64 \<Rightarrow> u64 \<Rightarrow> timer \<Rightarrow> timer" where
  "alarm_advance al tcnt ts =
     ts\<lparr>alarms := (alarms ts)(al := (alarms ts al)
        \<lparr>twake := if - 1 - twake (alarms ts al) < tcnt then - 1 else twake (alarms ts al) + tcnt\<rparr>)\<rparr>"

fun insert_after :: "nat \<Rightarrow> u64 \<Rightarrow> u64 \<Rightarrow> timer \<Rightarrow> timer outcome" where
  "insert_after fuel al prev ts =
     (if al_next (alarms ts prev) \<noteq> 0 then
        if twake (alarms ts al) \<le> twake (alarms ts (al_next (alarms ts prev)))
        then Ret (link prev al (link al (al_next (alarms ts prev)) ts))
        else case fuel of 0 \<Rightarrow> Running | Suc fuel \<Rightarrow> insert_after fuel al (al_next (alarms ts prev)) ts
      else Ret (link prev al (link al 0 ts)))"

declare insert_after.simps [simp del]

definition alarm_insert :: "nat \<Rightarrow> u64 \<Rightarrow> timer \<Rightarrow> timer outcome" where
  "alarm_insert fuel al ts =
     (if sleep_list ts = 0 \<or> twake (alarms ts al) \<le> twake (alarms ts (sleep_list ts)) then
        let ts = link al (sleep_list ts) ts;
            ts = ts\<lparr>sleep_list := al\<rparr>
        in Ret (if twake (alarms ts al) < next_tick ts
                then enable_mmode_timer_intr ((set_mtcmp (twake (alarms ts al)) ts)\<lparr>stie := True\<rparr>)
                else ts)
      else insert_after fuel al (sleep_list ts) ts)"

text \<open>
  \<open>alarm_sleep\<close> up to the switch in \<open>condition_wait\<close>; a resumed caller only restores the interrupt flag.
\<close>

definition alarm_sleep ::
    "nat \<Rightarrow> u64 \<Rightarrow> u64 \<Rightarrow> timer \<times> kstate \<Rightarrow> (unit progress \<times> timer \<times> kstate) outcome" where
  "alarm_sleep fuel al tcnt = (\<lambda>(ts, s).
     let now = get_mtime ts;
         ts = alarm_advance al tcnt ts
     in if twake (alarms ts al) < now then Ret (Done (), ts, s)
        else
          case intr_disable s of (saved, s) \<Rightarrow>
          obind (alarm_insert fuel al ts) (\<lambda>ts.
          obind (condition_wait al s) (\<lambda>s. Ret (Wait, ts, s))))"

definition alarm_sleep_resume :: "bool \<Rightarrow> kstate \<Rightarrow> kstate" where
  "alarm_sleep_resume saved s = intr_restore saved s"

definition alarm_sleep_sec where
  "alarm_sleep_sec fuel al sec = alarm_sleep fuel al (ucast (sec :: u32) * TIMER_FREQ)"

definition alarm_sleep_ms where
  "alarm_sleep_ms fuel al ms = alarm_sleep fuel al (ms * (TIMER_FREQ div 1000))"

definition alarm_sleep_us where
  "alarm_sleep_us fuel al us = alarm_sleep fuel al (us * (TIMER_FREQ div 1000 div 1000))"

text \<open>The loop of \<open>timer_intr_handler\<close> over at most \<open>fuel\<close> alarms; it returns the new \<open>head\<close>.\<close>

fun wake_loop :: "nat \<Rightarrow> u64 \<Rightarrow> u64 \<Rightarrow> timer \<times> kstate \<Rightarrow> (u64 \<times> timer \<times> kstate) outcome" where
  "wake_loop fuel now al0 (ts, s) =
     (if al0 \<noteq> 0 \<and> twake (alarms ts al0) \<le> now then
        case fuel of 0 \<Rightarrow> Running
        | Suc fuel \<Rightarrow>
            obind (condition_broadcast al0 s) (\<lambda>s.
            let nxt = al_next (alarms ts al0) in
            wake_loop fuel now nxt (link al0 0 ts, s))
      else Ret (al0, ts, s))"

declare wake_loop.simps [simp del]

definition timer_intr_handler :: "nat \<Rightarrow> timer \<times> kstate \<Rightarrow> (timer \<times> kstate) outcome" where
  "timer_intr_handler fuel = (\<lambda>(ts, s).
     let now = get_mtime ts in
     obind (wake_loop fuel now (sleep_list ts) (ts, s)) (\<lambda>(al0, ts, s).
     let ts = (if next_tick ts < now then ts\<lparr>next_tick := next_tick ts + TICK_PERIOD\<rparr> else ts);
         ts = ts\<lparr>sleep_list := al0\<rparr>;
         ts = (if al0 \<noteq> 0 \<and> twake (alarms ts al0) < next_tick ts
               then set_mtcmp (twake (alarms ts al0)) ts else set_mtcmp (next_tick ts) ts)
     in Ret (enable_mmode_timer_intr ts, s)))"

section \<open>The list of sleeping alarms\<close>

definition sleepers :: "timer \<Rightarrow> u64 list \<Rightarrow> bool" where
  "sleepers ts xs \<longleftrightarrow> chain (\<lambda>x. al_next (alarms ts x)) (sleep_list ts) xs"

definition due :: "timer \<Rightarrow> u64 \<Rightarrow> u64 list \<Rightarrow> u64 list" where
  "due ts now xs = takeWhile (\<lambda>x. twake (alarms ts x) \<le> now) xs"

definition place :: "timer \<Rightarrow> u64 \<Rightarrow> u64 list \<Rightarrow> u64 list" where
  "place ts al xs = takeWhile (\<lambda>x. twake (alarms ts x) < twake (alarms ts al)) xs @ al #
     dropWhile (\<lambda>x. twake (alarms ts x) < twake (alarms ts al)) xs"

lemma twake_link [simp]: "twake (alarms (link p q ts) x) = twake (alarms ts x)"
  by (simp add: link_def)

lemma next_link [simp]: "al_next (alarms (link p q ts) x) = (if x = p then q else al_next (alarms ts x))"
  by (simp add: link_def)

lemma link_fields [simp]: "sleep_list (link p q ts) = sleep_list ts" "next_tick (link p q ts) = next_tick ts"
    "mtime (link p q ts) = mtime ts"
  by (simp_all add: link_def)

lemma chain_insert:
  assumes "chain nx p (us @ vs)" and "us \<noteq> []" and "al \<noteq> 0" and "al \<notin> set (us @ vs)"
  shows "chain (nx(al := nx (last us), last us := al)) p (us @ al # vs)"
  using assms
proof (induction us arbitrary: p)
  case (Cons u us)
  have d: "distinct (u # us @ vs)" using chain_distinct [OF Cons.prems(1)] by simp
  show ?case
  proof (cases "us = []")
    case True
    define f where "f = nx(al := nx u, u := al)"
    have "chain f (nx u) vs = chain nx (nx u) vs"
      unfolding f_def by (rule chain_agree) (use d Cons.prems in auto)
    moreover have "f u = al" "f al = nx u" using Cons.prems by (auto simp: f_def)
    ultimately have "chain f p (u # al # vs)" using Cons.prems True by simp
    with True show ?thesis unfolding f_def by (simp only: last.simps append.simps simp_thms if_True)
  next
    case False
    then have "u \<noteq> last us" using d by auto
    with False Cons show ?thesis by auto
  qed
qed simp

lemma insert_after_Ret:
  assumes "chain (\<lambda>x. al_next (alarms ts x)) p (prev # xs)" and "length xs \<le> fuel"
  shows "\<exists>us vs. xs = us @ vs \<and> us = takeWhile (\<lambda>x. twake (alarms ts x) < twake (alarms ts al)) xs \<and>
     insert_after fuel al prev ts =
       Ret (link (last (prev # us)) al (link al (al_next (alarms ts (last (prev # us)))) ts))"
  using assms
proof (induction xs arbitrary: p prev fuel)
  case Nil
  then show ?case by (auto simp: insert_after.simps)
next
  case (Cons x xs)
  have n: "al_next (alarms ts prev) = x" "x \<noteq> 0" using Cons.prems by auto
  show ?case
  proof (cases "twake (alarms ts x) < twake (alarms ts al)")
    case True
    obtain k where k: "fuel = Suc k" "length xs \<le> k" using Cons.prems(2) by (cases fuel) auto
    have "insert_after fuel al prev ts = insert_after k al x ts"
      using True n k by (subst insert_after.simps) auto
    moreover have "chain (\<lambda>x. al_next (alarms ts x)) x (x # xs)" using Cons.prems(1) n by auto
    ultimately show ?thesis using Cons.IH [OF _ k(2), of x x] True by auto
  next
    case False
    then show ?thesis using n by (subst insert_after.simps) auto
  qed
qed

lemma place_Cons:
  "place ts al (x # xs) = (if twake (alarms ts x) < twake (alarms ts al) then x # place ts al xs else al # x # xs)"
  by (simp add: place_def)

lemma alarm_insert_Ret:
  assumes s: "sleepers ts xs" and al: "al \<noteq> 0" "al \<notin> set xs" and fuel: "length xs \<le> fuel"
  shows "\<exists>ts'. alarm_insert fuel al ts = Ret ts' \<and> sleepers ts' (place ts al xs) \<and>
    (\<forall>x. twake (alarms ts' x) = twake (alarms ts x)) \<and> mtime ts' = mtime ts \<and> next_tick ts' = next_tick ts"
proof (cases "sleep_list ts = 0 \<or> twake (alarms ts al) \<le> twake (alarms ts (sleep_list ts))")
  case True
  have p: "place ts al xs = al # xs"
    using True s by (cases xs) (auto simp: sleepers_def place_def)
  have "chain (\<lambda>x. if x = al then sleep_list ts else al_next (alarms ts x)) (sleep_list ts) xs =
      chain (\<lambda>x. al_next (alarms ts x)) (sleep_list ts) xs"
    by (rule chain_agree) (use al in auto)
  with True s al p show ?thesis
    by (auto simp: alarm_insert_def Let_def sleepers_def enable_mmode_timer_intr_def set_mtcmp_def)
next
  case False
  then obtain y ys where xs: "xs = y # ys" "sleep_list ts = y" using s by (cases xs) (auto simp: sleepers_def)
  have c: "chain (\<lambda>x. al_next (alarms ts x)) y (y # ys)" using s xs by (simp add: sleepers_def)
  obtain us vs where 1: "ys = us @ vs" "us = takeWhile (\<lambda>x. twake (alarms ts x) < twake (alarms ts al)) ys"
    "insert_after fuel al y ts = Ret (link (last (y # us)) al (link al (al_next (alarms ts (last (y # us)))) ts))"
    using insert_after_Ret [OF c, of fuel al] fuel xs by auto
  have vs: "vs = dropWhile (\<lambda>x. twake (alarms ts x) < twake (alarms ts al)) ys"
    using 1(1,2) by (metis same_append_eq takeWhile_dropWhile_id)
  have p: "place ts al xs = (y # us) @ al # vs"
    using False xs 1(2) vs by (auto simp: place_def not_le)
  let ?nx = "\<lambda>x. al_next (alarms ts x)"
  define l where "l = last (y # us)"
  let ?ts = "link l al (link al (?nx l) ts)"
  have "chain (?nx(al := ?nx l, l := al)) y ((y # us) @ al # vs)"
    unfolding l_def by (rule chain_insert) (use c 1(1) al xs in auto)
  moreover have "(\<lambda>x. al_next (alarms ?ts x)) = ?nx(al := ?nx l, l := al)" by (rule ext) simp
  ultimately have "chain (\<lambda>x. al_next (alarms ?ts x)) y (place ts al xs)" unfolding p by (simp only:)
  moreover have "alarm_insert fuel al ts = Ret ?ts"
    using False 1(3) xs unfolding l_def [symmetric] by (simp add: alarm_insert_def)
  ultimately show ?thesis using xs(2) by (simp add: sleepers_def)
qed

lemma broadcast_sched_ok:
  assumes "sched_ok s a"
  shows "\<exists>s'. condition_broadcast c s = Ret s' \<and> sched_ok s' (a_wake c a) \<and> keeps s s'"
proof -
  have core: "core s a" and st: "state (thr s (tp s)) = THREAD_RUNNING" using assms by (auto simp: sched_ok_def)
  have "tp s \<notin> set (waiting a c)" using coreD(6) [OF core] st by auto
  with condition_broadcast_step [OF core, of c] st show ?thesis by (auto simp: sched_ok_def)
qed

lemma chain_relink:
  "chain nx p xs \<Longrightarrow> x \<notin> set xs \<Longrightarrow> chain (\<lambda>y. if y = x then q else nx y) p xs"
  by (subst chain_agree [where nx' = nx]) auto

lemma wake_loop_Ret:
  assumes "chain (\<lambda>x. al_next (alarms ts x)) p xs" and "length xs \<le> fuel" and "sched_ok s a"
  shows "\<exists>p' ts' s'. wake_loop fuel now p (ts, s) = Ret (p', ts', s') \<and>
    chain (\<lambda>x. al_next (alarms ts' x)) p' (dropWhile (\<lambda>x. twake (alarms ts x) \<le> now) xs) \<and>
    (\<forall>x. twake (alarms ts' x) = twake (alarms ts x)) \<and> next_tick ts' = next_tick ts \<and>
    sched_ok s' (fold a_wake (due ts now xs) a) \<and> keeps s s'"
  using assms
proof (induction xs arbitrary: p ts s a fuel)
  case Nil
  then show ?case by (auto simp: wake_loop.simps due_def keeps_refl)
next
  case (Cons x xs)
  have p: "p = x" "x \<noteq> 0" and c: "chain (\<lambda>y. al_next (alarms ts y)) (al_next (alarms ts x)) xs" using Cons.prems by auto
  obtain k where k: "fuel = Suc k" "length xs \<le> k" using Cons.prems(2) by (cases fuel) auto
  show ?case
  proof (cases "twake (alarms ts x) \<le> now")
    case True
    obtain s1 where s1: "condition_broadcast x s = Ret s1" "sched_ok s1 (a_wake x a)" "keeps s s1"
      using broadcast_sched_ok [OF Cons.prems(3)] by blast
    have "x \<notin> set xs" using chain_distinct [OF Cons.prems(1)] by simp
    then have "chain (\<lambda>y. al_next (alarms (link x 0 ts) y)) (al_next (alarms ts x)) xs"
      using chain_relink [OF c] by simp
    from Cons.IH [OF this k(2) s1(2)]
    obtain p' ts' s' where r: "wake_loop k now (al_next (alarms ts x)) (link x 0 ts, s1) = Ret (p', ts', s')"
      "chain (\<lambda>x. al_next (alarms ts' x)) p' (dropWhile (\<lambda>x. twake (alarms ts x) \<le> now) xs)"
      "\<forall>y. twake (alarms ts' y) = twake (alarms ts y)" "next_tick ts' = next_tick ts"
      "sched_ok s' (fold a_wake (due ts now xs) (a_wake x a))" "keeps s1 s'"
      by (auto simp: due_def)
    have "wake_loop fuel now p (ts, s) = Ret (p', ts', s')"
      using r(1) s1(1) True p k by (subst wake_loop.simps) (simp add: Let_def)
    moreover have "keeps s s'" using s1(3) r(6) by (rule keeps_trans)
    ultimately show ?thesis using r True by (simp add: due_def)
  next
    case False
    then show ?thesis using p Cons.prems(1,3) by (subst wake_loop.simps) (simp add: due_def keeps_refl)
  qed
qed

definition by_wake :: "timer \<Rightarrow> u64 list \<Rightarrow> bool" where
  "by_wake ts xs \<longleftrightarrow> sorted (map (\<lambda>x. twake (alarms ts x)) xs)"

lemma sorted_split:
  fixes f :: "'a \<Rightarrow> 'b::linorder"
  assumes "sorted (map f xs)"
  shows "dropWhile (\<lambda>x. f x \<le> v) xs = filter (\<lambda>x. v < f x) xs" "takeWhile (\<lambda>x. f x \<le> v) xs = filter (\<lambda>x. f x \<le> v) xs"
proof -
  have a: "\<forall>y \<in> set ys. v < f y" if "\<not> f y \<le> v" "sorted (map f (y # ys))" for y ys using that by fastforce
  show "dropWhile (\<lambda>x. f x \<le> v) xs = filter (\<lambda>x. v < f x) xs" using assms
  proof (induction xs)
    case (Cons y ys)
    then show ?case using a [of y ys] by (auto simp: not_le filter_id_conv)
  qed simp
  then show "takeWhile (\<lambda>x. f x \<le> v) xs = filter (\<lambda>x. f x \<le> v) xs"
    by (intro takeWhile_eq_filter) auto
qed

lemma place_sorted:
  "by_wake ts xs \<Longrightarrow> by_wake ts (place ts al xs)"
  unfolding by_wake_def
proof (induction xs)
  case (Cons x xs)
  then show ?case by (auto simp: place_Cons) (auto simp: place_def dest: set_takeWhileD set_dropWhileD)
qed (simp add: place_def)

lemma place_set: "set (place ts al xs) = insert al (set xs)"
proof -
  have "set xs = set (takeWhile (\<lambda>x. twake (alarms ts x) < twake (alarms ts al)) xs) \<union>
      set (dropWhile (\<lambda>x. twake (alarms ts x) < twake (alarms ts al)) xs)"
    by (metis set_append takeWhile_dropWhile_id)
  then show ?thesis by (auto simp: place_def)
qed

lemma unat_room: "unat (- 1 - x :: u64) = 2 ^ 64 - 1 - unat x"
proof -
  have "unat (- 1 :: u64) = 2 ^ 64 - 1" by (simp add: unsigned_minus_1_eq_mask mask_eq_exp_minus_1)
  moreover have "x \<le> - 1" by simp
  ultimately show ?thesis using unat_sub [of x "- 1"] by simp
qed

lemma timer_handler_Ret:
  assumes "sleepers ts xs" and "by_wake ts xs" and "length xs \<le> fuel" and "sched_ok s a"
  shows "\<exists>ts' s'. timer_intr_handler fuel (ts, s) = Ret (ts', s') \<and>
    sched_ok s' (fold a_wake (filter (\<lambda>x. twake (alarms ts x) \<le> mtime ts) xs) a) \<and>
    sleepers ts' (filter (\<lambda>x. mtime ts < twake (alarms ts x)) xs) \<and>
    by_wake ts' (filter (\<lambda>x. mtime ts < twake (alarms ts x)) xs) \<and> mtie ts' \<and> \<not> stip ts' \<and>
    mtcmp ts' = Min (insert (next_tick ts') {twake (alarms ts x) |x. x \<in> set xs \<and> mtime ts < twake (alarms ts x)})"
proof -
  let ?w = "\<lambda>x. twake (alarms ts x)" and ?rest = "filter (\<lambda>x. mtime ts < twake (alarms ts x)) xs"
  note sp = sorted_split [OF assms(2) [unfolded by_wake_def], of "mtime ts"]
  obtain p ts1 s' where r: "wake_loop fuel (mtime ts) (sleep_list ts) (ts, s) = Ret (p, ts1, s')"
    "chain (\<lambda>x. al_next (alarms ts1 x)) p ?rest" "\<And>x. twake (alarms ts1 x) = ?w x"
    "sched_ok s' (fold a_wake (filter (\<lambda>x. ?w x \<le> mtime ts) xs) a)"
    using wake_loop_Ret [OF assms(1) [unfolded sleepers_def] assms(3,4), of "mtime ts"] by (auto simp: due_def sp)
  have srt: "sorted (map ?w ?rest)"
    using assms(2) by (simp add: by_wake_def sorted_filter)
  define nt where "nt = (if next_tick ts1 < mtime ts then next_tick ts1 + TICK_PERIOD else next_tick ts1)"
  have h: "timer_intr_handler fuel (ts, s) = Ret (ts1\<lparr>next_tick := nt, sleep_list := p,
      mtcmp := if p \<noteq> 0 \<and> ?w p < nt then ?w p else nt, stip := False, mtie := True\<rparr>, s')"
    using r(1,3) by (simp add: timer_intr_handler_def Let_def get_mtime_def set_mtcmp_def enable_mmode_timer_intr_def nt_def)
  have "(if p \<noteq> 0 \<and> ?w p < nt then ?w p else nt) = Min (insert nt (?w ` set ?rest))"
  proof (cases ?rest)
    case Nil
    then show ?thesis using r(2) by simp
  next
    case (Cons y ys)
    then have p: "p = y" "y \<noteq> 0" using r(2) by auto
    have "\<forall>v \<in> ?w ` set ?rest. ?w y \<le> v" using srt Cons by auto
    then have "Min (insert nt (?w ` set ?rest)) = min nt (?w y)"
      using Cons by (intro Min_eqI) (auto simp: min_le_iff_disj min_def)
    then show ?thesis using p by (auto simp: min_def)
  qed
  moreover have "{?w x |x. x \<in> set xs \<and> mtime ts < ?w x} = ?w ` set ?rest" by auto
  ultimately show ?thesis using h r srt by (simp add: sleepers_def by_wake_def)
qed

text \<open>
  C24: the timer interrupt wakes exactly the alarms that are due. With the sleep list in order of wake-up time, the handler
  ends; it broadcasts the condition of every alarm whose time has come, earliest first, and of no other; the
  alarms left on the list are those whose time is still to come, in order; and the timer is armed again, for the
  first of them or for the next tick, whichever is earlier.
\<close>
theorem timer_wakes_due_alarms:
  assumes "sleepers ts xs" and "by_wake ts xs" and "length xs \<le> fuel" and "sched_ok s a"
  shows "\<exists>ts' s'. timer_intr_handler fuel (ts, s) = Ret (ts', s') \<and>
    sched_ok s' (fold a_wake (filter (\<lambda>x. twake (alarms ts x) \<le> mtime ts) xs) a) \<and>
    sleepers ts' (filter (\<lambda>x. mtime ts < twake (alarms ts x)) xs) \<and>
    by_wake ts' (filter (\<lambda>x. mtime ts < twake (alarms ts x)) xs) \<and> mtie ts' \<and> \<not> stip ts' \<and>
    mtcmp ts' = Min (insert (next_tick ts') {twake (alarms ts x) |x. x \<in> set xs \<and> mtime ts < twake (alarms ts x)})"
  by (rule timer_handler_Ret [OF assms])

text \<open>
  C25: going to sleep. If the wake-up time is not over, \<open>alarm_sleep\<close> ends in a switch with the alarm in
  its place on the sleep list, which stays in order, and the caller waits for the alarm's condition; otherwise it returns at once.
  The wake-up time is the previous one plus \<open>tcnt\<close>, or the largest time if the sum is larger.
\<close>
theorem alarm_sleep_correct:
  assumes "sleepers ts xs" and "by_wake ts xs" and "al \<noteq> 0" and "al \<notin> set xs" and "length xs \<le> fuel"
    and "sched_ok s a" and "tp s \<noteq> idle_thread s"
    and "w = of_nat (min (unat (twake (alarms ts al)) + unat tcnt) (2 ^ 64 - 1))"
  shows "\<exists>ts'. twake (alarms ts' al) = w \<and> (\<forall>x. x \<noteq> al \<longrightarrow> twake (alarms ts' x) = twake (alarms ts x)) \<and>
    (if w < mtime ts then alarm_sleep fuel al tcnt (ts, s) = Ret (Done (), ts', s) \<and> sleepers ts' xs
     else \<exists>s' ys. alarm_sleep fuel al tcnt (ts, s) = Ret (Wait, ts', s') \<and> sched_ok s' (a_wait al a) \<and>
       sleepers ts' ys \<and> by_wake ts' ys \<and> set ys = insert al (set xs))"
proof -
  define ts1 where "ts1 = alarm_advance al tcnt ts"
  have w: "twake (alarms ts1 al) = w"
  proof (cases "- 1 - twake (alarms ts al) < tcnt")
    case True
    then have "2 ^ 64 - 1 < unat (twake (alarms ts al)) + unat tcnt"
      by (simp add: word_less_nat_alt unat_room)
    then have "min (unat (twake (alarms ts al)) + unat tcnt) (2 ^ 64 - 1) = 2 ^ 64 - 1" by simp
    with True assms(8) show ?thesis by (simp add: ts1_def alarm_advance_def)
  next
    case False
    then have "unat (twake (alarms ts al)) + unat tcnt \<le> 2 ^ 64 - 1"
      using unsigned_less [of "twake (alarms ts al)", where ?'a = nat] by (simp add: word_less_nat_alt unat_room)
    then have "min (unat (twake (alarms ts al)) + unat tcnt) (2 ^ 64 - 1) = unat (twake (alarms ts al)) + unat tcnt" by simp
    with False assms(8) show ?thesis by (simp add: ts1_def alarm_advance_def)
  qed
  have o: "twake (alarms ts1 x) = twake (alarms ts x)" if "x \<noteq> al" for x
    using that by (simp add: ts1_def alarm_advance_def)
  have m: "mtime ts1 = mtime ts" "sleep_list ts1 = sleep_list ts" by (simp_all add: ts1_def alarm_advance_def)
  have "(\<lambda>x. al_next (alarms ts1 x)) = (\<lambda>x. al_next (alarms ts x))" by (rule ext) (simp add: ts1_def alarm_advance_def)
  then have s1: "sleepers ts1 xs" using assms(1) m by (simp add: sleepers_def)
  have "map (\<lambda>x. twake (alarms ts1 x)) xs = map (\<lambda>x. twake (alarms ts x)) xs"
    by (rule map_cong [OF refl], rule o) (use assms(4) in blast)
  then have b1: "by_wake ts1 xs" using assms(2) by (simp only: by_wake_def)
  show ?thesis
  proof (cases "w < mtime ts")
    case True
    then have "alarm_sleep fuel al tcnt (ts, s) = Ret (Done (), ts1, s)"
      using w by (simp add: alarm_sleep_def Let_def get_mtime_def ts1_def [symmetric])
    with True w o s1 show ?thesis by auto
  next
    case False
    obtain ts' where 2: "alarm_insert fuel al ts1 = Ret ts'" "sleepers ts' (place ts1 al xs)"
      "\<And>x. twake (alarms ts' x) = twake (alarms ts1 x)"
      using alarm_insert_Ret [OF s1 assms(3,4,5)] by blast
    obtain s' where 3: "condition_wait al (s\<lparr>sie := False\<rparr>) = Ret s'" "sched_ok s' (a_wait al a)"
      using condition_wait_step [of "s\<lparr>sie := False\<rparr>" a al] assms(6,7) by auto
    have "alarm_sleep fuel al tcnt (ts, s) = Ret (Wait, ts', s')"
      using w False 2(1) 3(1) by (simp add: alarm_sleep_def Let_def get_mtime_def ts1_def [symmetric] intr_disable_def)
    moreover have "by_wake ts' (place ts1 al xs)" using place_sorted [OF b1] 2(3) by (simp add: by_wake_def)
    ultimately show ?thesis using False w o 2 3(2) place_set [of ts1 al xs] by auto
  qed
qed


text \<open>A sleeping main thread for the witnesses: one alarm, set 500 ticks ahead.\<close>

definition demo_timer :: timer where
  "demo_timer = \<lparr>alarms = (\<lambda>_. \<lparr>al_next = 0, twake = 1000\<rparr>), sleep_list = 0, next_tick = 0, mtime = 1000, mtcmp = 0,
     stie = False, stip = False, mtie = False, timer_initialized = True\<rparr>"

theorem alarm_sleep_correct_witness:
  "\<exists>s ts' s' ys. demo_boot = Ret s \<and> alarm_sleep 16 0x80013000 500 (demo_timer, s) = Ret (Wait, ts', s') \<and>
     sleepers ts' ys \<and> set ys = {0x80013000} \<and> twake (alarms ts' 0x80013000) = 1500"
proof -
  obtain s where s: "demo_boot = Ret s" "idle_thread s = 0x80011000"
    "sched_ok s \<lparr>run = 0x80010000, ready = [0x80011000], waiting = (\<lambda>_. [])\<rparr>" using demo_boot_ok by blast
  have tp: "tp s = 0x80010000" using s(3) by (simp add: sched_ok_def core_def placed_def)
  have "sleepers demo_timer []" "by_wake demo_timer []" by (simp_all add: sleepers_def by_wake_def demo_timer_def)
  from alarm_sleep_correct [OF this _ _ _ s(3), of "0x80013000" 16 1500 500] s(1,2) tp
  show ?thesis by (auto simp: demo_timer_def)
qed

theorem timer_wakes_due_alarms_witness:
  "\<exists>s ts' s'. timer_intr_handler 16 (demo_timer\<lparr>sleep_list := 0x80013000, mtime := 2000\<rparr>, s) = Ret (ts', s') \<and>
     sleepers ts' [] \<and> sched_ok s' \<lparr>run = 0x80011000, ready = [0x80010000], waiting = (\<lambda>_. [])\<rparr>"
proof -
  let ?a0 = "\<lparr>run = 0x80010000, ready = [0x80011000], waiting = (\<lambda>_. [])\<rparr> :: sched"
  obtain s0 where s0: "idle_thread s0 = 0x80011000" "sched_ok s0 ?a0" using demo_boot_ok by blast
  have "tp s0 = 0x80010000" using s0(2) by (simp add: sched_ok_def core_def placed_def)
  with s0 obtain s where s: "sched_ok s (a_wait 0x80013000 ?a0)"
    using condition_wait_step [OF s0(2), of "0x80013000"] by auto
  have a: "a_wake 0x80013000 (a_wait 0x80013000 ?a0) = \<lparr>run = 0x80011000, ready = [0x80010000], waiting = (\<lambda>_. [])\<rparr>"
    by (simp add: a_wait_def a_wake_def a_next_def fun_upd_idem)
  let ?ts = "demo_timer\<lparr>sleep_list := 0x80013000, mtime := 2000\<rparr>"
  have "sleepers ?ts [0x80013000]" "by_wake ?ts [0x80013000]"
    by (simp_all add: sleepers_def by_wake_def demo_timer_def)
  from timer_wakes_due_alarms [OF this _ s, of 16]
  show ?thesis by (auto simp: demo_timer_def a)
qed

end
