(* ===== verification/Process.thy ===== *)
theory Process
  imports Elf Timer
begin

text \<open>
  \<^verbatim>\<open>kern/process.c\<close> and \<^verbatim>\<open>kern/process.h\<close>: processes, and the state of the kernel that the system calls act on.
\<close>

section \<open>State\<close>

text \<open>
  The kernel as the system calls see it: threads and processes, the process table, the sleeping alarms, the state \<open>'w\<close>
  of all I/O objects, and the messages printed by \<open>sysmsgout\<close>.
\<close>

record 'w world =
  w_k :: kstate
  w_io :: 'w
  w_timer :: timer
  proctab :: "u64 list"
  procmgr_initialized :: bool
  w_log :: "(string \<times> int \<times> u8 list) list"

text \<open>
  What the system calls reach through pointers: the operations \<open>io->ops\<close> and the counter \<open>io->refcnt\<close> of an I/O object
  given by its address, the open functions of the device manager and of the file system, and the accesses to user
  memory that the hardware translates. \<open>env_kimg\<close> has the section addresses of the kernel image, \<open>env_fuel\<close> bounds the
  walks over linked lists, \<open>env_junk\<close> is the uninitialised stack of the loader, and \<open>env_cond\<close> is what the heap block of a
  new thread holds in the place of its condition variable.
\<close>

record 'w env =
  ops_of :: "u64 \<Rightarrow> 'w io_ops"
  ioref_of :: "u64 \<Rightarrow> 'w \<Rightarrow> 'w"
  env_fs_open :: "u8 list \<Rightarrow> 'w \<Rightarrow> (int \<times> u64 option \<times> 'w) outcome"
  env_device_open :: "u8 list \<Rightarrow> int \<Rightarrow> 'w \<Rightarrow> (int \<times> u64 option \<times> 'w) outcome"
  ustr :: "u64 \<Rightarrow> mstate \<Rightarrow> u8 list"
  uload :: "u64 \<Rightarrow> nat \<Rightarrow> mstate \<Rightarrow> u8 list"
  ustore :: vstore
  env_kimg :: kimg
  env_fuel :: nat
  env_junk :: "u8 list"
  env_cond :: condition

definition NPROC :: nat where "NPROC = 16"
definition PROCESS_IOMAX :: nat where "PROCESS_IOMAX = 16"
definition MAIN_PID :: int where "MAIN_PID = 0"
definition sizeof_process :: u64 where "sizeof_process = 144"
definition USER_STACK_VMA :: u64 where "USER_STACK_VMA = USER_END_VMA"

definition set_mem :: "mstate \<Rightarrow> 'w world \<Rightarrow> 'w world" where
  "set_mem m w = w\<lparr>w_k := (w_k w)\<lparr>mem := m\<rparr>\<rparr>"

definition set_proc :: "u64 \<Rightarrow> (process \<Rightarrow> process) \<Rightarrow> 'w world \<Rightarrow> 'w world" where
  "set_proc p f w = w\<lparr>w_k := (w_k w)\<lparr>procs := (procs (w_k w))(p := f (procs (w_k w) p))\<rparr>\<rparr>"

section \<open>Processes\<close>

definition current_process :: "'w world \<Rightarrow> u64 outcome" where
  "current_process w = thread_process (running_thread (w_k w)) (w_k w)"

definition current_pid :: "'w world \<Rightarrow> int outcome" where
  "current_pid w =
     obind (thread_process (running_thread (w_k w)) (w_k w)) (\<lambda>p. if p = 0 then Fault else Ret (proc_id (procs (w_k w) p)))"

text \<open>\<open>procmgr_init\<close>; \<open>main_proc\<close> is the address of that variable.\<close>

definition procmgr_init :: "u64 \<Rightarrow> 'w world \<Rightarrow> 'w world outcome" where
  "procmgr_init main_proc w =
     (let w = set_proc main_proc (\<lambda>_. \<lparr>proc_id = MAIN_PID, proc_tid = running_thread (w_k w), mtag = main_mtag (mem (w_k w)),
                 iotab = replicate PROCESS_IOMAX 0\<rparr>) w
      in obind (thread_set_process (running_thread (w_k w)) main_proc (w_k w)) (\<lambda>k.
         Ret (w\<lparr>w_k := k, procmgr_initialized := True\<rparr>)))"

text \<open>\<open>process_exec\<close> returns an error, or leaves for user mode with the new program.\<close>

definition exec_with ::
    "'w env \<Rightarrow> ('w io_ops \<Rightarrow> vstore \<Rightarrow> (nat \<Rightarrow> u8 list) \<Rightarrow> u8 list \<Rightarrow> 'w \<Rightarrow> mstate \<Rightarrow>
       (int \<times> u64 option \<times> 'w \<times> mstate) outcome) \<Rightarrow> u64 \<Rightarrow> 'w world \<Rightarrow> ((int + user_entry) \<times> 'w world) outcome" where
  "exec_with e ld exeio w =
     (if exeio = 0 then Ret (Inl (- EINVAL), w)
      else
        obind (memory_unmap_and_free_user (env_fuel e) (mem (w_k w))) (\<lambda>m.
        obind (ld (ops_of e exeio) (ustore e) (\<lambda>_. env_junk e) (env_junk e) (w_io w) m) (\<lambda>(elf_result, entry, io, m).
        let w = set_mem m (w\<lparr>w_io := io\<rparr>) in
        if elf_result < 0 then Ret (Inl elf_result, w)
        else
          case thread_jump_to_user USER_STACK_VMA (case entry of Some a \<Rightarrow> a | None \<Rightarrow> 0) (w_k w) of (u, k) \<Rightarrow>
            Ret (Inr u, w\<lparr>w_k := k\<rparr>))))"

definition process_exec :: "'w env \<Rightarrow> u64 \<Rightarrow> 'w world \<Rightarrow> ((int + user_entry) \<times> 'w world) outcome" where
  "process_exec e exeio w = exec_with e elf_load exeio w"

definition process_exec_for_test_use ::
    "'w env \<Rightarrow> u64 \<Rightarrow> u8 \<Rightarrow> 'w world \<Rightarrow> ((int + user_entry) \<times> 'w world) outcome" where
  "process_exec_for_test_use e exeio rwxug_flags w =
     exec_with e (\<lambda>ops vst junk ejunk. elf_load_for_test_use ops vst junk ejunk rwxug_flags) exeio w"

text \<open>The loop of \<open>process_exit\<close> over the open I/O objects of process \<open>p\<close>, then the end of the thread.\<close>

definition close_slot :: "'w env \<Rightarrow> u64 \<Rightarrow> nat \<Rightarrow> 'w world \<Rightarrow> 'w world outcome" where
  "close_slot e p i w =
     (if PROCESS_IOMAX \<le> i then Fault
      else
        let io = iotab (procs (w_k w) p) ! i in
        if io \<noteq> 0
        then Ret (set_proc p (\<lambda>x. x\<lparr>iotab := (iotab x)[i := 0]\<rparr>) (w\<lparr>w_io := ioclose (ops_of e io) (w_io w)\<rparr>))
        else Ret w)"

definition process_exit :: "'w env \<Rightarrow> 'w world \<Rightarrow> 'w world outcome" where
  "process_exit e w =
     obind (current_process w) (\<lambda>p.
     if p = 0 then Panic ''No current process exist''
     else
       obind (memory_space_reclaim (mem (w_k w))) (\<lambda>m.
       let w = set_mem m w in
       obind (ofold (close_slot e p) [0..<NPROC] w) (\<lambda>w.
       let pid = proc_id (procs (w_k w) p) in
       if pid < 0 \<or> int NPROC \<le> pid then Fault
       else
         let w = w\<lparr>proctab := (proctab w)[nat pid := 0]\<rparr> in
         obind (thread_exit (w_k w)) (\<lambda>k. Ret (w\<lparr>w_k := k\<rparr>)))))"

end
