(* ===== verification/Intr.thy ===== *)
theory Intr
  imports Timer
begin

text \<open>
  \<^verbatim>\<open>kern/plic.c\<close> and \<^verbatim>\<open>kern/intr.c\<close>: the interrupt controller as an array of registers by address, and the dispatch of
  interrupts to the timer and to the service routines of the drivers. A service routine is named by its
  address; what it does is the argument \<open>isr_call\<close> of the dispatch.
\<close>

section \<open>The interrupt controller\<close>

type_synonym plic = "u64 \<Rightarrow> u32"

definition PLIC_IOBASE :: u64 where "PLIC_IOBASE = 0x0C000000"
definition PLIC_SRCCNT :: nat where "PLIC_SRCCNT = 0x400"
definition IP_BASE :: u64 where "IP_BASE = 0x1000"
definition IE_BASE :: u64 where "IE_BASE = 0x2000"
definition P_THRESHOLD_BASE :: u64 where "P_THRESHOLD_BASE = 0x200000"
definition I_CLAIM_BASE :: u64 where "I_CLAIM_BASE = 0x200004"

text \<open>The products are computed in 32 bits and then extended.\<close>

definition priority_reg :: "u32 \<Rightarrow> u64" where
  "priority_reg srcno = ucast (srcno * 4 + ucast PLIC_IOBASE :: u32)"

definition plic_set_source_priority :: "u32 \<Rightarrow> u32 \<Rightarrow> plic \<Rightarrow> plic" where
  "plic_set_source_priority srcno level p = p(priority_reg srcno := level)"

definition source_bit :: "u32 \<Rightarrow> u32" where
  "source_bit srcno = push_bit (unat (srcno mod 32)) 1"

definition plic_source_pending :: "u32 \<Rightarrow> plic \<Rightarrow> int" where
  "plic_source_pending srcno p =
     sint (p (ucast (ucast IP_BASE + srcno div 32 * 4 + ucast PLIC_IOBASE :: u32)) AND source_bit srcno)"

definition enable_reg :: "u32 \<Rightarrow> u32 \<Rightarrow> u64" where
  "enable_reg ctxno srcno = ucast (ucast PLIC_IOBASE + ucast IE_BASE + ctxno * 128 + srcno div 32 * 4 :: u32)"

definition plic_enable_source_for_context :: "u32 \<Rightarrow> u32 \<Rightarrow> plic \<Rightarrow> plic" where
  "plic_enable_source_for_context ctxno srcno p =
     p(enable_reg ctxno srcno := p (enable_reg ctxno srcno) OR source_bit srcno)"

definition plic_disable_source_for_context :: "u32 \<Rightarrow> u32 \<Rightarrow> plic \<Rightarrow> plic" where
  "plic_disable_source_for_context ctxno srcid p =
     p(enable_reg ctxno srcid := p (enable_reg ctxno srcid) AND NOT (source_bit srcid))"

definition plic_set_context_threshold :: "u32 \<Rightarrow> u32 \<Rightarrow> plic \<Rightarrow> plic" where
  "plic_set_context_threshold ctxno level p =
     p(ucast (ucast P_THRESHOLD_BASE + ctxno * 4096 + ucast PLIC_IOBASE :: u32) := level)"

definition claim_reg :: "u32 \<Rightarrow> u64" where
  "claim_reg ctxno = ucast (ucast PLIC_IOBASE + ucast I_CLAIM_BASE + ctxno * 4096 :: u32)"

definition plic_claim_context_interrupt :: "u32 \<Rightarrow> plic \<Rightarrow> u32" where
  "plic_claim_context_interrupt ctxno p = p (claim_reg ctxno)"

definition plic_complete_context_interrupt :: "u32 \<Rightarrow> u32 \<Rightarrow> plic \<Rightarrow> plic" where
  "plic_complete_context_interrupt ctxno srcno p = p(claim_reg ctxno := srcno)"

definition plic_init_source :: "nat \<Rightarrow> plic \<Rightarrow> plic" where
  "plic_init_source i p = plic_enable_source_for_context 1 (of_nat i) (plic_set_source_priority (of_nat i) 0 p)"

definition plic_init :: "plic \<Rightarrow> plic" where
  "plic_init p = fold plic_init_source [0..<PLIC_SRCCNT] p"

definition plic_enable_irq :: "int \<Rightarrow> int \<Rightarrow> plic \<Rightarrow> plic" where
  "plic_enable_irq irqno prio p = plic_set_source_priority (of_int irqno) (of_int prio) p"

definition plic_disable_irq :: "int \<Rightarrow> plic \<Rightarrow> plic" where
  "plic_disable_irq irqno p = (if 0 < irqno then plic_set_source_priority (of_int irqno) 0 p else p)"

definition plic_claim_irq :: "plic \<Rightarrow> int" where
  "plic_claim_irq p = sint (plic_claim_context_interrupt 1 p)"

definition plic_close_irq :: "int \<Rightarrow> plic \<Rightarrow> plic" where
  "plic_close_irq irqno p = plic_complete_context_interrupt 1 (of_int irqno) p"

section \<open>Interrupt management\<close>

text \<open>An entry of \<open>isrtab\<close>; a null pointer is the address 0.\<close>

record isr_entry =
  isr :: u64
  isr_aux :: u64
  isr_prio :: int

record istate =
  i_plic :: plic
  isrtab :: "isr_entry list"
  i_timer :: timer
  i_kern :: kstate
  seie :: bool

definition NIRQ :: nat where "NIRQ = 32"

text \<open>
  \<open>intr_init\<close>: the pending bits of the timer and of the controller are read-only in \<open>sip\<close>, so clearing \<open>sip\<close> has no
  effect on them; writing \<open>sie\<close> leaves only external interrupts enabled.
\<close>

definition intr_init :: "istate \<Rightarrow> istate" where
  "intr_init s =
     (let s = s\<lparr>i_kern := snd (intr_disable (i_kern s))\<rparr>;
          s = s\<lparr>i_plic := plic_init (i_plic s)\<rparr>
      in s\<lparr>seie := True, i_timer := (i_timer s)\<lparr>stie := False\<rparr>\<rparr>)"

definition intr_register_isr :: "int \<Rightarrow> int \<Rightarrow> u64 \<Rightarrow> u64 \<Rightarrow> istate \<Rightarrow> istate outcome" where
  "intr_register_isr irqno prio fn aux s =
     (if irqno < 0 \<or> int NIRQ \<le> irqno then Panic ''irqno out of bounds''
      else
        let prio = (if prio \<le> 0 then 1 else prio) in
        Ret (s\<lparr>isrtab := (isrtab s)[nat irqno := \<lparr>isr = fn, isr_aux = aux, isr_prio = prio\<rparr>]\<rparr>))"

definition isr_at :: "int \<Rightarrow> istate \<Rightarrow> isr_entry outcome" where
  "isr_at irqno s = (if 0 \<le> irqno \<and> irqno < int NIRQ then Ret (isrtab s ! nat irqno) else Fault)"

definition intr_enable_irq :: "int \<Rightarrow> istate \<Rightarrow> istate outcome" where
  "intr_enable_irq irqno s =
     obind (isr_at irqno s) (\<lambda>e.
       if isr e = 0 then Panic ''intr_enable_irq with no isr''
       else Ret (s\<lparr>i_plic := plic_enable_irq irqno (isr_prio e) (i_plic s)\<rparr>))"

definition intr_disable_irq :: "int \<Rightarrow> istate \<Rightarrow> istate" where
  "intr_disable_irq irqno s = s\<lparr>i_plic := plic_disable_irq irqno (i_plic s)\<rparr>"

type_synonym isr_call = "u64 \<Rightarrow> int \<Rightarrow> u64 \<Rightarrow> istate \<Rightarrow> istate outcome"

definition extern_intr_handler :: "isr_call \<Rightarrow> istate \<Rightarrow> istate outcome" where
  "extern_intr_handler call s =
     (let irqno = plic_claim_irq (i_plic s) in
      if irqno < 0 \<or> int NIRQ \<le> irqno then Panic ''invalid irq''
      else if irqno = 0 then Ret s
      else
        let e = isrtab s ! nat irqno in
        if isr e = 0 then Panic ''unhandled irq''
        else
          obind (call (isr e) irqno (isr_aux e) s) (\<lambda>s.
            Ret (s\<lparr>i_plic := plic_close_irq irqno (i_plic s)\<rparr>)))"

definition RISCV_SCAUSE_INTR_EXCODE_STI :: int where "RISCV_SCAUSE_INTR_EXCODE_STI = 5"
definition RISCV_SCAUSE_INTR_EXCODE_SEI :: int where "RISCV_SCAUSE_INTR_EXCODE_SEI = 9"
definition RISCV_SSTATUS_SPP :: u64 where "RISCV_SSTATUS_SPP = push_bit 8 1"

definition intr_handler :: "isr_call \<Rightarrow> nat \<Rightarrow> int \<Rightarrow> trap_frame \<Rightarrow> istate \<Rightarrow> istate outcome" where
  "intr_handler call fuel code tfr s =
     obind
       (if code = RISCV_SCAUSE_INTR_EXCODE_STI then
          obind (timer_intr_handler fuel (i_timer s, i_kern s)) (\<lambda>(ts, k). Ret (s\<lparr>i_timer := ts, i_kern := k\<rparr>))
        else if code = RISCV_SCAUSE_INTR_EXCODE_SEI then extern_intr_handler call s
        else Panic ''unhandled interrupt'')
       (\<lambda>s.
         if tfr_sstatus tfr AND RISCV_SSTATUS_SPP = 0
         then obind (thread_yield (i_kern s)) (\<lambda>k. Ret (s\<lparr>i_kern := k\<rparr>))
         else Ret s)"

section \<open>The registers\<close>

lemma unat_priority_reg: "i < PLIC_SRCCNT \<Longrightarrow> unat (priority_reg (of_nat i)) = 0x0C000000 + 4 * i"
proof -
  assume "i < PLIC_SRCCNT"
  then have i: "i < 1024" by (simp add: PLIC_SRCCNT_def)
  then have "unat (of_nat i * 4 + 0x0C000000 :: u32) = 0x0C000000 + 4 * i"
    by (simp add: unat_word_ariths unat_of_nat)
  with i show ?thesis by (simp add: priority_reg_def PLIC_IOBASE_def unsigned_ucast_eq take_bit_nat_eq_self)
qed

lemma unat_enable_reg: "i < PLIC_SRCCNT \<Longrightarrow> unat (enable_reg 1 (of_nat i)) = 0x0C002080 + 4 * (i div 32)"
proof -
  assume "i < PLIC_SRCCNT"
  then have i: "i < 1024" by (simp add: PLIC_SRCCNT_def)
  have "unat (of_nat i div 32 :: u32) = i div 32" using i by (simp add: unat_div unat_of_nat)
  then have "unat (0x0C002080 + of_nat i div 32 * 4 :: u32) = 0x0C002080 + 4 * (i div 32)"
    using i by (simp add: unat_word_ariths)
  with i show ?thesis by (simp add: enable_reg_def PLIC_IOBASE_def IE_BASE_def unsigned_ucast_eq take_bit_nat_eq_self)
qed

lemma priority_enable_distinct:
  "i < PLIC_SRCCNT \<Longrightarrow> j < PLIC_SRCCNT \<Longrightarrow> priority_reg (of_nat i) \<noteq> enable_reg 1 (of_nat j)"
proof
  assume a: "i < PLIC_SRCCNT" "j < PLIC_SRCCNT" "priority_reg (of_nat i) = enable_reg 1 (of_nat j)"
  then have "0x0C000000 + 4 * i = 0x0C002080 + 4 * (j div 32)"
    using unat_priority_reg [of i] unat_enable_reg [of j] by simp
  with a(1) show False by (simp add: PLIC_SRCCNT_def)
qed

lemma unat_source_mod: "i < PLIC_SRCCNT \<Longrightarrow> unat (of_nat i mod 32 :: u32) = i mod 32"
  by (simp add: unat_mod unat_of_nat PLIC_SRCCNT_def)

lemma bit_source_bit: "i < PLIC_SRCCNT \<Longrightarrow> bit (source_bit (of_nat i)) k \<longleftrightarrow> k = i mod 32"
  by (auto simp: source_bit_def unat_source_mod bit_exp_iff)

lemma plic_init_source_apply:
  "i < PLIC_SRCCNT \<Longrightarrow> plic_init_source i p a =
     (if a = priority_reg (of_nat i) then 0
      else if a = enable_reg 1 (of_nat i) then p a OR source_bit (of_nat i) else p a)"
  using priority_enable_distinct [of i i]
  by (auto simp: plic_init_source_def plic_enable_source_for_context_def plic_set_source_priority_def)

lemma plic_init_loop:
  "n \<le> PLIC_SRCCNT \<Longrightarrow> (\<forall>i < n. fold plic_init_source [0..<n] p (priority_reg (of_nat i)) = 0 \<and>
      bit (fold plic_init_source [0..<n] p (enable_reg 1 (of_nat i))) (i mod 32)) \<and>
    (\<forall>a. (\<forall>i < n. a \<noteq> priority_reg (of_nat i) \<and> a \<noteq> enable_reg 1 (of_nat i)) \<longrightarrow>
      fold plic_init_source [0..<n] p a = p a)"
proof (induction n)
  case (Suc n)
  then have n: "n < PLIC_SRCCNT" by simp
  define q where "q = fold plic_init_source [0..<n] p"
  have IH: "\<And>i. i < n \<Longrightarrow> q (priority_reg (of_nat i)) = 0" "\<And>i. i < n \<Longrightarrow> bit (q (enable_reg 1 (of_nat i))) (i mod 32)"
    "\<And>a. (\<forall>i < n. a \<noteq> priority_reg (of_nat i) \<and> a \<noteq> enable_reg 1 (of_nat i)) \<Longrightarrow> q a = p a"
    using Suc n by (simp_all add: q_def)
  have f: "fold plic_init_source [0..<Suc n] p = plic_init_source n q" by (simp add: q_def)
  have "plic_init_source n q (priority_reg (of_nat i)) = 0" if "i < Suc n" for i
    using that IH(1) [of i] n priority_enable_distinct [of i n]
    by (cases "i = n") (auto simp: plic_init_source_apply)
  moreover have "bit (plic_init_source n q (enable_reg 1 (of_nat i))) (i mod 32)" if "i < Suc n" for i
  proof -
    have "plic_init_source n q (enable_reg 1 (of_nat i)) = q (enable_reg 1 (of_nat i)) OR
        (if enable_reg 1 (of_nat i) = enable_reg 1 (of_nat n) then source_bit (of_nat n) else 0)"
      using plic_init_source_apply [OF n, of q "enable_reg 1 (of_nat i)"] priority_enable_distinct [of n i] n that by auto
    then show ?thesis using bit_source_bit [OF n, of "i mod 32"] IH(2) [of i] that
      by (cases "i = n") (simp_all add: bit_or_iff)
  qed
  moreover have "plic_init_source n q a = p a"
    if "\<forall>i < Suc n. a \<noteq> priority_reg (of_nat i) \<and> a \<noteq> enable_reg 1 (of_nat i)" for a
    using that IH(3) [of a] n by (simp add: plic_init_source_apply)
  ultimately show ?case unfolding f by blast
qed simp

text \<open>
  C31: \<open>plic_init\<close> gives every source priority zero and enables it for context 1 (supervisor mode), and
  writes no register but the priorities and the enable bits of that context.
\<close>
theorem plic_init_correct:
  "(\<forall>i < PLIC_SRCCNT. plic_init p (priority_reg (of_nat i)) = 0 \<and>
      bit (plic_init p (enable_reg 1 (of_nat i))) (i mod 32)) \<and>
   (\<forall>a. (\<forall>i < PLIC_SRCCNT. a \<noteq> priority_reg (of_nat i) \<and> a \<noteq> enable_reg 1 (of_nat i)) \<longrightarrow> plic_init p a = p a)"
  unfolding plic_init_def by (rule plic_init_loop) simp

theorem plic_init_correct_witness:
  "plic_init (\<lambda>_. 7) 0x0C000028 = 0 \<and> plic_init (\<lambda>_. 7) 0x0C200004 = 7"
proof -
  have i: "(10::nat) < PLIC_SRCCNT" by (simp add: PLIC_SRCCNT_def)
  have "priority_reg (of_nat 10) = 0x0C000028" by (simp add: priority_reg_def PLIC_IOBASE_def)
  moreover have "(0x0C200004 :: u64) \<noteq> priority_reg (of_nat j) \<and> 0x0C200004 \<noteq> enable_reg 1 (of_nat j)" if "j < PLIC_SRCCNT" for j
  proof -
    have "unat (priority_reg (of_nat j)) \<noteq> unat (0x0C200004 :: u64)" "unat (enable_reg 1 (of_nat j)) \<noteq> unat (0x0C200004 :: u64)"
      using that unat_priority_reg [OF that] unat_enable_reg [OF that] by (auto simp: PLIC_SRCCNT_def)
    then show ?thesis by metis
  qed
  moreover note plic_init_correct [of "\<lambda>_. 7"]
  ultimately show ?thesis using i by fastforce
qed

text \<open>
  C30: a driver's service routine runs on its interrupt. After \<open>intr_register_isr\<close>, an external interrupt
  that the controller reports for that source calls the registered routine with its argument, once, and then
  tells the controller that the interrupt is handled; a source without a routine, or out of range, stops the kernel.
\<close>
theorem extern_intr_dispatch:
  assumes "length (isrtab s) = NIRQ" and "plic_claim_irq (i_plic s) = irqno" and "0 < irqno" and "irqno < int NIRQ"
    and "fn \<noteq> 0"
  shows "\<exists>s1. intr_register_isr irqno prio fn aux s = Ret s1 \<and>
    extern_intr_handler call s1 =
      obind (call fn irqno aux s1) (\<lambda>s. Ret (s\<lparr>i_plic := (i_plic s)(claim_reg 1 := of_int irqno)\<rparr>)) \<and>
    (isr (isrtab s ! nat irqno) = 0 \<longrightarrow> extern_intr_handler call s = Panic ''unhandled irq'')"
  using assms by (auto simp: intr_register_isr_def extern_intr_handler_def Let_def plic_close_irq_def
      plic_complete_context_interrupt_def)

definition demo_istate :: istate where
  "demo_istate = \<lparr>i_plic = (\<lambda>_. 0)(0x0C201004 := 10), isrtab = replicate 32 \<lparr>isr = 0, isr_aux = 0, isr_prio = 0\<rparr>,
     i_timer = demo_timer, i_kern = boot_state 0x80010000 0x80011000 demo_heap, seie = True\<rparr>"

theorem extern_intr_dispatch_witness:
  "\<exists>s1. intr_register_isr 10 3 0x80002000 0x80014000 demo_istate = Ret s1 \<and>
     extern_intr_handler (\<lambda>fn irqno aux s. if fn = 0x80002000 \<and> aux = 0x80014000 then Ret s else Fault) s1 =
       Ret (s1\<lparr>i_plic := (i_plic s1)(claim_reg 1 := 10)\<rparr>)"
proof -
  have "plic_claim_irq (i_plic demo_istate) = 10" "length (isrtab demo_istate) = NIRQ"
    by (simp_all add: demo_istate_def plic_claim_irq_def plic_claim_context_interrupt_def claim_reg_def PLIC_IOBASE_def
        I_CLAIM_BASE_def NIRQ_def)
  from extern_intr_dispatch [OF this(2,1), of "0x80002000" 3 "0x80014000"
      "\<lambda>fn irqno aux s. if fn = 0x80002000 \<and> aux = 0x80014000 then Ret s else Fault"]
  show ?thesis by (auto simp: NIRQ_def)
qed

lemma a_wakes: "(\<exists>ys. ready (fold a_wake cs a) = ready a @ ys) \<and> run (fold a_wake cs a) = run a"
proof (induction cs arbitrary: a)
  case (Cons c cs)
  obtain ys where "ready (fold a_wake cs (a_wake c a)) = ready (a_wake c a) @ ys" using Cons by blast
  moreover have "ready (a_wake c a) = ready a @ waiting a c" "run (a_wake c a) = run a" by (simp_all add: a_wake_def)
  ultimately show ?case using Cons [of "a_wake c a"] by simp
qed simp

text \<open>
  C29: preemption. When the timer interrupts a thread in user mode, the handler wakes the threads whose alarms
  are due, behind the ready ones, and then hands the processor to the first ready thread; the interrupted thread goes to
  the end of the queue. In supervisor mode the interrupted thread goes on.
\<close>
theorem timer_interrupt_preempts:
  assumes "sleepers (i_timer s) xs" and "by_wake (i_timer s) xs" and "length xs \<le> fuel" and "sched_ok (i_kern s) a"
    and "ready a \<noteq> []"
  shows "\<exists>s'. intr_handler call fuel RISCV_SCAUSE_INTR_EXCODE_STI tfr s = Ret s' \<and>
    sched_ok (i_kern s')
      ((if tfr_sstatus tfr AND RISCV_SSTATUS_SPP = 0 then a_yield else id)
        (fold a_wake (filter (\<lambda>x. twake (alarms (i_timer s) x) \<le> mtime (i_timer s)) xs) a)) \<and>
    tp (i_kern s') = (if tfr_sstatus tfr AND RISCV_SSTATUS_SPP = 0 then hd (ready a) else run a)"
proof -
  let ?due = "filter (\<lambda>x. twake (alarms (i_timer s) x) \<le> mtime (i_timer s)) xs"
  let ?a = "fold a_wake ?due a"
  obtain ts k where 1: "timer_intr_handler fuel (i_timer s, i_kern s) = Ret (ts, k)" "sched_ok k ?a"
    using timer_handler_Ret [OF assms(1-4)] by blast
  have tp: "tp k' = run b" if "sched_ok k' b" for k' b using that by (simp add: sched_ok_def core_def placed_def)
  have "ready ?a \<noteq> []" "hd (ready ?a) = hd (ready a)" using a_wakes [of ?due a] assms(5) by auto
  then obtain k2 where 2: "thread_yield k = Ret k2" "sched_ok k2 (a_yield ?a)" "run (a_yield ?a) = hd (ready a)"
    using thread_yield_step [OF 1(2)] by (auto simp: a_yield_def a_next_def)
  show ?thesis using 1 2 a_wakes [of ?due a] tp [OF 1(2)] tp [OF 2(2)]
    by (cases "tfr_sstatus tfr AND RISCV_SSTATUS_SPP = 0") (auto simp: intr_handler_def)
qed

theorem timer_interrupt_preempts_witness:
  "\<exists>k s'. demo_boot = Ret k \<and>
     intr_handler (\<lambda>_ _ _ _. Fault) 16 RISCV_SCAUSE_INTR_EXCODE_STI \<lparr>tfr_x = [], tfr_sstatus = 0, tfr_sepc = 0\<rparr>
       (demo_istate\<lparr>i_kern := k\<rparr>) = Ret s' \<and> tp (i_kern s') = 0x80011000"
proof -
  obtain k where k: "demo_boot = Ret k"
    "sched_ok k \<lparr>run = 0x80010000, ready = [0x80011000], waiting = (\<lambda>_. [])\<rparr>" using demo_boot_ok by blast
  have "sleepers (i_timer (demo_istate\<lparr>i_kern := k\<rparr>)) []" "by_wake (i_timer (demo_istate\<lparr>i_kern := k\<rparr>)) []"
    "sched_ok (i_kern (demo_istate\<lparr>i_kern := k\<rparr>)) \<lparr>run = 0x80010000, ready = [0x80011000], waiting = (\<lambda>_. [])\<rparr>"
    using k by (simp_all add: sleepers_def by_wake_def demo_istate_def demo_timer_def)
  from timer_interrupt_preempts [OF this(1,2) _ this(3), of 16 "\<lambda>_ _ _ _. Fault"
      "\<lparr>tfr_x = [], tfr_sstatus = 0, tfr_sepc = 0\<rparr>"] k(1)
  show ?thesis by auto
qed

end
