(* ===== verification/PageTable.thy ===== *)
theory PageTable
  imports Memory
begin

text \<open>
  The page tables of \<^verbatim>\<open>kern/memory.c\<close> as a map: the bit fields of an entry, the separation of table
  slots, the invariant of a memory space, and what \<open>walk_pt\<close> and \<open>memory_alloc_and_map_page\<close> do to
  the map that the tables of the user region represent.
\<close>

lemma pte_flags_set_flags [simp]: "pte_flags (set_pte_flags f e) = f"
  by (rule bit_word_eqI) (auto simp: pte_flags_def set_pte_flags_def bit_simps)

lemma pte_flags_set_ppn [simp]: "pte_flags (set_pte_ppn n e) = pte_flags e"
  by (rule bit_word_eqI) (auto simp: pte_flags_def set_pte_ppn_def bit_simps)

lemma pte_ppn_set_ppn [simp]: "pte_ppn (set_pte_ppn n e) = n AND mask 44"
  by (rule bit_word_eqI) (auto simp: pte_ppn_def set_pte_ppn_def bit_simps)

lemma pte_ppn_set_flags [simp]: "pte_ppn (set_pte_flags f e) = pte_ppn e"
  by (rule bit_word_eqI) (auto simp: pte_ppn_def set_pte_flags_def bit_simps dest: bit_imp_le_length)

lemma pte_flags_0 [simp]: "pte_flags 0 = 0"
  by (simp add: pte_flags_def)

lemma page_ok_bits:
  assumes "page_ok p"
  shows "push_bit 12 (drop_bit 12 p) AND push_bit 12 (mask 44) = p"
proof -
  have "unat p mod 2 ^ 12 = 0" using assms by (simp add: page_ok_def)
  then have "take_bit 12 p = 0"
    by (simp add: word_unat_eq_iff unat_mod take_bit_eq_mod)
  then have low: "\<not> bit p n" if "n < 12" for n
    using that bit_take_bit_iff [of 12 p n] by simp
  have "unat p < 2 ^ 32" using page_ok_bound [OF assms] by simp
  then have "take_bit 32 p = p"
    by (simp add: word_unat_eq_iff unsigned_take_bit_eq take_bit_nat_eq_self)
  then have high: "n < 32" if "bit p n" for n using that bit_take_bit_iff [of 32 p n] by simp
  show ?thesis
  proof (rule bit_word_eqI)
    fix n
    assume "n < LENGTH(64)"
    show "bit (push_bit 12 (drop_bit 12 p) AND push_bit 12 (mask 44)) n \<longleftrightarrow> bit p n"
    proof (cases "n < 12")
      case True
      then show ?thesis using low by (simp add: bit_simps)
    next
      case False
      then show ?thesis using high [of n] \<open>n < LENGTH(64)\<close> by (auto simp: bit_simps)
    qed
  qed
qed

lemma pageptr_table [simp]:
  "page_ok p \<Longrightarrow> pagenum_to_pageptr (pte_ppn (ptab_pte p g)) = p"
  by (simp add: pagenum_to_pageptr_def ptab_pte_def pageptr_to_pagenum_def page_ok_bits)

lemma pageptr_leaf [simp]:
  "page_ok p \<Longrightarrow> pagenum_to_pageptr (pageptr_to_pagenum p AND mask 44) = p"
  by (simp add: pagenum_to_pageptr_def pageptr_to_pagenum_def page_ok_bits)

lemma pte_flags_table [simp]: "pte_flags (ptab_pte p g) = g OR PTE_V"
  by (simp add: ptab_pte_def)

lemma VPN_bounds [simp]: "VPN2 v < 512" "VPN1 v < 512" "VPN0 v < 512"
proof -
  have "unat (w AND 0x1FF :: u64) < 512" for w
  proof -
    have "w AND 0x1FF = take_bit 9 w" by (simp add: take_bit_eq_mask mask_eq_exp_minus_1)
    then show ?thesis by (simp add: unat_mod take_bit_eq_mod)
  qed
  then show "VPN2 v < 512" "VPN1 v < 512" "VPN0 v < 512" by (simp_all add: VPN2_def VPN1_def VPN0_def)
qed

lemma unat_slot:
  assumes "page_ok p" and "i < 512"
  shows "unat (slot p i) = unat p + 8 * i"
proof -
  have "unat (8 * of_nat i :: u64) = 8 * i"
    using assms(2) by (simp add: unat_word_ariths unat_of_nat take_bit_nat_eq_self)
  then show ?thesis
    using page_ok_bound [OF assms(1)] assms(2) unfolding slot_def by (subst unat_add_small) auto
qed

lemma slot_in_ram [simp]: "page_ok p \<Longrightarrow> i < 512 \<Longrightarrow> in_ram (slot p i)"
  using page_ok_bound [of p] unat_slot [of p i]
  by (auto simp: page_ok_def in_ram_def RAM_START_def RAM_END_def RAM_SIZE_def word_le_nat_alt
      word_less_nat_alt)

lemma slot_inj:
  assumes "page_ok p" and "page_ok q" and "i < 512" and "j < 512"
  shows "slot p i = slot q j \<longleftrightarrow> p = q \<and> i = j"
proof
  assume eq: "slot p i = slot q j"
  obtain a b where ab: "unat p = 4096 * a" "unat q = 4096 * b"
    using assms(1,2) by (metis page_aligned_obtain)
  have "4096 * a + 8 * i = 4096 * b + 8 * j"
    using eq unat_slot [OF assms(1,3)] unat_slot [OF assms(2,4)] ab by simp
  then have e: "512 * a + i = 512 * b + j" by simp
  have "a = (512 * a + i) div 512" "b = (512 * b + j) div 512" using assms(3,4) by simp_all
  with e have "a = b" by simp
  with e have "i = j" by simp
  note \<open>a = b\<close>
  with \<open>i = j\<close> show "p = q \<and> i = j" using ab by (simp add: word_unat_eq_iff)
qed simp

lemma slot_0: "slot p 0 = p"
  by (simp add: slot_def)

lemma user_VPN2:
  assumes "USER_START_VMA \<le> v" and "v \<le> USER_END_VMA"
  shows "VPN2 v = 3"
proof -
  have u: "unat v div 2 ^ 30 = 3"
    using assms by (simp add: USER_START_VMA_def USER_END_VMA_def word_le_nat_alt)
  have "drop_bit 30 v AND 0x1FF = take_bit 9 (drop_bit 30 v)"
    by (simp add: take_bit_eq_mask mask_eq_exp_minus_1)
  then show ?thesis
    using u by (simp add: VPN2_def unat_mod unat_div take_bit_eq_mod drop_bit_eq_div)
qed

section \<open>The page table of the user region as a map\<close>

text \<open>
  The user region occupies entry 3 of the root table. \<open>pt1\<close> and \<open>pt0\<close> are the tables below it, and
  \<open>uspace\<close> is the map they represent: from the two lower virtual page numbers to the mapped page and
  its flags.
\<close>

definition valid :: "u64 \<Rightarrow> bool" where "valid e \<longleftrightarrow> pte_flags e AND PTE_V \<noteq> 0"
definition tbl :: "u64 \<Rightarrow> u64" where "tbl e = pagenum_to_pageptr (pte_ppn e)"

definition pt1 :: "(u64 \<Rightarrow> u64) \<Rightarrow> u64 \<Rightarrow> u64 option" where
  "pt1 m root = (let e = m (slot root 3) in if valid e then Some (tbl e) else None)"

definition pt0 :: "(u64 \<Rightarrow> u64) \<Rightarrow> u64 \<Rightarrow> nat \<Rightarrow> u64 option" where
  "pt0 m root i =
     (case pt1 m root of
        None \<Rightarrow> None
      | Some p1 \<Rightarrow> let e = m (slot p1 i) in if i < 512 \<and> valid e then Some (tbl e) else None)"

definition uspace :: "(u64 \<Rightarrow> u64) \<Rightarrow> u64 \<Rightarrow> nat \<times> nat \<Rightarrow> (u64 \<times> u8) option" where
  "uspace m root = (\<lambda>(i, j).
     case pt0 m root i of
       None \<Rightarrow> None
     | Some p0 \<Rightarrow> let e = m (slot p0 j) in if j < 512 \<and> valid e then Some (tbl e, pte_flags e) else None)"

definition vpage :: "u64 \<Rightarrow> nat \<times> nat" where
  "vpage v = (VPN1 v, VPN0 v)"

definition tabs :: "(u64 \<Rightarrow> u64) \<Rightarrow> u64 \<Rightarrow> u64 set" where
  "tabs m root = {p. p = root \<or> pt1 m root = Some p \<or> (\<exists>i. pt0 m root i = Some p)}"

text \<open>
  The invariant of a memory space beside a set \<open>F\<close> of free pages: the tables form a tree of distinct
  pages of RAM, no table and no mapped page is free, no mapped page is a table or mapped twice, and
  an invalid leaf entry has no flag set.
\<close>

definition pt_inv :: "(u64 \<Rightarrow> u64) \<Rightarrow> u64 \<Rightarrow> u64 set \<Rightarrow> bool" where
  "pt_inv m root F \<longleftrightarrow>
     page_ok root \<and> root \<notin> F \<and>
     (\<forall>p1. pt1 m root = Some p1 \<longrightarrow> page_ok p1 \<and> p1 \<notin> F \<and> p1 \<noteq> root \<and> pte_flags (m (slot root 3)) = PTE_V) \<and>
     (\<forall>i p0 p1. pt1 m root = Some p1 \<longrightarrow> pt0 m root i = Some p0 \<longrightarrow>
        page_ok p0 \<and> p0 \<notin> F \<and> p0 \<noteq> root \<and> p0 \<noteq> p1 \<and> pte_flags (m (slot p1 i)) = PTE_V) \<and>
     (\<forall>i i' p0. pt0 m root i = Some p0 \<longrightarrow> pt0 m root i' = Some p0 \<longrightarrow> i = i') \<and>
     (\<forall>i p0 j. pt0 m root i = Some p0 \<longrightarrow> j < 512 \<longrightarrow> \<not> valid (m (slot p0 j)) \<longrightarrow>
        pte_flags (m (slot p0 j)) = 0) \<and>
     (\<forall>x pg f. uspace m root x = Some (pg, f) \<longrightarrow> page_ok pg \<and> pg \<notin> F \<and> pg \<notin> tabs m root) \<and>
     (\<forall>x y pg f g. uspace m root x = Some (pg, f) \<longrightarrow> uspace m root y = Some (pg, g) \<longrightarrow> x = y)"

lemma pt_inv_root: "pt_inv m root F \<Longrightarrow> page_ok root" "pt_inv m root F \<Longrightarrow> root \<notin> F"
  by (auto simp: pt_inv_def)

lemma pt_inv_pt1:
  assumes "pt_inv m root F" and "pt1 m root = Some p1"
  shows "page_ok p1" "p1 \<notin> F" "p1 \<noteq> root" "pte_flags (m (slot root 3)) = PTE_V"
  using assms by (simp_all add: pt_inv_def)

lemma pt_inv_pt0:
  assumes "pt_inv m root F" and "pt1 m root = Some p1" and "pt0 m root i = Some p0"
  shows "page_ok p0" "p0 \<notin> F" "p0 \<noteq> root" "p0 \<noteq> p1" "pte_flags (m (slot p1 i)) = PTE_V"
  using assms unfolding pt_inv_def by metis+

lemma pt_inv_inj:
  assumes "pt_inv m root F" and "pt0 m root i = Some p0" and "pt0 m root j = Some p0" shows "i = j"
  using assms unfolding pt_inv_def by metis

lemma pt_inv_flags:
  assumes "pt_inv m root F" and "pt0 m root i = Some p0" and "j < 512" and "\<not> valid (m (slot p0 j))"
  shows "pte_flags (m (slot p0 j)) = 0"
  using assms unfolding pt_inv_def by metis

lemma pt_inv_page:
  assumes "pt_inv m root F" and "uspace m root x = Some (pg, f)"
  shows "page_ok pg" "pg \<notin> F" "pg \<notin> tabs m root"
  using assms unfolding pt_inv_def by metis+

lemma pt_inv_page_inj:
  assumes "pt_inv m root F" and "uspace m root x = Some (pg, f)" and "uspace m root y = Some (pg, g)"
  shows "x = y"
  using assms unfolding pt_inv_def by metis

lemma pt0_pt1: "pt0 m root i = Some p0 \<Longrightarrow> \<exists>p1. pt1 m root = Some p1 \<and> i < 512"
  by (auto simp: pt0_def Let_def split: option.splits if_splits)

lemma pt_invI:
  assumes "page_ok root" and "root \<notin> F"
    and "\<And>p1. pt1 m root = Some p1 \<Longrightarrow>
      page_ok p1 \<and> p1 \<notin> F \<and> p1 \<noteq> root \<and> pte_flags (m (slot root 3)) = PTE_V"
    and "\<And>i p0 p1. pt1 m root = Some p1 \<Longrightarrow> pt0 m root i = Some p0 \<Longrightarrow>
      page_ok p0 \<and> p0 \<notin> F \<and> p0 \<noteq> root \<and> p0 \<noteq> p1 \<and> pte_flags (m (slot p1 i)) = PTE_V"
    and "\<And>i j p0. pt0 m root i = Some p0 \<Longrightarrow> pt0 m root j = Some p0 \<Longrightarrow> i = j"
    and "\<And>i p0 j. pt0 m root i = Some p0 \<Longrightarrow> j < 512 \<Longrightarrow> \<not> valid (m (slot p0 j)) \<Longrightarrow>
      pte_flags (m (slot p0 j)) = 0"
    and "\<And>x pg f. uspace m root x = Some (pg, f) \<Longrightarrow> page_ok pg \<and> pg \<notin> F \<and> pg \<notin> tabs m root"
    and "\<And>x y pg f g. uspace m root x = Some (pg, f) \<Longrightarrow> uspace m root y = Some (pg, g) \<Longrightarrow> x = y"
  shows "pt_inv m root F"
  using assms unfolding pt_inv_def by blast

text \<open>Free pages that have not been used since start-up hold no flags where a table has entries.\<close>

definition clean :: "(u64 \<Rightarrow> u64) \<Rightarrow> u64 set \<Rightarrow> bool" where
  "clean m F \<longleftrightarrow> (\<forall>p \<in> F. \<forall>i < 512. pte_flags (m (slot p i)) = 0)"

definition vm_inv :: "mstate \<Rightarrow> u64 list \<Rightarrow> bool" where
  "vm_inv s ps \<longleftrightarrow> pool s ps \<and> pt_inv (pmem s) (active_space_root s) (set ps) \<and> clean (pmem s) (set ps) \<and>
     heap_start s \<le> heap_end s \<and> unat (heap_end s) - unat (heap_start s) < 4096"

lemma valid_table [simp]: "valid (ptab_pte p g)"
proof -
  have "bit ((g OR PTE_V) AND PTE_V) 0" by (simp add: PTE_V_def bit_simps)
  then show ?thesis by (auto simp: valid_def)
qed

lemma tbl_table [simp]: "page_ok p \<Longrightarrow> tbl (ptab_pte p g) = p"
  by (simp add: tbl_def)

lemma flags_V_table:
  "pte_flags e = PTE_V \<Longrightarrow> \<not> leaf_bits e" "pte_flags e = PTE_V \<Longrightarrow> is_table e" "pte_flags e = PTE_V \<Longrightarrow> valid e"
  by (simp_all add: leaf_bits_def is_table_def valid_def PTE_V_def PTE_R_def PTE_W_def PTE_X_def)

lemma flags_0_invalid: "pte_flags e = 0 \<Longrightarrow> \<not> valid e"
  by (simp add: valid_def)

text \<open>A new level-1 table: the page \<open>p\<close> entered at the root.\<close>

lemma pt_inv_new_pt1:
  assumes inv: "pt_inv m root (insert p F)" and none: "pt1 m root = None" and p: "page_ok p" "p \<notin> F"
    and clean: "\<forall>i < 512. pte_flags (m (slot p i)) = 0"
  defines "m' \<equiv> m(slot root 3 := ptab_pte p 0)"
  shows "pt1 m' root = Some p" "pt_inv m' root F" "uspace m' root = uspace m root"
    "pt0 m' root i = None" "tabs m' root = insert p (tabs m root)"
proof -
  have root: "page_ok root" "root \<notin> F" "p \<noteq> root" using inv by (auto simp: pt_inv_def)
  have same: "m' (slot p i) = m (slot p i)" if "i < 512" for i
    using that root p slot_inj [of p root i 3] by (auto simp: m'_def)
  show pt1: "pt1 m' root = Some p" using p by (simp add: pt1_def m'_def)
  have pt0: "pt0 m' root i = None" for i
    using clean same [of i] by (auto simp: pt0_def pt1 flags_0_invalid Let_def)
  then show "pt0 m' root i = None" .
  have old: "pt0 m root = (\<lambda>i. None)" by (auto simp: pt0_def none)
  have us: "uspace m' root x = None" "uspace m root x = None" for x
    by (auto simp: uspace_def pt0 old split: prod.splits)
  then show "uspace m' root = uspace m root" by auto
  show "tabs m' root = insert p (tabs m root)" by (auto simp: tabs_def pt1 pt0 old none)
  show "pt_inv m' root F"
    unfolding pt_inv_def by (simp add: root pt1 pt0 us p) (simp add: m'_def)
qed

text \<open>A new leaf table: the page \<open>p\<close> entered in the level-1 table.\<close>

lemma pt_inv_new_pt0:
  assumes inv: "pt_inv m root (insert p F)" and p1: "pt1 m root = Some p1" and none: "pt0 m root i = None"
    and i: "i < 512" and p: "page_ok p" "p \<notin> F"
    and clean: "\<forall>i < 512. pte_flags (m (slot p i)) = 0"
  defines "m' \<equiv> m(slot p1 i := ptab_pte p 0)"
  shows "pt1 m' root = Some p1" "pt0 m' root = (pt0 m root)(i \<mapsto> p)" "pt_inv m' root F"
    "uspace m' root = uspace m root" "tabs m' root = insert p (tabs m root)"
proof -
  note q1 = pt_inv_pt1 [OF inv p1] and root = pt_inv_root [OF inv] and q0 = pt_inv_pt0 [OF inv p1]
  have same: "m' (slot q j) = m (slot q j)" if "page_ok q" "j < 512" "q \<noteq> p1 \<or> j \<noteq> i" for q j
    using that i slot_inj [OF that(1) q1(1) that(2) i] by (auto simp: m'_def)
  have new: "m' (slot p1 i) = ptab_pte p 0" by (simp add: m'_def)
  show pt1: "pt1 m' root = Some p1"
    using p1 same [of root 3] root q1 by (simp add: pt1_def)
  show pt0: "pt0 m' root = (pt0 m root)(i \<mapsto> p)"
  proof
    fix j
    show "pt0 m' root j = ((pt0 m root)(i \<mapsto> p)) j"
      using p i same [of p1 j] q1 new by (cases "j = i") (auto simp: pt0_def pt1 p1 Let_def)
  qed
  have leaf: "uspace m' root (a, b) = uspace m root (a, b)" for a b
  proof (cases "a = i")
    case True
    have "b < 512 \<Longrightarrow> \<not> valid (m' (slot p b))"
      using clean same [of p b] p q1 by (auto simp: flags_0_invalid)
    with True show ?thesis by (auto simp: uspace_def pt0 none Let_def)
  next
    case False
    show ?thesis
    proof (cases "pt0 m root a")
      case None
      with False show ?thesis by (simp add: uspace_def pt0)
    next
      case (Some q)
      with False show ?thesis
        using same [of q b] q0 [OF Some] by (auto simp: uspace_def pt0 Let_def)
    qed
  qed
  then show us: "uspace m' root = uspace m root" by auto
  show tabs: "tabs m' root = insert p (tabs m root)"
  proof -
    have "(\<exists>a. ((pt0 m root)(i \<mapsto> p)) a = Some q) \<longleftrightarrow> q = p \<or> (\<exists>a. pt0 m root a = Some q)" for q
      using none by (metis fun_upd_apply option.distinct(1) option.inject)
    then show ?thesis unfolding tabs_def pt1 pt0 p1 by blast
  qed
  have lb: "pte_flags (m' (slot p1 j)) = PTE_V" if "pt0 m' root j = Some q" for j q
    using that q0(5) same [of p1 j] q1 by (cases "j = i") (auto simp: pt0 new pt0_def Let_def p1 split: if_splits)
  have fl: "pte_flags (m' (slot q j)) = 0" if "pt0 m' root a = Some q" "j < 512" "\<not> valid (m' (slot q j))" for a q j
  proof (cases "a = i")
    case True
    then show ?thesis using that clean same [of p j] p q1 by (auto simp: pt0)
  next
    case False
    with that have a: "pt0 m root a = Some q" by (simp add: pt0)
    then show ?thesis using that same [of q j] q0 [OF a] pt_inv_flags [OF inv a] by simp
  qed
  show "pt_inv m' root F"
  proof (rule pt_invI)
    show "page_ok root" "root \<notin> F" using root by auto
    show "page_ok q \<and> q \<notin> F \<and> q \<noteq> root \<and> pte_flags (m' (slot root 3)) = PTE_V" if "pt1 m' root = Some q" for q
      using that q1 root same [of root 3] by (simp add: pt1)
    show "page_ok q \<and> q \<notin> F \<and> q \<noteq> root \<and> q \<noteq> r \<and> pte_flags (m' (slot r a)) = PTE_V"
      if "pt1 m' root = Some r" "pt0 m' root a = Some q" for a q r
      using that p q0 q1 root lb [OF that(2)] by (auto simp: pt0 pt1 split: if_splits)
    show "a = b" if "pt0 m' root a = Some q" "pt0 m' root b = Some q" for a b q
      using that pt_inv_inj [OF inv, of a q b] q0(2) [of a] q0(2) [of b] by (auto simp: pt0 split: if_splits)
    show "page_ok pg \<and> pg \<notin> F \<and> pg \<notin> tabs m' root" if "uspace m' root x = Some (pg, f)" for x pg f
      using that pt_inv_page [OF inv, of x pg f] by (simp add: us tabs)
    show "x = y" if "uspace m' root x = Some (pg, f)" "uspace m' root y = Some (pg, g)" for x y pg f g
      using that pt_inv_page_inj [OF inv] by (simp add: us)
  qed (rule fl)
qed

lemma tabs_memI: "pt1 m root = Some p \<Longrightarrow> p \<in> tabs m root" "pt0 m root i = Some p \<Longrightarrow> p \<in> tabs m root"
  "root \<in> tabs m root"
  by (auto simp: tabs_def)

lemma pt_inv_mono:
  assumes "pt_inv m root F" and "G \<subseteq> F" shows "pt_inv m root G"
proof (rule pt_invI)
  note inv = assms(1)
  show "page_ok root" "root \<notin> G" using pt_inv_root [OF inv] assms(2) by auto
  show "page_ok p1 \<and> p1 \<notin> G \<and> p1 \<noteq> root \<and> pte_flags (m (slot root 3)) = PTE_V" if "pt1 m root = Some p1" for p1
    using pt_inv_pt1 [OF inv that] assms(2) by auto
  show "page_ok p0 \<and> p0 \<notin> G \<and> p0 \<noteq> root \<and> p0 \<noteq> p1 \<and> pte_flags (m (slot p1 i)) = PTE_V"
    if "pt1 m root = Some p1" "pt0 m root i = Some p0" for i p0 p1
    using pt_inv_pt0 [OF inv that] assms(2) by auto
  show "page_ok pg \<and> pg \<notin> G \<and> pg \<notin> tabs m root" if "uspace m root x = Some (pg, f)" for x pg f
    using pt_inv_page [OF inv that] assms(2) by auto
  show "i = j" if "pt0 m root i = Some p0" "pt0 m root j = Some p0" for i j p0
    using pt_inv_inj [OF inv that] .
  show "pte_flags (m (slot p0 j)) = 0" if "pt0 m root i = Some p0" "j < 512" "\<not> valid (m (slot p0 j))" for i p0 j
    using pt_inv_flags [OF inv that] .
  show "x = y" if "uspace m root x = Some (pg, f)" "uspace m root y = Some (pg, g)" for x y pg f g
    using pt_inv_page_inj [OF inv that] .
qed

lemma pt_inv_tabs:
  assumes "pt_inv m root F" and "p \<in> tabs m root" shows "page_ok p \<and> p \<notin> F"
proof -
  consider "p = root" | "pt1 m root = Some p" | i where "pt0 m root i = Some p"
    using assms(2) by (auto simp: tabs_def)
  then show ?thesis
  proof cases
    case 3
    then obtain p1 where "pt1 m root = Some p1" using pt0_pt1 by blast
    with 3 show ?thesis using pt_inv_pt0 [OF assms(1)] by blast
  qed (use pt_inv_root [OF assms(1)] pt_inv_pt1 [OF assms(1)] in auto)
qed

text \<open>The tables depend on nothing but their own pages.\<close>

lemma tables_agree:
  assumes inv: "pt_inv m root F"
    and same: "\<And>p i. p \<in> tabs m root \<Longrightarrow> i < 512 \<Longrightarrow> m' (slot p i) = m (slot p i)"
  shows "pt1 m' root = pt1 m root" "pt0 m' root = pt0 m root" "uspace m' root = uspace m root"
    "tabs m' root = tabs m root"
proof -
  show p1: "pt1 m' root = pt1 m root" using same [of root 3] tabs_memI(3) by (simp add: pt1_def)
  show p0: "pt0 m' root = pt0 m root"
  proof
    fix i
    show "pt0 m' root i = pt0 m root i"
    proof (cases "pt1 m root")
      case (Some q)
      then show ?thesis using same [OF tabs_memI(1) [OF Some], of i] by (auto simp: pt0_def p1 Let_def)
    qed (simp add: pt0_def p1)
  qed
  show "uspace m' root = uspace m root"
  proof
    fix x :: "nat \<times> nat"
    obtain i j where x: "x = (i, j)" by (cases x)
    show "uspace m' root x = uspace m root x"
    proof (cases "pt0 m root i")
      case (Some q)
      then show ?thesis using same [OF tabs_memI(2) [OF Some], of j] by (auto simp: uspace_def p0 x Let_def)
    qed (simp add: uspace_def p0 x)
  qed
  show "tabs m' root = tabs m root" by (simp add: tabs_def p1 p0)
qed

lemma pt_inv_agree:
  assumes inv: "pt_inv m root F"
    and same: "\<And>p i. p \<in> tabs m root \<Longrightarrow> i < 512 \<Longrightarrow> m' (slot p i) = m (slot p i)"
  shows "pt_inv m' root F"
proof -
  note t = tables_agree [OF inv same]
  show ?thesis
  proof (rule pt_invI)
    show "page_ok root" "root \<notin> F" using pt_inv_root [OF inv] by auto
    show "page_ok p1 \<and> p1 \<notin> F \<and> p1 \<noteq> root \<and> pte_flags (m' (slot root 3)) = PTE_V" if "pt1 m' root = Some p1" for p1
      using that pt_inv_pt1 [OF inv] same [OF tabs_memI(3), of 3] by (simp add: t)
    show "page_ok p0 \<and> p0 \<notin> F \<and> p0 \<noteq> root \<and> p0 \<noteq> p1 \<and> pte_flags (m' (slot p1 i)) = PTE_V"
      if "pt1 m' root = Some p1" "pt0 m' root i = Some p0" for i p0 p1
    proof -
      have a: "pt1 m root = Some p1" "pt0 m root i = Some p0" using that by (simp_all add: t)
      have "i < 512" using pt0_pt1 [OF a(2)] by blast
      then show ?thesis using pt_inv_pt0 [OF inv a] same [OF tabs_memI(1) [OF a(1)]] by simp
    qed
    show "i = j" if "pt0 m' root i = Some p0" "pt0 m' root j = Some p0" for i j p0
      using that pt_inv_inj [OF inv] by (simp add: t)
    show "pte_flags (m' (slot p0 j)) = 0" if "pt0 m' root i = Some p0" "j < 512" "\<not> valid (m' (slot p0 j))" for i p0 j
    proof -
      have a: "pt0 m root i = Some p0" using that by (simp add: t)
      show ?thesis using pt_inv_flags [OF inv a that(2)] same [OF tabs_memI(2) [OF a] that(2)] that(3) by simp
    qed
    show "page_ok pg \<and> pg \<notin> F \<and> pg \<notin> tabs m' root" if "uspace m' root x = Some (pg, f)" for x pg f
      using that pt_inv_page [OF inv, of x pg f] by (simp add: t)
    show "x = y" if "uspace m' root x = Some (pg, f)" "uspace m' root y = Some (pg, g)" for x y pg f g
      using that pt_inv_page_inj [OF inv] by (simp add: t)
  qed
qed

text \<open>A store into a leaf table.\<close>

lemma pt_inv_set_leaf:
  fixes e :: u64
  assumes inv: "pt_inv m root F" and p0: "pt0 m root i = Some p0" and j: "j < 512"
  defines "m' \<equiv> m(slot p0 j := e)"
  shows "pt1 m' root = pt1 m root" "pt0 m' root = pt0 m root" "tabs m' root = tabs m root"
    "uspace m' root = (uspace m root)((i, j) := if valid e then Some (tbl e, pte_flags e) else None)"
proof -
  obtain p1 where p1: "pt1 m root = Some p1" using pt0_pt1 p0 by blast
  note q0 = pt_inv_pt0 [OF inv p1 p0] and q1 = pt_inv_pt1 [OF inv p1] and root = pt_inv_root [OF inv]
  have same: "m' (slot q k) = m (slot q k)" if "page_ok q" "k < 512" "q \<noteq> p0 \<or> k \<noteq> j" for q k
    using that slot_inj [OF that(1) q0(1) that(2) j] by (auto simp: m'_def)
  show r1: "pt1 m' root = pt1 m root" using same [of root 3] root q0 by (auto simp: pt1_def)
  show r0: "pt0 m' root = pt0 m root"
  proof
    fix k
    show "pt0 m' root k = pt0 m root k" using same [of p1 k] q1 q0 by (auto simp: pt0_def r1 p1 Let_def)
  qed
  show "tabs m' root = tabs m root" by (simp add: tabs_def r1 r0)
  show "uspace m' root = (uspace m root)((i, j) := if valid e then Some (tbl e, pte_flags e) else None)"
  proof
    fix x :: "nat \<times> nat"
    obtain a b where x: "x = (a, b)" by (cases x)
    have new: "m' (slot p0 j) = e" by (simp add: m'_def)
    show "uspace m' root x = ((uspace m root)((i, j) := if valid e then Some (tbl e, pte_flags e) else None)) x"
    proof (cases "pt0 m root a")
      case None
      then show ?thesis using p0 by (auto simp: uspace_def x r0)
    next
      case (Some q)
      have "q = p0 \<longleftrightarrow> a = i" using pt_inv_inj [OF inv] Some p0 by auto
      then show ?thesis using Some p0 j new same [of q b] pt_inv_pt0(1) [OF inv p1 Some]
        by (cases "b = j") (auto simp: uspace_def x r0 Let_def)
    qed
  qed
qed

lemma pt_inv_set_leaf_inv:
  assumes inv: "pt_inv m root F" and p0: "pt0 m root i = Some p0" and j: "j < 512"
    and ok: "valid e \<Longrightarrow> page_ok (tbl e) \<and> tbl e \<notin> F \<and> tbl e \<notin> tabs m root"
    and fresh: "\<And>y f. valid e \<Longrightarrow> uspace m root y = Some (tbl e, f) \<Longrightarrow> y = (i, j)"
    and fl: "\<not> valid e \<Longrightarrow> pte_flags e = 0"
  shows "pt_inv (m(slot p0 j := e)) root F"
proof -
  let ?m = "m(slot p0 j := e)"
  note t = pt_inv_set_leaf [OF inv p0 j, of e]
  obtain p1 where p1: "pt1 m root = Some p1" using pt0_pt1 p0 by blast
  note q0 = pt_inv_pt0 [OF inv p1 p0] and q1 = pt_inv_pt1 [OF inv p1] and root = pt_inv_root [OF inv]
  have same: "?m (slot q k) = m (slot q k)" if "page_ok q" "k < 512" "q \<noteq> p0 \<or> k \<noteq> j" for q k
    using that slot_inj [OF that(1) q0(1) that(2) j] by auto
  show ?thesis
  proof (rule pt_invI)
    show "page_ok root" "root \<notin> F" using root by auto
    show "page_ok q \<and> q \<notin> F \<and> q \<noteq> root \<and> pte_flags (?m (slot root 3)) = PTE_V" if "pt1 ?m root = Some q" for q
      using that q1 q0 root same [of root 3] by (simp add: t p1)
    show "page_ok q \<and> q \<notin> F \<and> q \<noteq> root \<and> q \<noteq> r \<and> pte_flags (?m (slot r a)) = PTE_V"
      if "pt1 ?m root = Some r" "pt0 ?m root a = Some q" for a q r
    proof -
      have r: "r = p1" and a: "pt0 m root a = Some q" using that by (auto simp: t p1)
      have "a < 512" using pt0_pt1 [OF a] by blast
      then show ?thesis using pt_inv_pt0 [OF inv p1 a] same [of p1 a] q1 q0 by (simp add: r)
    qed
    show "a = b" if "pt0 ?m root a = Some q" "pt0 ?m root b = Some q" for a b q
      using that pt_inv_inj [OF inv] by (simp add: t)
    show "pte_flags (?m (slot q k)) = 0" if "pt0 ?m root a = Some q" "k < 512" "\<not> valid (?m (slot q k))" for a q k
    proof (cases "q = p0 \<and> k = j")
      case True
      then show ?thesis using that fl by simp
    next
      case False
      have a: "pt0 m root a = Some q" using that by (simp add: t)
      have "page_ok q" using pt_inv_pt0 [OF inv p1 a] by blast
      then show ?thesis using that False same [of q k] pt_inv_flags [OF inv a] by simp
    qed
    show "page_ok pg \<and> pg \<notin> F \<and> pg \<notin> tabs ?m root" if "uspace ?m root x = Some (pg, f)" for x pg f
      using that pt_inv_page [OF inv, of x pg f] ok by (auto simp: t split: if_splits)
    show "x = y" if "uspace ?m root x = Some (pg, f)" "uspace ?m root y = Some (pg, g)" for x y pg f g
      using that pt_inv_page_inj [OF inv, of x pg f y g] fresh [of x f] fresh [of y g]
      by (auto simp: t split: if_splits)
  qed
qed

lemma sv39_user:
  assumes inv: "pt_inv m root F" and v: "VPN2 v = 3"
  shows "sv39 m root v =
    (case uspace m root (vpage v) of
       None \<Rightarrow> None
     | Some (pg, f) \<Rightarrow> if f AND (PTE_R OR PTE_X) = 0 then None else Some (pg OR (v AND mask 12), f))"
proof (cases "pt1 m root")
  case None
  then show ?thesis
    by (simp add: sv39_def v uspace_def vpage_def pt0_def pt1_def valid_def Let_def split: if_splits)
next
  case (Some p1)
  then have e2: "valid (m (slot root 3))" "tbl (m (slot root 3)) = p1"
    by (auto simp: pt1_def Let_def split: if_splits)
  show ?thesis
  proof (cases "pt0 m root (VPN1 v)")
    case None
    then have "\<not> valid (m (slot p1 (VPN1 v)))" using Some by (simp add: pt0_def Let_def split: if_splits)
    then show ?thesis
      using None e2 flags_V_table(1) [OF pt_inv_pt1(4) [OF inv Some]] by (simp add: sv39_def v uspace_def vpage_def valid_def tbl_def)
  next
    case (Some p0)
    then have e1: "valid (m (slot p1 (VPN1 v)))" "tbl (m (slot p1 (VPN1 v))) = p0"
      using \<open>pt1 m root = Some p1\<close> by (auto simp: pt0_def Let_def split: if_splits)
    show ?thesis
      using Some e1 e2 flags_V_table(1) [OF pt_inv_pt1(4) [OF inv \<open>pt1 m root = Some p1\<close>]]
        flags_V_table(1) [OF pt_inv_pt0(5) [OF inv \<open>pt1 m root = Some p1\<close> Some]]
      by (auto simp: sv39_def v uspace_def vpage_def valid_def tbl_def leaf_bits_def Let_def)
  qed
qed

lemma walk_level_valid:
  assumes "page_ok pt" and "i < 512" and "valid (pmem s (slot pt i))"
  shows "walk_level pt i create s = Ret (tbl (pmem s (slot pt i)), s)"
  using assms by (simp add: walk_level_def load_def valid_def tbl_def)

lemma walk_level_new:
  assumes "page_ok pt" and "i < 512" and "\<not> valid (pmem s (slot pt i))" and "pool s (p # ps)"
    and "heap_start s \<le> heap_end s" and "unat (heap_end s) - unat (heap_start s) < 4096"
  shows "walk_level pt i True s =
    Ret (p, s\<lparr>free_list := pmem s p, pmem := (pmem s)(slot pt i := ptab_pte p 0)\<rparr>)"
proof -
  have p: "page_ok p" using pa.free_ok [OF assms(4), of p] by simp
  have k: "kmalloc PAGE_SIZE s = Ret (p, s\<lparr>free_list := pmem s p\<rparr>)"
    using kmalloc_page [OF assms(6,5)] memory_alloc_page_Cons [OF assms(4)] by simp
  from assms(3) have "pte_flags (pmem s (slot pt i)) AND PTE_V = 0" by (simp add: valid_def)
  then show ?thesis
    using assms(1,2) p k by (simp add: walk_level_def load_def store_def)
qed

text \<open>Entering a free page in a table keeps the rest of the state in order.\<close>

lemma slot_notin_pages:
  assumes "page_ok pt" and "i < 512" and "pt \<notin> set ps" and "\<And>p. p \<in> set ps \<Longrightarrow> page_ok p"
  shows "slot pt i \<notin> set ps"
proof
  assume "slot pt i \<in> set ps"
  then have "slot pt i = slot (slot pt i) 0" "page_ok (slot pt i)" using assms(4) by (simp_all add: slot_0)
  with slot_inj [OF assms(1) this(2) assms(2), of 0] show False
    using \<open>slot pt i \<in> set ps\<close> assms(3) by (auto simp: slot_0)
qed

lemma vm_inv_new_table:
  fixes e :: u64
  assumes "vm_inv s (p # ps)" and pt: "page_ok pt" "pt \<notin> set (p # ps)" "i < 512"
  defines "s1 \<equiv> s\<lparr>free_list := pmem s p, pmem := (pmem s)(slot pt i := e)\<rparr>"
  assumes "pt_inv (pmem s1) (active_space_root s) (set ps)"
  shows "vm_inv s1 ps"
proof -
  have po: "pool s (p # ps)" using assms(1) by (simp add: vm_inv_def)
  have ok: "page_ok q" if "q \<in> set ps" for q using pa.free_ok [OF po] that by simp
  have "slot pt i \<notin> set ps" using slot_notin_pages [OF pt(1,3)] pt(2) ok by auto
  then have "pool s1 ps" using po by (simp add: pool_def s1_def)
  moreover have "clean (pmem s1) (set ps)"
  proof -
    have "pte_flags (pmem s (slot q j)) = 0" if "q \<in> set ps" "j < 512" for q j
      using assms(1) that by (simp add: vm_inv_def clean_def)
    moreover have "slot q j \<noteq> slot pt i" if "q \<in> set ps" "j < 512" for q j
      using slot_inj [OF ok [OF that(1)] pt(1) that(2) pt(3)] that pt(2) by auto
    ultimately show ?thesis by (simp add: clean_def s1_def)
  qed
  ultimately show ?thesis
    using assms(1,6) by (simp add: vm_inv_def s1_def active_space_root_def active_space_mtag_def)
qed

text \<open>What walking with \<open>CREATE_PTE\<close> does to one level.\<close>

definition extends :: "mstate \<Rightarrow> u64 list \<Rightarrow> mstate \<Rightarrow> bool" where
  "extends s qs s' \<longleftrightarrow> active_space_root s' = active_space_root s \<and>
     uspace (pmem s') (active_space_root s) = uspace (pmem s) (active_space_root s) \<and>
     tabs (pmem s') (active_space_root s) = tabs (pmem s) (active_space_root s) \<union> set qs \<and>
     (\<forall>p i. page_ok p \<longrightarrow> p \<notin> tabs (pmem s) (active_space_root s) \<union> set qs \<longrightarrow> i < 512 \<longrightarrow>
        pmem s' (slot p i) = pmem s (slot p i))"

lemma extends_refl: "extends s [] s"
  by (simp add: extends_def)

lemma extends_trans:
  assumes "extends s qs s1" and "extends s1 rs s2"
  shows "extends s (qs @ rs) s2"
  using assms by (simp add: extends_def Un_assoc)

lemma active_space_root_simps [simp]:
  "active_space_root (s\<lparr>free_list := a\<rparr>) = active_space_root s"
  "active_space_root (s\<lparr>pmem := m\<rparr>) = active_space_root s"
  by (simp_all add: active_space_root_def active_space_mtag_def)

lemma walk_root_create:
  assumes inv: "vm_inv s ps" and ne: "ps \<noteq> []"
  shows "\<exists>p1 s' qs ps'. walk_level (active_space_root s) 3 True s = Ret (p1, s') \<and> ps = qs @ ps' \<and>
    length qs \<le> 1 \<and> vm_inv s' ps' \<and> extends s qs s' \<and> pt1 (pmem s') (active_space_root s) = Some p1"
proof -
  let ?r = "active_space_root s"
  have pi: "pt_inv (pmem s) ?r (set ps)" using inv by (simp add: vm_inv_def)
  note root = pt_inv_root [OF pi]
  show ?thesis
  proof (cases "valid (pmem s (slot ?r 3))")
    case True
    then show ?thesis
      using walk_level_valid [OF root(1), of 3 s True] inv extends_refl [of s]
      by (intro exI [of _ "tbl (pmem s (slot ?r 3))"] exI [of _ s] exI [of _ "[]"] exI [of _ ps])
        (simp add: pt1_def)
  next
    case False
    obtain p rs where ps: "ps = p # rs" using ne by (cases ps) auto
    let ?s = "s\<lparr>free_list := pmem s p, pmem := (pmem s)(slot ?r 3 := ptab_pte p 0)\<rparr>"
    have po: "pool s (p # rs)" and cl: "\<forall>i < 512. pte_flags (pmem s (slot p i)) = 0"
      using inv ps by (auto simp: vm_inv_def clean_def)
    have p: "page_ok p" "p \<notin> set rs" using pa.free_ok [OF po] pa.free_distinct [OF po] by auto
    have none: "pt1 (pmem s) ?r = None" using False by (simp add: pt1_def)
    have pi': "pt_inv (pmem s) ?r (insert p (set rs))" using pi ps by simp
    note new = pt_inv_new_pt1 [OF pi' none p cl]
    have w: "walk_level ?r 3 True s = Ret (p, ?s)"
      using walk_level_new [OF root(1) _ False po] inv by (simp add: vm_inv_def)
    have v: "vm_inv ?s rs"
      by (rule vm_inv_new_table [OF inv [unfolded ps] root(1)]) (use root ps new(2) in simp_all)
    have frame: "((pmem s)(slot ?r 3 := ptab_pte p 0)) (slot q i) = pmem s (slot q i)"
      if "page_ok q" "q \<notin> tabs (pmem s) ?r \<union> set [p]" "i < 512" for q i
      using that slot_inj [OF that(1) root(1) that(3), of 3] tabs_memI(3) by auto
    have "extends s [p] ?s" using new frame by (simp add: extends_def)
    then show ?thesis using w v ps new(1)
      by (intro exI [of _ p] exI [of _ ?s] exI [of _ "[p]"] exI [of _ rs]) simp
  qed
qed

lemma walk_dir_create:
  assumes inv: "vm_inv s ps" and ne: "ps \<noteq> []" and p1: "pt1 (pmem s) (active_space_root s) = Some p1"
    and i: "i < 512"
  shows "\<exists>p0 s' qs ps'. walk_level p1 i True s = Ret (p0, s') \<and> ps = qs @ ps' \<and>
    length qs \<le> 1 \<and> vm_inv s' ps' \<and> extends s qs s' \<and> pt0 (pmem s') (active_space_root s) i = Some p0"
proof -
  let ?r = "active_space_root s"
  have pi: "pt_inv (pmem s) ?r (set ps)" using inv by (simp add: vm_inv_def)
  note q1 = pt_inv_pt1 [OF pi p1]
  show ?thesis
  proof (cases "valid (pmem s (slot p1 i))")
    case True
    then show ?thesis
      using walk_level_valid [OF q1(1) i, of s True] inv extends_refl [of s] i p1
      by (intro exI [of _ "tbl (pmem s (slot p1 i))"] exI [of _ s] exI [of _ "[]"] exI [of _ ps])
        (simp add: pt0_def)
  next
    case False
    obtain p rs where ps: "ps = p # rs" using ne by (cases ps) auto
    let ?s = "s\<lparr>free_list := pmem s p, pmem := (pmem s)(slot p1 i := ptab_pte p 0)\<rparr>"
    have po: "pool s (p # rs)" and cl: "\<forall>i < 512. pte_flags (pmem s (slot p i)) = 0"
      using inv ps by (auto simp: vm_inv_def clean_def)
    have p: "page_ok p" "p \<notin> set rs" using pa.free_ok [OF po] pa.free_distinct [OF po] by auto
    have none: "pt0 (pmem s) ?r i = None" using False p1 by (simp add: pt0_def)
    have pi': "pt_inv (pmem s) ?r (insert p (set rs))" using pi ps by simp
    note new = pt_inv_new_pt0 [OF pi' p1 none i p cl]
    have w: "walk_level p1 i True s = Ret (p, ?s)"
      using walk_level_new [OF q1(1) i False po] inv by (simp add: vm_inv_def)
    have v: "vm_inv ?s rs"
      by (rule vm_inv_new_table [OF inv [unfolded ps] q1(1)]) (use q1 ps new(3) i in simp_all)
    have frame: "((pmem s)(slot p1 i := ptab_pte p 0)) (slot q j) = pmem s (slot q j)"
      if "page_ok q" "q \<notin> tabs (pmem s) ?r \<union> set [p]" "j < 512" for q j
      using that slot_inj [OF that(1) q1(1) that(3) i] tabs_memI(1) [OF p1] by auto
    have "extends s [p] ?s" using new frame by (simp add: extends_def)
    then show ?thesis using w v ps new(2)
      by (intro exI [of _ p] exI [of _ ?s] exI [of _ "[p]"] exI [of _ rs]) simp
  qed
qed

lemma walk_pt_create:
  assumes inv: "vm_inv s ps" and v: "VPN2 v = 3" and len: "2 \<le> length ps"
  shows "\<exists>p0 s' qs ps'. walk_pt (active_space_root s) v True s = Ret (slot p0 (VPN0 v), s') \<and> ps = qs @ ps' \<and>
    length qs \<le> 2 \<and> vm_inv s' ps' \<and> extends s qs s' \<and> pt0 (pmem s') (active_space_root s) (VPN1 v) = Some p0"
proof -
  obtain p1 s1 qs1 ps1 where w1: "walk_level (active_space_root s) 3 True s = Ret (p1, s1)"
    and ps: "ps = qs1 @ ps1" "length qs1 \<le> 1" and inv1: "vm_inv s1 ps1" and e1: "extends s qs1 s1"
    and p1: "pt1 (pmem s1) (active_space_root s) = Some p1"
    using walk_root_create [OF inv] len by fastforce
  have r: "active_space_root s1 = active_space_root s" using e1 by (simp add: extends_def)
  have "ps1 \<noteq> []" using ps len by auto
  then obtain p0 s2 qs2 ps2 where w2: "walk_level p1 (VPN1 v) True s1 = Ret (p0, s2)"
    and ps2: "ps1 = qs2 @ ps2" "length qs2 \<le> 1" and inv2: "vm_inv s2 ps2" and e2: "extends s1 qs2 s2"
    and p0: "pt0 (pmem s2) (active_space_root s) (VPN1 v) = Some p0"
    using walk_dir_create [OF inv1 _ p1 [folded r], of "VPN1 v"] unfolding r by auto
  have "walk_pt (active_space_root s) v True s = Ret (slot p0 (VPN0 v), s2)"
    using w1 w2 v by (simp add: walk_pt_def)
  moreover have "ps = (qs1 @ qs2) @ ps2" "length (qs1 @ qs2) \<le> 2" using ps ps2 by auto
  ultimately show ?thesis using inv2 extends_trans [OF e1 e2] p0 by blast
qed

lemma walk_pt_lookup:
  assumes inv: "pt_inv (pmem s) root F" and v: "VPN2 v = 3" and p0: "pt0 (pmem s) root (VPN1 v) = Some p0"
  shows "walk_pt root v create s = Ret (slot p0 (VPN0 v), s)"
proof -
  obtain p1 where p1: "pt1 (pmem s) root = Some p1" using pt0_pt1 [OF p0] by blast
  have e2: "valid (pmem s (slot root 3))" "tbl (pmem s (slot root 3)) = p1"
    using p1 by (auto simp: pt1_def Let_def split: if_splits)
  have e1: "valid (pmem s (slot p1 (VPN1 v)))" "tbl (pmem s (slot p1 (VPN1 v))) = p0"
    using p0 p1 by (auto simp: pt0_def Let_def split: if_splits)
  show ?thesis
    using walk_level_valid [OF pt_inv_root(1) [OF inv], of 3 s create]
      walk_level_valid [OF pt_inv_pt1(1) [OF inv p1], of "VPN1 v" s create] e1 e2
    by (simp add: walk_pt_def v)
qed

definition old_flags :: "mstate \<Rightarrow> nat \<times> nat \<Rightarrow> u8" where
  "old_flags s x = (case uspace (pmem s) (active_space_root s) x of None \<Rightarrow> 0 | Some (pg, f) \<Rightarrow> f)"

lemma vm_inv_alloc:
  assumes "vm_inv s (p # ps)"
  shows "memory_alloc_page s = Ret (p, s\<lparr>free_list := pmem s p\<rparr>)" "vm_inv (s\<lparr>free_list := pmem s p\<rparr>) ps"
    "page_ok p" "p \<notin> set ps"
proof -
  have po: "pool s (p # ps)" using assms by (simp add: vm_inv_def)
  show "memory_alloc_page s = Ret (p, s\<lparr>free_list := pmem s p\<rparr>)" "page_ok p" "p \<notin> set ps"
    using memory_alloc_page_Cons [OF po] pa.free_ok [OF po] pa.free_distinct [OF po] by auto
  show "vm_inv (s\<lparr>free_list := pmem s p\<rparr>) ps"
    using assms memory_alloc_page_Cons [OF po] pt_inv_mono [of "pmem s" "active_space_root s" "set (p # ps)" "set ps"]
    by (auto simp: vm_inv_def clean_def)
qed

lemma vm_inv_set_leaf:
  assumes inv: "vm_inv s ps" and p0: "pt0 (pmem s) (active_space_root s) i = Some p0" and j: "j < 512"
    and pi: "pt_inv ((pmem s)(slot p0 j := e)) (active_space_root s) (set ps)"
  shows "vm_inv (s\<lparr>pmem := (pmem s)(slot p0 j := e)\<rparr>) ps"
proof -
  have po: "pool s ps" and pt: "pt_inv (pmem s) (active_space_root s) (set ps)" using inv by (auto simp: vm_inv_def)
  have q0: "page_ok p0" "p0 \<notin> set ps" using pt_inv_tabs [OF pt tabs_memI(2) [OF p0]] by auto
  have ok: "page_ok q" if "q \<in> set ps" for q using pa.free_ok [OF po that] .
  have "slot p0 j \<notin> set ps" using slot_notin_pages [OF q0(1) j q0(2) ok] .
  moreover have "slot q k \<noteq> slot p0 j" if "q \<in> set ps" "k < 512" for q k
    using slot_inj [OF ok [OF that(1)] q0(1) that(2) j] that q0(2) by auto
  ultimately show ?thesis
    using inv pi by (simp add: vm_inv_def pool_def clean_def)
qed

lemma pte_update_Ret:
  "page_ok p \<Longrightarrow> i < 512 \<Longrightarrow>
     pte_update (slot p i) f s = Ret (s\<lparr>pmem := (pmem s)(slot p i := f (pmem s (slot p i)))\<rparr>)"
  by (simp add: pte_update_def load_def store_def)

lemma valid_or_V [simp]: "pte_flags e = g OR PTE_V \<Longrightarrow> valid e"
proof -
  have "bit ((g OR PTE_V) AND PTE_V) 0" by (simp add: PTE_V_def bit_simps)
  then show "pte_flags e = g OR PTE_V \<Longrightarrow> valid e" by (auto simp: valid_def)
qed

lemma map_page:
  assumes inv: "vm_inv s (pg # ps)" and v: "VPN2 v = 3" and len: "2 \<le> length ps"
  defines "root \<equiv> active_space_root s" and "x \<equiv> vpage v"
  shows "\<exists>s' qs ps'. memory_alloc_and_map_page v f s = Ret (v, s') \<and> ps = qs @ ps' \<and> length qs \<le> 2 \<and>
    vm_inv s' ps' \<and> active_space_root s' = root \<and>
    uspace (pmem s') root = (uspace (pmem s) root)(x \<mapsto> (pg, old_flags s x OR f OR PTE_A OR PTE_D OR PTE_V)) \<and>
    tabs (pmem s') root = tabs (pmem s) root \<union> set qs \<and>
    (\<forall>p i. page_ok p \<longrightarrow> p \<notin> tabs (pmem s) root \<union> set qs \<longrightarrow> i < 512 \<longrightarrow>
       pmem s' (slot p i) = pmem s (slot p i))"
proof -
  let ?s1 = "s\<lparr>free_list := pmem s pg\<rparr>"
  note al = vm_inv_alloc [OF inv]
  have pt: "pt_inv (pmem s) root (set (pg # ps))" using inv by (simp add: vm_inv_def root_def)
  obtain p0 s2 qs ps' where w: "walk_pt root v True ?s1 = Ret (slot p0 (VPN0 v), s2)"
    and ps: "ps = qs @ ps'" "length qs \<le> 2" and inv2: "vm_inv s2 ps'" and ex: "extends ?s1 qs s2"
    and p0: "pt0 (pmem s2) root (VPN1 v) = Some p0"
    using walk_pt_create [OF al(2) v len] unfolding root_def by auto
  have r2: "active_space_root s2 = root" and u2: "uspace (pmem s2) root = uspace (pmem s) root"
    and t2: "tabs (pmem s2) root = tabs (pmem s) root \<union> set qs"
    and fr2: "\<And>p i. page_ok p \<Longrightarrow> p \<notin> tabs (pmem s) root \<union> set qs \<Longrightarrow> i < 512 \<Longrightarrow>
      pmem s2 (slot p i) = pmem s (slot p i)"
    using ex by (auto simp: extends_def root_def)
  have pt2: "pt_inv (pmem s2) root (set ps')" using inv2 r2 by (simp add: vm_inv_def)
  have q0: "page_ok p0" "p0 \<in> tabs (pmem s2) root"
    using pt_inv_tabs [OF pt2] tabs_memI(2) [OF p0] by auto
  define e where "e = pmem s2 (slot p0 (VPN0 v))"
  define e' where "e' = set_pte_ppn (pageptr_to_pagenum pg)
    (set_pte_flags (pte_flags e OR f OR PTE_A OR PTE_D OR PTE_V) e)"
  let ?s3 = "s2\<lparr>pmem := (pmem s2)(slot p0 (VPN0 v) := e')\<rparr>"
  have m: "memory_alloc_and_map_page v f s = Ret (v, ?s3)"
    using al(1) w q0 by (simp add: memory_alloc_and_map_page_def pte_update_Ret root_def e_def e'_def)
  have flags: "pte_flags e' = (pte_flags e OR f OR PTE_A OR PTE_D) OR PTE_V"
    by (simp add: e'_def or.assoc)
  have e': "valid e'" "tbl e' = pg" using valid_or_V [OF flags] al(3)
    by (simp_all add: e'_def tbl_def)
  have eflags: "pte_flags e = old_flags s x"
  proof (cases "valid e")
    case True
    then have "uspace (pmem s2) root x = Some (tbl e, pte_flags e)"
      using p0 by (simp add: uspace_def x_def vpage_def e_def Let_def)
    then show ?thesis using u2 by (simp add: old_flags_def root_def)
  next
    case False
    then have "uspace (pmem s2) root x = None" using p0 by (simp add: uspace_def x_def vpage_def e_def Let_def)
    moreover have "pte_flags e = 0" using pt_inv_flags [OF pt2 p0 _ False [unfolded e_def]] by (simp add: e_def)
    ultimately show ?thesis using u2 by (simp add: old_flags_def root_def)
  qed
  have fresh: "pg \<notin> tabs (pmem s2) root" "pg \<notin> set ps'" and unmapped: "\<And>y g. uspace (pmem s2) root y \<noteq> Some (pg, g)"
    using pt_inv_tabs [OF pt, of pg] al(4) ps t2 pt_inv_page(2) [OF pt, of _ pg] by (auto simp: u2)
  have pt3: "pt_inv ((pmem s2)(slot p0 (VPN0 v) := e')) root (set ps')"
    by (rule pt_inv_set_leaf_inv [OF pt2 p0]) (use e' al(3) fresh unmapped in auto)
  note sl = pt_inv_set_leaf [OF pt2 p0 VPN_bounds(3) [of v], of e']
  have inv3: "vm_inv ?s3 ps'"
    using vm_inv_set_leaf [OF inv2, of "VPN1 v" p0 "VPN0 v" e'] p0 pt3 by (simp add: r2)
  have us: "uspace (pmem ?s3) root = (uspace (pmem s) root)(x \<mapsto> (pg, old_flags s x OR f OR PTE_A OR PTE_D OR PTE_V))"
    using sl(4) e' flags eflags by (simp add: u2 x_def vpage_def or.assoc)
  have fr: "pmem ?s3 (slot p i) = pmem s (slot p i)" if "page_ok p" "p \<notin> tabs (pmem s) root \<union> set qs" "i < 512" for p i
    using that fr2 [OF that] slot_inj [OF that(1) q0(1) that(3), of "VPN0 v"] q0(2) t2 by auto
  show ?thesis
    using m ps inv3 r2 us sl(3) t2 fr by (intro exI [of _ ?s3] exI [of _ qs] exI [of _ ps']) simp
qed

section \<open>Mapping a range\<close>

lemma unat_mask9: "unat (w AND 0x1FF :: u64) = unat w mod 512"
proof -
  have "w AND 0x1FF = take_bit 9 w" by (simp add: take_bit_eq_mask mask_eq_exp_minus_1)
  then show ?thesis by (simp add: unat_mod take_bit_eq_mod)
qed

lemma VPN_alt:
  "VPN2 v = unat v div 2 ^ 30 mod 512" "VPN1 v = unat v div 2 ^ 21 mod 512" "VPN0 v = unat v div 2 ^ 12 mod 512"
  unfolding VPN2_def VPN1_def VPN0_def unat_mask9
  by (simp_all add: drop_bit_eq_div unat_div)

abbreviation user_vma :: "u64 \<Rightarrow> bool" where
  "user_vma v \<equiv> USER_START_VMA \<le> v \<and> v \<le> USER_END_VMA"

lemma user_page_number:
  assumes "user_vma v"
  shows "unat v div 4096 = 3 * 2 ^ 18 + 512 * VPN1 v + VPN0 v"
proof -
  have "USER_START_VMA \<le> v" "v \<le> USER_END_VMA" using assms by auto
  then have "unat v div 2 ^ 30 = 3"
    by (simp add: USER_START_VMA_def USER_END_VMA_def word_le_nat_alt)
  moreover have "unat v div 2 ^ 21 div 512 = unat v div 2 ^ 30" "unat v div 2 ^ 12 div 512 = unat v div 2 ^ 21"
    by (simp_all add: div_mult2_eq [symmetric])
  ultimately have "unat v div 2 ^ 21 = 512 * 3 + VPN1 v"
    and "unat v div 2 ^ 12 = 512 * (unat v div 2 ^ 21) + VPN0 v"
    unfolding VPN_alt by (metis mult_div_mod_eq)+
  then show ?thesis by simp
qed

lemma vpage_inj:
  assumes "user_vma v" and "user_vma w"
  shows "vpage v = vpage w \<longleftrightarrow> unat v div 4096 = unat w div 4096"
proof
  assume "unat v div 4096 = unat w div 4096"
  then have e: "unat v div 2 ^ 12 = unat w div 2 ^ 12" by simp
  then have "unat v div 2 ^ 12 div 2 ^ 9 = unat w div 2 ^ 12 div 2 ^ 9" by simp
  then have "unat v div 2 ^ 21 = unat w div 2 ^ 21" by (simp add: div_mult2_eq [symmetric])
  with e show "vpage v = vpage w" by (simp add: VPN_alt vpage_def)
qed (simp add: vpage_def user_page_number [OF assms(1)] user_page_number [OF assms(2)])

definition map_all :: "u8 \<Rightarrow> u64 list \<Rightarrow> mstate \<Rightarrow> mstate outcome" where
  "map_all f = ofold (\<lambda>v s. obind (memory_alloc_and_map_page v f s) (\<lambda>(_, s). Ret s))"

lemma map_all_pages:
  assumes "vm_inv s ps" and "\<And>v. v \<in> set vs \<Longrightarrow> VPN2 v = 3" and "distinct (map vpage vs)"
    and "3 * length vs \<le> length ps"
  defines "root \<equiv> active_space_root s"
  shows "\<exists>s' ps' pgs. map_all f vs s = Ret s' \<and> vm_inv s' ps' \<and> active_space_root s' = root \<and>
    length pgs = length vs \<and> distinct pgs \<and> set pgs \<subseteq> set ps - set ps' \<and> set ps' \<subseteq> set ps \<and>
    (\<forall>k < length vs. uspace (pmem s') root (vpage (vs ! k)) =
       Some (pgs ! k, old_flags s (vpage (vs ! k)) OR f OR PTE_A OR PTE_D OR PTE_V)) \<and>
    (\<forall>y. y \<notin> vpage ` set vs \<longrightarrow> uspace (pmem s') root y = uspace (pmem s) root y) \<and>
    (\<forall>p i. page_ok p \<longrightarrow> p \<notin> tabs (pmem s) root \<union> set ps \<longrightarrow> i < 512 \<longrightarrow>
       pmem s' (slot p i) = pmem s (slot p i))"
  using assms(1-4) unfolding root_def
proof (induction vs arbitrary: s ps)
  case Nil
  then show ?case
    by - (rule exI [of _ s], rule exI [of _ ps], rule exI [of _ "[]"], simp add: map_all_def)
next
  case (Cons v vs)
  let ?r = "active_space_root s"
  obtain pg rs where ps: "ps = pg # rs" using Cons.prems(4) by (cases ps) auto
  have dis: "distinct (pg # rs)" using Cons.prems(1) pa.free_distinct [of s ps] by (simp add: vm_inv_def ps)
  obtain s1 qs ps1 where m: "memory_alloc_and_map_page v f s = Ret (v, s1)" and rs: "rs = qs @ ps1" "length qs \<le> 2"
    and inv1: "vm_inv s1 ps1" and r1: "active_space_root s1 = ?r"
    and u1: "uspace (pmem s1) ?r =
      (uspace (pmem s) ?r)(vpage v \<mapsto> (pg, old_flags s (vpage v) OR f OR PTE_A OR PTE_D OR PTE_V))"
    and t1: "tabs (pmem s1) ?r = tabs (pmem s) ?r \<union> set qs"
    and f1: "\<And>p i. page_ok p \<Longrightarrow> p \<notin> tabs (pmem s) ?r \<union> set qs \<Longrightarrow> i < 512 \<Longrightarrow>
       pmem s1 (slot p i) = pmem s (slot p i)"
    using map_page [of s pg rs v f] Cons.prems by (auto simp: ps)
  have len: "3 * length vs \<le> length ps1" using Cons.prems(4) ps rs by simp
  obtain s' ps' pgs where IH: "map_all f vs s1 = Ret s'" "vm_inv s' ps'" "active_space_root s' = ?r"
    "length pgs = length vs" "distinct pgs" "set pgs \<subseteq> set ps1 - set ps'" "set ps' \<subseteq> set ps1"
    and us: "\<And>k. k < length vs \<Longrightarrow> uspace (pmem s') ?r (vpage (vs ! k)) =
       Some (pgs ! k, old_flags s1 (vpage (vs ! k)) OR f OR PTE_A OR PTE_D OR PTE_V)"
    and un: "\<And>y. y \<notin> vpage ` set vs \<Longrightarrow> uspace (pmem s') ?r y = uspace (pmem s1) ?r y"
    and fr: "\<And>p i. page_ok p \<Longrightarrow> p \<notin> tabs (pmem s1) ?r \<union> set ps1 \<Longrightarrow> i < 512 \<Longrightarrow>
       pmem s' (slot p i) = pmem s1 (slot p i)"
    using Cons.IH [OF inv1 _ _ len] Cons.prems unfolding r1 by (auto 0 3)
  have new: "vpage v \<notin> vpage ` set vs" using Cons.prems(3) by (auto simp: comp_def)
  have old: "old_flags s1 (vpage (vs ! k)) = old_flags s (vpage (vs ! k))" if "k < length vs" for k
  proof -
    have "vpage (vs ! k) \<noteq> vpage v" using new that nth_mem by (metis imageI)
    then show ?thesis unfolding old_flags_def r1 u1 by simp
  qed
  have pg: "pg \<notin> set pgs" "pg \<notin> set ps'" using dis rs IH by auto
  show ?case
  proof (rule exI [of _ s'], rule exI [of _ ps'], rule exI [of _ "pg # pgs"], intro conjI allI impI)
    show "map_all f (v # vs) s = Ret s'" using m IH(1) by (simp add: map_all_def)
    show "uspace (pmem s') ?r (vpage ((v # vs) ! k)) =
        Some ((pg # pgs) ! k, old_flags s (vpage ((v # vs) ! k)) OR f OR PTE_A OR PTE_D OR PTE_V)"
      if "k < length (v # vs)" for k
      using that us old un [OF new] by (cases k) (simp_all add: u1)
    show "uspace (pmem s') ?r y = uspace (pmem s) ?r y" if "y \<notin> vpage ` set (v # vs)" for y
      using that un [of y] by (simp add: u1)
    show "pmem s' (slot p i) = pmem s (slot p i)"
      if "page_ok p" "p \<notin> tabs (pmem s) ?r \<union> set ps" "i < 512" for p i
      using that fr [of p i] f1 [of p i] by (simp add: t1 ps rs)
  qed (use IH pg dis ps rs in auto)
qed

end
