(* ===== verification/Space.thy ===== *)
theory Space
  imports PageTable
begin

text \<open>
  Properties of mapping, page faults and pointer validation (\<^verbatim>\<open>kern/memory.c\<close>), stated over the
  translation of the memory management unit.
\<close>

lemma for_range_pages:
  assumes "unat sz \<le> 2 ^ 63"
  shows "for_range 0 (round_up_size sz PAGE_SIZE) PAGE_SIZE =
    map (\<lambda>k. of_nat k * 4096) [0..<(unat sz + 4095) div 4096]"
proof -
  have "unat (sz + 4095) = unat sz + 4095" using assms by (subst unat_add_small) auto
  then have "unat (round_up_size sz PAGE_SIZE) = (unat sz + 4095) div 4096 * 4096"
    using assms unfolding round_up_size_def PAGE_SIZE_def
    by (simp add: unat_word_ariths unat_div)
  then show ?thesis
    by (simp add: for_range_def PAGE_SIZE_def)
qed

lemma map_range_alt:
  assumes "unat sz \<le> 2 ^ 63"
  shows "memory_alloc_and_map_range v sz f s =
    obind (map_all f (map (\<lambda>k. v + of_nat k * 4096) [0..<(unat sz + 4095) div 4096]) s) (\<lambda>s. Ret (v, s))"
proof -
  have "ofold (\<lambda>a. g (v + a)) xs s = ofold g (map ((+) v) xs) s"
    for g :: "u64 \<Rightarrow> mstate \<Rightarrow> mstate outcome" and xs s
    by (induction xs arbitrary: s) (auto intro!: arg_cong2 [where f = obind])
  from this [of "\<lambda>v s. obind (memory_alloc_and_map_page v f s) (\<lambda>(_, s). Ret s)"] show ?thesis
    by (simp add: memory_alloc_and_map_range_def map_all_def for_range_pages [OF assms] Let_def comp_def)
qed

text \<open>The pages of a range that lies in the user region.\<close>

lemma user_range_page:
  assumes "USER_START_VMA \<le> v" and "unat v + 4096 * n \<le> 0xD0000000" and "k < n"
  shows "unat (v + of_nat k * 4096) = unat v + 4096 * k" "user_vma (v + of_nat k * 4096)"
proof -
  have "unat (of_nat k * 4096 :: u64) = 4096 * k"
    using assms(2,3) by (simp add: unat_word_ariths unat_of_nat take_bit_nat_eq_self)
  then show u: "unat (v + of_nat k * 4096) = unat v + 4096 * k"
    using assms by (subst unat_add_small) auto
  show "user_vma (v + of_nat k * 4096)"
    using assms u by (simp add: word_le_nat_alt USER_START_VMA_def USER_END_VMA_def)
qed

lemma user_range_distinct:
  assumes "USER_START_VMA \<le> v" and "unat v + 4096 * n \<le> 0xD0000000"
  shows "distinct (map vpage (map (\<lambda>k. v + of_nat k * 4096) [0..<n]))"
proof -
  have "vpage (v + of_nat j * 4096) \<noteq> vpage (v + of_nat k * 4096)" if "j < n" "k < n" "j \<noteq> k" for j k
    using vpage_inj [OF user_range_page(2) [OF assms that(1)] user_range_page(2) [OF assms that(2)]]
      user_range_page(1) [OF assms that(1)] user_range_page(1) [OF assms that(2)] that(3) by simp
  then show ?thesis by (auto simp: distinct_conv_nth)
qed

text \<open>
  C9: mapping a fresh range. From a well-formed memory space with enough free pages that hold no entry flags, as pages
  that were never used do (\<open>walk_pt\<close> does not clear a new table), \<open>memory_alloc_and_map_range\<close> on an unmapped part of the user region succeeds: each of its virtual
  pages is then translated by the MMU, with exactly the requested flags plus A, D and V, to a page
  of its own that was free before and no longer is; every other user address translates as before,
  and the contents of every page mapped before are unchanged.
\<close>
theorem memory_alloc_and_map_range_correct:
  assumes "vm_inv s ps" and "USER_START_VMA \<le> v" and "unat v + unat sz + 4095 \<le> 0xD0000000"
    and "n = (unat sz + 4095) div 4096" and "3 * n \<le> length ps"
    and "\<forall>k < n. uspace (pmem s) (active_space_root s) (vpage (v + of_nat k * 4096)) = None"
    and "f AND (PTE_R OR PTE_X) \<noteq> 0"
  shows "\<exists>s' ps' pgs. memory_alloc_and_map_range v sz f s = Ret (v, s') \<and> vm_inv s' ps' \<and>
    length pgs = n \<and> distinct pgs \<and> set pgs \<subseteq> set ps - set ps' \<and>
    (\<forall>w k. user_vma w \<longrightarrow> k < n \<longrightarrow> unat w div 4096 = unat v div 4096 + k \<longrightarrow>
       sv39 (pmem s') (active_space_root s') w =
         Some (pgs ! k OR (w AND mask 12), f OR PTE_A OR PTE_D OR PTE_V)) \<and>
    (\<forall>w. user_vma w \<longrightarrow> (\<forall>k < n. unat w div 4096 \<noteq> unat v div 4096 + k) \<longrightarrow>
       sv39 (pmem s') (active_space_root s') w = sv39 (pmem s) (active_space_root s) w) \<and>
    (\<forall>x pg g i. uspace (pmem s) (active_space_root s) x = Some (pg, g) \<longrightarrow> i < 512 \<longrightarrow>
       pmem s' (slot pg i) = pmem s (slot pg i))"
proof -
  let ?r = "active_space_root s" and ?vs = "map (\<lambda>k. v + of_nat k * 4096) [0..<n]"
  have n: "unat v + 4096 * n \<le> 0xD0000000" using assms(3,4) by simp
  note pg = user_range_page [OF assms(2) n]
  have pt: "pt_inv (pmem s) ?r (set ps)" using assms(1) by (simp add: vm_inv_def)
  have u3: "\<And>w. w \<in> set ?vs \<Longrightarrow> VPN2 w = 3" using pg user_VPN2 by auto
  obtain s' ps' pgs where m: "map_all f ?vs s = Ret s'" "vm_inv s' ps'" "active_space_root s' = ?r"
    "length pgs = n" "distinct pgs" "set pgs \<subseteq> set ps - set ps'"
    and us: "\<And>k. k < n \<Longrightarrow> uspace (pmem s') ?r (vpage (v + of_nat k * 4096)) =
       Some (pgs ! k, old_flags s (vpage (v + of_nat k * 4096)) OR f OR PTE_A OR PTE_D OR PTE_V)"
    and un: "\<And>y. y \<notin> vpage ` set ?vs \<Longrightarrow> uspace (pmem s') ?r y = uspace (pmem s) ?r y"
    and fr: "\<And>p i. page_ok p \<Longrightarrow> p \<notin> tabs (pmem s) ?r \<union> set ps \<Longrightarrow> i < 512 \<Longrightarrow>
       pmem s' (slot p i) = pmem s (slot p i)"
    using map_all_pages [OF assms(1) u3 user_range_distinct [OF assms(2) n], of f] assms(5) by auto
  have pt': "pt_inv (pmem s') ?r (set ps')" using m by (simp add: vm_inv_def)
  have old: "old_flags s (vpage (v + of_nat k * 4096)) = 0" if "k < n" for k
    using assms(6) that by (simp add: old_flags_def)
  have vp: "vpage w = vpage (v + of_nat k * 4096) \<longleftrightarrow> unat w div 4096 = unat v div 4096 + k"
    if "user_vma w" "k < n" for w k
    using vpage_inj [OF that(1) pg(2) [OF that(2)]] pg(1) [OF that(2)] by (simp add: add.commute)
  have leaf: "(f OR PTE_A OR PTE_D OR PTE_V) AND (PTE_R OR PTE_X) = f AND (PTE_R OR PTE_X)"
    by (simp add: bit.conj_disj_distrib2 PTE_A_def PTE_D_def PTE_V_def PTE_R_def PTE_X_def)
  show ?thesis
  proof (rule exI [of _ s'], rule exI [of _ ps'], rule exI [of _ pgs], intro conjI allI impI)
    show "memory_alloc_and_map_range v sz f s = Ret (v, s')"
      using m(1) assms(3,4) by (subst map_range_alt) auto
    show "sv39 (pmem s') (active_space_root s') w = Some (pgs ! k OR (w AND mask 12), f OR PTE_A OR PTE_D OR PTE_V)"
      if "user_vma w" "k < n" "unat w div 4096 = unat v div 4096 + k" for w k
      using sv39_user [OF pt' user_VPN2, of w] that vp [OF that(1,2)] us [OF that(2)] old [OF that(2)] assms(7) leaf
      by (simp add: m(3))
    show "sv39 (pmem s') (active_space_root s') w = sv39 (pmem s) ?r w"
      if w: "user_vma w" and away: "\<forall>k < n. unat w div 4096 \<noteq> unat v div 4096 + k" for w
    proof -
      have "vpage w \<noteq> vpage (v + of_nat k * 4096)" if "k < n" for k
        using vp [OF w that] away that by simp
      then have "vpage w \<notin> vpage ` set ?vs"
        by (simp only: set_map image_image set_upt) force
      from un [OF this] show ?thesis
        using sv39_user [OF pt' user_VPN2, of w] sv39_user [OF pt user_VPN2, of w] w by (simp add: m(3))
    qed
    show "pmem s' (slot p i) = pmem s (slot p i)" if "uspace (pmem s) ?r x = Some (p, g)" "i < 512" for x p g i
      using fr [of p i] pt_inv_page [OF pt that(1)] that(2) by blast
  qed (use m in auto)
qed

text \<open>A memory space without user mappings and four unused free pages.\<close>

definition demo_mem :: mstate where
  "demo_mem = \<lparr>pmem = (\<lambda>a. if a = 0x80300000 then 0x80301000 else if a = 0x80301000 then 0x80302000
       else if a = 0x80302000 then 0x80303000 else 0),
     free_list = 0x80300000, heap_start = 0x80100000, heap_end = 0x80100020, heap_initialized = True,
     satp = sv39_mtag 0x80200000, main_mtag = 0, memory_initialized = True\<rparr>"

abbreviation demo_pages :: "u64 list" where
  "demo_pages \<equiv> [0x80300000, 0x80301000, 0x80302000, 0x80303000]"

lemma demo_root: "active_space_root demo_mem = 0x80200000"
  by (simp add: demo_mem_def active_space_root_def active_space_mtag_def mtag_to_root_def sv39_mtag_def
      pageptr_to_pagenum_def)

lemma demo_page_ok: "page_ok 0x80200000" "page_ok 0x80300000" "page_ok 0x80301000" "page_ok 0x80302000"
  "page_ok 0x80303000"
  by (simp_all add: page_ok_def in_ram_def RAM_START_def RAM_END_def RAM_SIZE_def)

lemma demo_flags: "pte_flags (pmem demo_mem a) = 0"
  by (simp add: demo_mem_def pte_flags_def)

lemma demo_pt1: "pt1 (pmem demo_mem) r = None"
  using demo_flags by (simp add: pt1_def flags_0_invalid Let_def)

lemma demo_uspace: "uspace (pmem demo_mem) r x = None"
  by (simp add: uspace_def pt0_def demo_pt1 split: prod.splits)

lemma demo_vm_inv: "vm_inv demo_mem demo_pages"
proof -
  have "pool demo_mem demo_pages" using demo_page_ok by (simp add: pool_def demo_mem_def)
  moreover have "pt_inv (pmem demo_mem) 0x80200000 (set demo_pages)"
    by (rule pt_invI) (simp_all add: demo_page_ok demo_pt1 demo_uspace pt0_def)
  ultimately show ?thesis
    by (simp add: vm_inv_def demo_root clean_def demo_flags) (simp add: demo_mem_def)
qed

theorem memory_alloc_and_map_range_correct_witness:
  "\<exists>s' ps' pgs. memory_alloc_and_map_range 0xC0000000 100 (PTE_R OR PTE_W) demo_mem = Ret (0xC0000000, s') \<and>
     vm_inv s' ps' \<and> length pgs = 1 \<and> set pgs \<subseteq> set demo_pages - set ps' \<and>
     sv39 (pmem s') (active_space_root s') 0xC0000123 =
       Some (pgs ! 0 OR 0x123, (PTE_R OR PTE_W) OR PTE_A OR PTE_D OR PTE_V)"
proof -
  have "(PTE_R OR PTE_W) AND (PTE_R OR PTE_X) \<noteq> 0" by (simp add: PTE_R_def PTE_W_def PTE_X_def)
  with memory_alloc_and_map_range_correct [OF demo_vm_inv, of "0xC0000000" 100 1 "PTE_R OR PTE_W"]
  obtain s' ps' pgs where s': "memory_alloc_and_map_range 0xC0000000 100 (PTE_R OR PTE_W) demo_mem = Ret (0xC0000000, s')"
    "vm_inv s' ps'" "length pgs = 1" "set pgs \<subseteq> set demo_pages - set ps'"
    and tr: "\<And>w k. user_vma w \<Longrightarrow> k < 1 \<Longrightarrow> unat w div 4096 = unat (0xC0000000 :: u64) div 4096 + k \<Longrightarrow>
       sv39 (pmem s') (active_space_root s') w =
         Some (pgs ! k OR (w AND mask 12), (PTE_R OR PTE_W) OR PTE_A OR PTE_D OR PTE_V)"
    by (auto simp: USER_START_VMA_def demo_uspace)
  have "sv39 (pmem s') (active_space_root s') 0xC0000123 =
      Some (pgs ! 0 OR (0xC0000123 AND mask 12), (PTE_R OR PTE_W) OR PTE_A OR PTE_D OR PTE_V)"
    by (rule tr) (simp_all add: USER_START_VMA_def USER_END_VMA_def)
  moreover have "(0xC0000123 :: u64) AND mask 12 = 0x123" by (simp add: mask_eq_exp_minus_1)
  ultimately show ?thesis using s' by (intro exI [of _ s'] exI [of _ ps'] exI [of _ pgs]) simp
qed

lemma flags_leaf: "(g OR PTE_R OR h) AND (PTE_R OR PTE_X) \<noteq> 0"
proof -
  have "bit ((g OR PTE_R OR h) AND (PTE_R OR PTE_X)) 1" by (simp add: bit_simps PTE_R_def)
  then show ?thesis by auto
qed

lemma fault_flags:
  "g OR (PTE_R OR PTE_W OR PTE_U) OR PTE_A OR PTE_D OR PTE_V =
     g OR PTE_R OR (PTE_W OR PTE_U OR PTE_A OR PTE_D OR PTE_V)"
  by (simp only: or.assoc)

text \<open>
  C10: page faults. A fault anywhere from \<open>USER_START_VMA\<close> up to and including \<open>USER_END_VMA\<close> is
  resolved by mapping one free page there, readable, writable and accessible to the user, without
  disturbing the translation of any other user page or the contents of any mapped page. A fault at any other
  address makes the whole kernel panic, although \<^verbatim>\<open>kern/memory.h\<close> announces that it ends the process.
\<close>
theorem memory_handle_page_fault_correct:
  assumes "vm_inv s (pg # ps)" and "2 \<le> length ps"
  shows "(user_vma v \<longrightarrow> (\<exists>s' ps'. memory_handle_page_fault v s = Ret s' \<and> vm_inv s' ps' \<and>
      sv39 (pmem s') (active_space_root s') v = Some (pg OR (v AND mask 12),
        old_flags s (vpage v) OR PTE_R OR (PTE_W OR PTE_U OR PTE_A OR PTE_D OR PTE_V)) \<and>
      (\<forall>w. user_vma w \<longrightarrow> unat w div 4096 \<noteq> unat v div 4096 \<longrightarrow>
         sv39 (pmem s') (active_space_root s') w = sv39 (pmem s) (active_space_root s) w) \<and>
      (\<forall>x p g i. uspace (pmem s) (active_space_root s) x = Some (p, g) \<longrightarrow> i < 512 \<longrightarrow>
         pmem s' (slot p i) = pmem s (slot p i)))) \<and>
    (\<not> user_vma v \<longrightarrow> (\<exists>msg. memory_handle_page_fault v s = Panic msg))"
proof (intro conjI impI)
  let ?r = "active_space_root s"
  assume v: "user_vma v"
  have pt: "pt_inv (pmem s) ?r (set (pg # ps))" using assms(1) by (simp add: vm_inv_def)
  have v3: "VPN2 v = 3" using v user_VPN2 by blast
  obtain s' qs ps' where m: "memory_alloc_and_map_page v (PTE_R OR PTE_W OR PTE_U) s = Ret (v, s')"
    and ps: "ps = qs @ ps'" and inv': "vm_inv s' ps'" and r: "active_space_root s' = ?r"
    and us: "uspace (pmem s') ?r = (uspace (pmem s) ?r)(vpage v \<mapsto>
      (pg, old_flags s (vpage v) OR PTE_R OR (PTE_W OR PTE_U OR PTE_A OR PTE_D OR PTE_V)))"
    and fr: "\<And>p i. page_ok p \<Longrightarrow> p \<notin> tabs (pmem s) ?r \<union> set qs \<Longrightarrow> i < 512 \<Longrightarrow>
      pmem s' (slot p i) = pmem s (slot p i)"
    using map_page [OF assms(1) v3 assms(2), of "PTE_R OR PTE_W OR PTE_U"] by (auto simp: fault_flags)
  have pt': "pt_inv (pmem s') ?r (set ps')" using inv' r by (simp add: vm_inv_def)
  have "sv39 (pmem s') ?r v = Some (pg OR (v AND mask 12),
      old_flags s (vpage v) OR PTE_R OR (PTE_W OR PTE_U OR PTE_A OR PTE_D OR PTE_V))"
    using sv39_user [OF pt' v3] by (simp add: us flags_leaf)
  moreover have "sv39 (pmem s') ?r w = sv39 (pmem s) ?r w"
    if "user_vma w" "unat w div 4096 \<noteq> unat v div 4096" for w
    using sv39_user [OF pt' user_VPN2, of w] sv39_user [OF pt user_VPN2, of w] vpage_inj [OF that(1) v] that us
    by simp
  moreover have "pmem s' (slot p i) = pmem s (slot p i)"
    if "uspace (pmem s) ?r x = Some (p, g)" "i < 512" for x p g i
    using fr [of p i] pt_inv_page [OF pt that(1)] that(2) ps by auto
  ultimately show "\<exists>s' ps'. memory_handle_page_fault v s = Ret s' \<and> vm_inv s' ps' \<and>
      sv39 (pmem s') (active_space_root s') v = Some (pg OR (v AND mask 12),
        old_flags s (vpage v) OR PTE_R OR (PTE_W OR PTE_U OR PTE_A OR PTE_D OR PTE_V)) \<and>
      (\<forall>w. user_vma w \<longrightarrow> unat w div 4096 \<noteq> unat v div 4096 \<longrightarrow>
         sv39 (pmem s') (active_space_root s') w = sv39 (pmem s) ?r w) \<and>
      (\<forall>x p g i. uspace (pmem s) ?r x = Some (p, g) \<longrightarrow> i < 512 \<longrightarrow> pmem s' (slot p i) = pmem s (slot p i))"
    using m v inv' r by (intro exI [of _ s'] exI [of _ ps']) (simp add: memory_handle_page_fault_def)
next
  assume "\<not> user_vma v"
  then show "\<exists>msg. memory_handle_page_fault v s = Panic msg" by (auto simp: memory_handle_page_fault_def)
qed

theorem memory_handle_page_fault_correct_witness:
  "\<exists>s' ps'. memory_handle_page_fault 0xD0000000 demo_mem = Ret s' \<and> vm_inv s' ps' \<and>
     sv39 (pmem s') (active_space_root s') 0xD0000000 = Some (0x80300000,
       0 OR PTE_R OR (PTE_W OR PTE_U OR PTE_A OR PTE_D OR PTE_V))"
proof -
  have "user_vma 0xD0000000" by (simp add: USER_START_VMA_def USER_END_VMA_def)
  moreover have "(0x80300000 :: u64) OR (0xD0000000 AND mask 12) = 0x80300000" by (simp add: mask_eq_exp_minus_1)
  moreover have "old_flags demo_mem (vpage 0xD0000000) = 0" by (simp add: old_flags_def demo_uspace)
  ultimately show ?thesis
    using memory_handle_page_fault_correct [OF demo_vm_inv, of "0xD0000000"] by fastforce
qed

section \<open>Validation of user pointers\<close>

lemma for_range_nonempty: "0 < unat q \<Longrightarrow> \<exists>xs. for_range 0 q PAGE_SIZE = 0 # xs"
proof -
  assume "0 < unat q"
  then have "0 < (4095 + unat q) div 4096" by simp
  then show ?thesis unfolding for_range_def by (simp add: PAGE_SIZE_def upt_conv_Cons)
qed

lemma vptr_len_loop_first:
  "vptr_len_loop d f (i # is) s = vptr_len_loop d f [j] s"
  by (induction "is" arbitrary: i) (auto simp: load_def split: if_splits)

lemma round_up_nonzero:
  assumes "0 < unat len" and "unat len \<le> 2 ^ 63" shows "0 < unat (round_up_size len PAGE_SIZE)"
proof -
  have "unat (len + 4095) = unat len + 4095" using assms(2) by (subst unat_add_small) auto
  then have "unat (round_up_size len PAGE_SIZE) = (unat len + 4095) div 4096 * 4096"
    using assms(2) unfolding round_up_size_def PAGE_SIZE_def by (simp add: unat_word_ariths unat_div)
  then show ?thesis using assms(1) by simp
qed

lemma validate_first_page:
  assumes "0 < unat len" and "unat len \<le> 2 ^ 63"
  shows "memory_validate_vptr_len vp len f s =
    obind (walk_pt (active_space_root s) vp False s) (\<lambda>(d, s). vptr_len_loop d f [0] s)"
proof -
  obtain xs where "for_range 0 (round_up_size len PAGE_SIZE) PAGE_SIZE = 0 # xs"
    using for_range_nonempty [OF round_up_nonzero [OF assms]] by blast
  then show ?thesis using vptr_len_loop_first [of _ f 0 xs] by (simp add: memory_validate_vptr_len_def)
qed

text \<open>
  C14: what \<open>memory_validate_vptr_len\<close> decides. For a pointer into the user region below whose address
  a leaf table exists, and any length up to 2 to the 63, the result is 0 exactly when the page that
  contains the first byte is mapped with all the requested flags, and \<open>-EACCESS\<close> otherwise: the
  entries of the further pages of the buffer are never examined.
\<close>
theorem memory_validate_vptr_len_first_page:
  assumes "pt_inv (pmem s) (active_space_root s) F" and "user_vma vp"
    and "pt0 (pmem s) (active_space_root s) (VPN1 vp) = Some p0"
    and "0 < unat len" and "unat len \<le> 2 ^ 63"
  shows "memory_validate_vptr_len vp len f s =
    Ret (if \<exists>pg g. uspace (pmem s) (active_space_root s) (vpage vp) = Some (pg, g) \<and> g AND f = f
         then 0 else - EACCESS)"
proof -
  let ?r = "active_space_root s"
  let ?e = "pmem s (slot p0 (VPN0 vp))"
  have v3: "VPN2 vp = 3" using assms(2) user_VPN2 by blast
  have ok: "page_ok p0" using pt_inv_tabs [OF assms(1) tabs_memI(2) [OF assms(3)]] by blast
  have us: "uspace (pmem s) ?r (vpage vp) = (if valid ?e then Some (tbl ?e, pte_flags ?e) else None)"
    using assms(3) by (simp add: uspace_def vpage_def Let_def)
  have "pte_ppn ?e \<noteq> 0" if "valid ?e"
  proof
    assume "pte_ppn ?e = 0"
    then have "tbl ?e = 0" by (simp add: tbl_def pagenum_to_pageptr_def)
    moreover have "page_ok (tbl ?e)" using pt_inv_page(1) [OF assms(1)] us that by simp
    ultimately show False using page_ok_nonzero by simp
  qed
  then have "vptr_len_loop (slot p0 (VPN0 vp)) f [0] s =
      Ret (if valid ?e \<and> pte_flags ?e AND f = f then 0 else - EACCESS)"
    using ok by (auto simp: load_def valid_def)
  then have "memory_validate_vptr_len vp len f s =
      Ret (if valid ?e \<and> pte_flags ?e AND f = f then 0 else - EACCESS)"
    unfolding validate_first_page [OF assms(4,5)] walk_pt_lookup [OF assms(1) v3 assms(3)]
    by (simp only: obind.simps prod.case)
  then show ?thesis using us by (cases "valid ?e") auto
qed

lemma uspace_pt0: "uspace m root (i, j) = Some x \<Longrightarrow> \<exists>p0. pt0 m root i = Some p0"
  by (auto simp: uspace_def split: option.splits)

theorem memory_validate_vptr_len_first_page_witness:
  "\<exists>s. memory_validate_vptr_len 0xC0000000 8192 (PTE_R OR PTE_W) s = Ret 0 \<and>
     uspace (pmem s) (active_space_root s) (vpage 0xC0001000) = None"
proof -
  have u: "user_vma 0xC0000000" "user_vma 0xC0001000" by (simp_all add: USER_START_VMA_def USER_END_VMA_def)
  have v3: "VPN2 0xC0000000 = 3" by (rule user_VPN2) (use u in auto)
  obtain s' ps' where inv: "vm_inv s' ps'" and r: "active_space_root s' = active_space_root demo_mem"
    and us: "uspace (pmem s') (active_space_root demo_mem) = (uspace (pmem demo_mem) (active_space_root demo_mem))
      (vpage 0xC0000000 \<mapsto> (0x80300000, 0 OR (PTE_R OR PTE_W) OR PTE_A OR PTE_D OR PTE_V))"
    using map_page [OF demo_vm_inv v3, of "PTE_R OR PTE_W"] by (auto simp: old_flags_def demo_uspace)
  have pt: "pt_inv (pmem s') (active_space_root s') (set ps')" using inv by (simp add: vm_inv_def)
  obtain p0 where p0: "pt0 (pmem s') (active_space_root s') (VPN1 0xC0000000) = Some p0"
    using uspace_pt0 [of "pmem s'" "active_space_root s'" "VPN1 0xC0000000" "VPN0 0xC0000000"] us r
    by (auto simp: vpage_def)
  have "memory_validate_vptr_len 0xC0000000 8192 (PTE_R OR PTE_W) s' = Ret 0"
    using memory_validate_vptr_len_first_page [OF pt u(1) p0, of 8192 "PTE_R OR PTE_W"] us r
    by (simp add: PTE_R_def PTE_W_def PTE_A_def PTE_D_def PTE_V_def)
  moreover have "vpage 0xC0001000 \<noteq> vpage 0xC0000000" using vpage_inj [OF u(2,1)] by simp
  ultimately show ?thesis using us r by (intro exI [of _ s']) (simp add: demo_uspace)
qed

end
