(* ===== verification/Reclaim.thy ===== *)
theory Reclaim
  imports Space
begin

text \<open>
  \<open>memory_space_reclaim\<close> and \<open>memory_unmap_and_free_user\<close> of \<^verbatim>\<open>kern/memory.c\<close>: both are instances of one
  triple loop over a table tree, parameterised by the leaves it releases and the tables it releases;
  the lemmas about the loop are proved once.
\<close>

section \<open>Reclaiming a memory space\<close>

text \<open>
  Both nested loops release the leaves of a table that satisfy a condition \<open>P\<close>; \<open>leaf_pages\<close> are the
  pages they release, in order.
\<close>

definition leaf_step :: "(u64 \<Rightarrow> bool) \<Rightarrow> u64 \<Rightarrow> nat \<Rightarrow> mstate \<Rightarrow> mstate outcome" where
  "leaf_step P p0 j s =
     obind (load (slot p0 j) s) (\<lambda>e. if P e then release_leaf (slot p0 j) s else Ret s)"

definition leaf_pages :: "(u64 \<Rightarrow> bool) \<Rightarrow> (u64 \<Rightarrow> u64) \<Rightarrow> u64 \<Rightarrow> nat \<Rightarrow> u64 list" where
  "leaf_pages P m p0 n = map (\<lambda>j. tbl (m (slot p0 j))) (filter (\<lambda>j. P (m (slot p0 j))) [0..<n])"

lemma leaf_pages_Suc:
  "leaf_pages P m p0 (Suc n) =
     leaf_pages P m p0 n @ (if P (m (slot p0 n)) then [tbl (m (slot p0 n))] else [])"
  by (simp add: leaf_pages_def)

text \<open>The part of the state that the loops leave alone.\<close>

definition same_regs :: "mstate \<Rightarrow> mstate \<Rightarrow> bool" where
  "same_regs s s' \<longleftrightarrow> satp s' = satp s \<and> main_mtag s' = main_mtag s \<and> heap_start s' = heap_start s \<and>
     heap_end s' = heap_end s"

lemma same_regs_refl [simp]: "same_regs s s"
  by (simp add: same_regs_def)

lemma same_regs_trans: "same_regs s t \<Longrightarrow> same_regs t u \<Longrightarrow> same_regs s u"
  by (simp add: same_regs_def)

text \<open>
  \<open>released s fr p0 P s'\<close>: the pages \<open>fr\<close> moved to the free list and the entries of \<open>p0\<close> that satisfy
  \<open>P\<close> were cleared.
\<close>

definition frame :: "mstate \<Rightarrow> u64 set \<Rightarrow> mstate \<Rightarrow> bool" where
  "frame s A s' \<longleftrightarrow> same_regs s s' \<and>
     (\<forall>p i. page_ok p \<longrightarrow> i < 512 \<longrightarrow> p \<notin> A \<longrightarrow> pmem s' (slot p i) = pmem s (slot p i))"

lemma frame_refl [simp]: "frame s A s"
  by (simp add: frame_def)

lemma frame_trans: "frame s A t \<Longrightarrow> frame t B u \<Longrightarrow> frame s (A \<union> B) u"
  by (auto simp: frame_def intro: same_regs_trans)

lemma frame_mono: "frame s A t \<Longrightarrow> A \<subseteq> B \<Longrightarrow> frame s B t"
  by (auto simp: frame_def)

lemma frameD: "frame s A s' \<Longrightarrow> page_ok p \<Longrightarrow> i < 512 \<Longrightarrow> p \<notin> A \<Longrightarrow> pmem s' (slot p i) = pmem s (slot p i)"
  by (simp add: frame_def)

lemma free_page_frame:
  assumes "pool s qs" and "page_ok p" and "p \<notin> set qs"
  shows "\<exists>s'. memory_free_page p s = Ret s' \<and> pool s' (p # qs) \<and> frame s {p} s' \<and>
    (\<forall>i. 0 < i \<longrightarrow> i < 512 \<longrightarrow> pmem s' (slot p i) = pmem s (slot p i))"
proof -
  note f = memory_free_page_Ret [OF assms]
  have "slot q i \<noteq> p" if "page_ok q" "i < 512" "q \<noteq> p \<or> 0 < i" for q i
    using slot_inj [OF that(1) assms(2) that(2), of 0] that(3) by (auto simp: slot_0)
  then show ?thesis using f assms(2) by (simp add: frame_def same_regs_def)
qed

lemma release_leaf_frame:
  assumes po: "pool s qs" and ne: "qs \<noteq> []" and p0: "page_ok p0" "p0 \<notin> set qs" and j: "j < 512"
    and e: "e = pmem s (slot p0 j)" and pg: "page_ok (tbl e)" "tbl e \<notin> set qs" "tbl e \<noteq> p0"
  shows "\<exists>s'. release_leaf (slot p0 j) s = Ret s' \<and> pool s' (tbl e # qs) \<and> frame s {tbl e, p0} s' \<and>
    pmem s' (slot p0 j) = set_pte_flags 0 (set_pte_ppn 0 e) \<and>
    (\<forall>i < 512. i \<noteq> j \<longrightarrow> pmem s' (slot p0 i) = pmem s (slot p0 i))"
proof -
  have nz: "free_list s \<noteq> 0" using po ne by (cases qs) (auto simp: pool_def page_ok_nonzero)
  obtain s1 where f: "memory_free_page (tbl e) s = Ret s1" "pool s1 (tbl e # qs)" "frame s {tbl e} s1"
    using free_page_frame [OF po pg(1,2)] by blast
  have same: "pmem s1 (slot p0 i) = pmem s (slot p0 i)" if "i < 512" for i
    using frameD [OF f(3) p0(1) that] pg(3) by auto
  let ?s = "s1\<lparr>pmem := (pmem s1)(slot p0 j := set_pte_flags 0 (set_pte_ppn 0 e))\<rparr>"
  have r: "release_leaf (slot p0 j) s = Ret ?s"
    using p0 j e nz f(1) same [OF j]
    by (simp add: release_leaf_def load_def tbl_def Let_def pte_update_Ret)
  have other: "slot q i \<noteq> slot p0 j" if "page_ok q" "i < 512" "q \<noteq> p0 \<or> i \<noteq> j" for q i
    using slot_inj [OF that(1) p0(1) that(2) j] that(3) by auto
  have "slot p0 j \<notin> set (tbl e # qs)"
    using slot_notin_pages [OF p0(1) j, of "tbl e # qs"] p0(2) pg pa.free_ok [OF f(2)] by auto
  then have "pool ?s (tbl e # qs)" using f(2) unfolding pool_def by (simp del: flist.simps)
  moreover have "frame s {tbl e, p0} ?s"
    using f(3) other by (auto simp: frame_def same_regs_def)
  ultimately show ?thesis using r other [OF p0(1)] same by simp
qed

lemma leaf_loop:
  assumes po: "pool s qs" and ne: "qs \<noteq> []" and p0: "page_ok p0" "p0 \<notin> set qs"
    and fr: "distinct (leaf_pages P (pmem s) p0 n)"
    and pg: "\<And>p. p \<in> set (leaf_pages P (pmem s) p0 n) \<Longrightarrow> page_ok p \<and> p \<notin> set qs \<and> p \<noteq> p0"
    and n: "n \<le> 512"
  shows "\<exists>s'. ofold (leaf_step P p0) [0..<n] s = Ret s' \<and>
    pool s' (rev (leaf_pages P (pmem s) p0 n) @ qs) \<and>
    frame s (set (leaf_pages P (pmem s) p0 n) \<union> {p0}) s' \<and>
    (\<forall>j < n. pmem s' (slot p0 j) =
       (if P (pmem s (slot p0 j)) then set_pte_flags 0 (set_pte_ppn 0 (pmem s (slot p0 j))) else pmem s (slot p0 j))) \<and>
    (\<forall>j < 512. n \<le> j \<longrightarrow> pmem s' (slot p0 j) = pmem s (slot p0 j))"
  using fr pg n
proof (induction n)
  case 0
  then show ?case using po by (simp add: leaf_pages_def)
next
  case (Suc n)
  let ?L = "leaf_pages P (pmem s) p0 n" and ?e = "pmem s (slot p0 n)"
  have n: "n < 512" using Suc.prems(3) by simp
  obtain s1 where s1: "ofold (leaf_step P p0) [0..<n] s = Ret s1" "pool s1 (rev ?L @ qs)" "frame s (set ?L \<union> {p0}) s1"
    and old: "\<And>j. j < n \<Longrightarrow> pmem s1 (slot p0 j) =
       (if P (pmem s (slot p0 j)) then set_pte_flags 0 (set_pte_ppn 0 (pmem s (slot p0 j))) else pmem s (slot p0 j))"
    and todo: "\<And>j. j < 512 \<Longrightarrow> n \<le> j \<Longrightarrow> pmem s1 (slot p0 j) = pmem s (slot p0 j)"
    using Suc by (auto simp: leaf_pages_Suc)
  show ?case
  proof (cases "P ?e")
    case False
    then have "leaf_step P p0 n s1 = Ret s1" using p0(1) n todo [of n] by (simp add: leaf_step_def load_def)
    then show ?thesis using False s1 old todo n by (auto simp: ofold_snoc leaf_pages_Suc less_Suc_eq)
  next
    case True
    have pe: "page_ok (tbl ?e)" "tbl ?e \<notin> set (rev ?L @ qs)" "tbl ?e \<noteq> p0"
      using Suc.prems(1,2) True by (auto simp: leaf_pages_Suc)
    have p0': "p0 \<notin> set (rev ?L @ qs)" using p0(2) Suc.prems(2) by (auto simp: leaf_pages_Suc)
    obtain s2 where s2: "release_leaf (slot p0 n) s1 = Ret s2" "pool s2 (tbl ?e # rev ?L @ qs)"
      "frame s1 {tbl ?e, p0} s2" "pmem s2 (slot p0 n) = set_pte_flags 0 (set_pte_ppn 0 ?e)"
      "\<And>i. i < 512 \<Longrightarrow> i \<noteq> n \<Longrightarrow> pmem s2 (slot p0 i) = pmem s1 (slot p0 i)"
      using release_leaf_frame [OF s1(2) _ p0(1) p0' n, of ?e] pe ne todo [of n] n by auto
    have "leaf_step P p0 n s1 = Ret s2"
      using True p0(1) n todo [of n] s2(1) by (simp add: leaf_step_def load_def)
    moreover have "frame s (set ?L \<union> {p0} \<union> {tbl ?e, p0}) s2" by (rule frame_trans [OF s1(3) s2(3)])
    then have "frame s (set (leaf_pages P (pmem s) p0 (Suc n)) \<union> {p0}) s2"
      using True by (auto simp: leaf_pages_Suc intro: frame_mono)
    ultimately show ?thesis
      using True s1(1) s2 old todo n by (auto simp: ofold_snoc leaf_pages_Suc less_Suc_eq)
  qed
qed

definition dir_step :: "(u64 \<Rightarrow> bool) \<Rightarrow> (u64 \<Rightarrow> bool) \<Rightarrow> u64 \<Rightarrow> nat \<Rightarrow> mstate \<Rightarrow> mstate outcome" where
  "dir_step P Q p1 i s =
     obind (load (slot p1 i) s) (\<lambda>e.
       if is_table e then
         obind (ofold (leaf_step P (tbl e)) [0..<512] s) (\<lambda>s.
         obind (load (slot p1 i) s) (\<lambda>e'. if Q e' then memory_free_page (tbl e) s else Ret s))
       else Ret s)"

text \<open>What the loop over a level-1 table releases for its entry \<open>i\<close>; \<open>q\<close>: with the leaf table itself.\<close>

definition dir_pages :: "(u64 \<Rightarrow> bool) \<Rightarrow> bool \<Rightarrow> (u64 \<Rightarrow> u64) \<Rightarrow> u64 \<Rightarrow> nat \<Rightarrow> u64 list" where
  "dir_pages P q m root i =
     (case pt0 m root i of None \<Rightarrow> [] | Some p0 \<Rightarrow> leaf_pages P m p0 512 @ (if q then [p0] else []))"

lemma dir_pages_Some:
  "p \<in> set (dir_pages P q m root i) \<Longrightarrow>
     \<exists>p0. pt0 m root i = Some p0 \<and> (p \<in> set (leaf_pages P m p0 512) \<or> q \<and> p = p0)"
  by (cases "pt0 m root i") (auto simp: dir_pages_def split: if_splits)

lemma leaf_pages_mapped:
  assumes "\<forall>e. P e \<longrightarrow> valid e" and "pt0 m root i = Some p0" and "p \<in> set (leaf_pages P m p0 512)"
  shows "\<exists>j f. uspace m root (i, j) = Some (p, f)"
  using assms by (auto simp: leaf_pages_def uspace_def Let_def)

lemma leaf_pages_distinct:
  assumes P: "\<forall>e. P e \<longrightarrow> valid e" and inv: "pt_inv m root F" and p0: "pt0 m root i = Some p0"
  shows "distinct (leaf_pages P m p0 512)"
proof -
  have "j = k" if "j < 512" "k < 512" "P (m (slot p0 j))" "P (m (slot p0 k))" "tbl (m (slot p0 j)) = tbl (m (slot p0 k))" for j k
  proof -
    have "uspace m root (i, j) = Some (tbl (m (slot p0 j)), pte_flags (m (slot p0 j)))"
      "uspace m root (i, k) = Some (tbl (m (slot p0 j)), pte_flags (m (slot p0 k)))"
      using that P p0 by (simp_all add: uspace_def Let_def)
    from pt_inv_page_inj [OF inv this] show ?thesis by simp
  qed
  then show ?thesis by (auto simp: leaf_pages_def distinct_map inj_on_def)
qed

lemma dir_pages_ok:
  assumes P: "\<forall>e. P e \<longrightarrow> valid e" and inv: "pt_inv m root F" and p: "p \<in> set (dir_pages P q m root i)"
  shows "page_ok p" "p \<notin> F" "p \<noteq> root" "pt1 m root \<noteq> Some p"
    "pt0 m root k = Some p \<Longrightarrow> k = i"
proof -
  obtain p0 where p0: "pt0 m root i = Some p0" and c: "p \<in> set (leaf_pages P m p0 512) \<or> p = p0"
    using dir_pages_Some [OF p] by blast
  then have "(\<exists>x f. uspace m root x = Some (p, f)) \<or> p = p0"
    using leaf_pages_mapped [OF P p0, of p] by blast
  then have *: "page_ok p \<and> p \<notin> F \<and> p \<noteq> root \<and> pt1 m root \<noteq> Some p \<and> (pt0 m root k = Some p \<longrightarrow> k = i)"
  proof
    assume "\<exists>x f. uspace m root x = Some (p, f)"
    then obtain x f where "uspace m root x = Some (p, f)" by blast
    from pt_inv_page [OF inv this] show ?thesis
      using tabs_memI(1) [of m root p] tabs_memI(2) [of m root k p] tabs_memI(3) [of root m] by auto
  next
    obtain p1 where p1: "pt1 m root = Some p1" using pt0_pt1 [OF p0] by blast
    assume "p = p0"
    then show ?thesis using pt_inv_pt0 [OF inv p1 p0] p1 pt_inv_inj [OF inv p0] by auto
  qed
  show "page_ok p" "p \<notin> F" "p \<noteq> root" "pt1 m root \<noteq> Some p" "pt0 m root k = Some p \<Longrightarrow> k = i"
    using * by auto
qed

lemma dir_pages_disjoint:
  assumes P: "\<forall>e. P e \<longrightarrow> valid e" and inv: "pt_inv m root F" and ij: "i \<noteq> i'"
    and p: "p \<in> set (dir_pages P q m root i)"
  shows "p \<notin> set (dir_pages P q m root i')"
proof
  assume p': "p \<in> set (dir_pages P q m root i')"
  obtain a b where ab: "pt0 m root i = Some a" "pt0 m root i' = Some b"
    using dir_pages_Some [OF p] dir_pages_Some [OF p'] by blast
  have "p \<noteq> a" "p \<noteq> b" using dir_pages_ok(5) [OF P inv p', of i] dir_pages_ok(5) [OF P inv p, of i'] ab ij by auto
  then have "p \<in> set (leaf_pages P m a 512)" "p \<in> set (leaf_pages P m b 512)"
    using dir_pages_Some [OF p] dir_pages_Some [OF p'] ab by auto
  then obtain j f j' f' where "uspace m root (i, j) = Some (p, f)" "uspace m root (i', j') = Some (p, f')"
    using leaf_pages_mapped [OF P ab(1)] leaf_pages_mapped [OF P ab(2)] by metis
  from pt_inv_page_inj [OF inv this] ij show False by simp
qed

lemma dir_pages_distinct:
  assumes P: "\<forall>e. P e \<longrightarrow> valid e" and inv: "pt_inv m root F"
  shows "distinct (dir_pages P q m root i)"
proof (cases "pt0 m root i")
  case (Some p0)
  have "p0 \<notin> set (leaf_pages P m p0 512)"
    using leaf_pages_mapped [OF P Some, of p0] pt_inv_page(3) [OF inv, of _ p0] tabs_memI(2) [OF Some] by blast
  then show ?thesis using leaf_pages_distinct [OF P inv Some] by (simp add: dir_pages_def Some)
qed (simp add: dir_pages_def)

definition all_pages :: "(u64 \<Rightarrow> bool) \<Rightarrow> bool \<Rightarrow> (u64 \<Rightarrow> u64) \<Rightarrow> u64 \<Rightarrow> nat \<Rightarrow> u64 list" where
  "all_pages P q m root n = concat (map (dir_pages P q m root) [0..<n])"

lemma all_pages_Suc: "all_pages P q m root (Suc n) = all_pages P q m root n @ dir_pages P q m root n"
  by (simp add: all_pages_def)

lemma all_pages_mem: "p \<in> set (all_pages P q m root n) \<longleftrightarrow> (\<exists>i < n. p \<in> set (dir_pages P q m root i))"
  by (auto simp: all_pages_def)

lemma all_pages_distinct:
  assumes "\<forall>e. P e \<longrightarrow> valid e" and "pt_inv m root F"
  shows "distinct (all_pages P q m root n)"
proof (induction n)
  case (Suc n)
  have "p \<notin> set (dir_pages P q m root n)" if p: "p \<in> set (all_pages P q m root n)" for p
  proof -
    obtain i where "i < n" "p \<in> set (dir_pages P q m root i)" using p all_pages_mem by blast
    then show ?thesis using dir_pages_disjoint [OF assms, of i n p q] by blast
  qed
  then have "set (all_pages P q m root n) \<inter> set (dir_pages P q m root n) = {}" by blast
  with Suc dir_pages_distinct [OF assms, of q n] show ?case by (simp add: all_pages_Suc)
qed (simp add: all_pages_def)

definition clear_if :: "(u64 \<Rightarrow> bool) \<Rightarrow> u64 \<Rightarrow> u64" where
  "clear_if P e = (if P e then set_pte_flags 0 (set_pte_ppn 0 e) else e)"

lemma leaf_pages_cong:
  assumes "\<And>j. j < n \<Longrightarrow> m' (slot p0 j) = m (slot p0 j)"
  shows "leaf_pages P m' p0 n = leaf_pages P m p0 n"
proof -
  have "filter (\<lambda>j. P (m' (slot p0 j))) [0..<n] = filter (\<lambda>j. P (m (slot p0 j))) [0..<n]"
    using assms by (intro filter_cong) auto
  then show ?thesis using assms by (auto simp: leaf_pages_def)
qed

text \<open>The pages the loop has written to after the first \<open>n\<close> entries.\<close>

definition dir_touched :: "(u64 \<Rightarrow> bool) \<Rightarrow> bool \<Rightarrow> (u64 \<Rightarrow> u64) \<Rightarrow> u64 \<Rightarrow> nat \<Rightarrow> u64 set" where
  "dir_touched P q m root n = set (all_pages P q m root n) \<union> {p0. \<exists>i < n. pt0 m root i = Some p0}"

lemma dir_step_table:
  assumes P: "\<forall>e. P e \<longrightarrow> valid e" and inv: "pt_inv m root (set qs)"
    and p1: "pt1 m root = Some p1" and p0: "pt0 m root i = Some p0"
    and po: "pool s rs" and ne: "rs \<noteq> []" and rs: "\<forall>p \<in> set (dir_pages P True m root i). p \<notin> set rs"
    and same1: "pmem s (slot p1 i) = m (slot p1 i)"
    and same0: "\<forall>j < 512. pmem s (slot p0 j) = m (slot p0 j)"
    and Q: "\<forall>e. pte_flags e = PTE_V \<longrightarrow> Q e = q"
  shows "\<exists>s'. dir_step P Q p1 i s = Ret s' \<and> pool s' (rev (dir_pages P q m root i) @ rs) \<and>
    frame s (set (dir_pages P q m root i) \<union> {p0}) s' \<and>
    (\<not> q \<longrightarrow> (\<forall>j < 512. pmem s' (slot p0 j) = clear_if P (m (slot p0 j))))"
proof -
  have i: "i < 512" using pt0_pt1 [OF p0] by blast
  note q1 = pt_inv_pt1 [OF inv p1] and q0 = pt_inv_pt0 [OF inv p1 p0]
  have e: "is_table (m (slot p1 i))" "tbl (m (slot p1 i)) = p0"
    using flags_V_table(2) [OF q0(5)] p0 p1 by (auto simp: pt0_def Let_def split: if_splits)
  let ?L = "leaf_pages P m p0 512"
  have L: "leaf_pages P (pmem s) p0 512 = ?L" by (rule leaf_pages_cong) (simp add: same0)
  have dp: "dir_pages P True m root i = ?L @ [p0]" by (simp add: dir_pages_def p0)
  have pg: "page_ok p \<and> p \<notin> set rs \<and> p \<noteq> p0" if "p \<in> set ?L" for p
  proof -
    have "p \<in> set (dir_pages P True m root i)" using that dp by simp
    moreover have "p \<noteq> p0" using that dir_pages_distinct [OF P inv, of True i] dp by auto
    ultimately show ?thesis using dir_pages_ok(1) [OF P inv] rs by blast
  qed
  have p0rs: "p0 \<notin> set rs" using rs dp by simp
  obtain s1 where s1: "ofold (leaf_step P p0) [0..<512] s = Ret s1" "pool s1 (rev ?L @ rs)"
    "frame s (set ?L \<union> {p0}) s1"
    and cl: "\<And>j. j < 512 \<Longrightarrow> pmem s1 (slot p0 j) = clear_if P (m (slot p0 j))"
    using leaf_loop [OF po ne q0(1) p0rs, of P 512] leaf_pages_distinct [OF P inv p0] pg same0
    unfolding L by (auto simp: clear_if_def)
  have p1L: "p1 \<notin> set ?L \<union> {p0}"
    using dir_pages_ok(4) [OF P inv, of p1 True i] p1 q0(4) dp by auto
  have e1: "pmem s1 (slot p1 i) = m (slot p1 i)" using frameD [OF s1(3) q1(1) i p1L] same1 by simp
  have step: "dir_step P Q p1 i s = (if q then memory_free_page p0 s1 else Ret s1)"
    using e e1 same1 s1(1) Q q0(5) q1(1) i by (simp add: dir_step_def load_def)
  show ?thesis
  proof (cases q)
    case True
    have "p0 \<notin> set (rev ?L @ rs)" using p0rs pg by auto
    then obtain s2 where s2: "memory_free_page p0 s1 = Ret s2" "pool s2 (p0 # rev ?L @ rs)" "frame s1 {p0} s2"
      using free_page_frame [OF s1(2) q0(1)] by blast
    have "frame s (set ?L \<union> {p0} \<union> {p0}) s2" by (rule frame_trans [OF s1(3) s2(3)])
    then show ?thesis using True step s2 dp by (simp add: insert_commute)
  next
    case False
    then show ?thesis using step s1 cl by (simp add: dir_pages_def p0)
  qed
qed

lemma dir_loop:
  assumes P: "\<forall>e. P e \<longrightarrow> valid e" and inv: "pt_inv (pmem s) root (set qs)"
    and p1: "pt1 (pmem s) root = Some p1" and po: "pool s qs" and ne: "qs \<noteq> []"
    and Q: "\<forall>e. pte_flags e = PTE_V \<longrightarrow> Q e = q" and n: "n \<le> 512"
  shows "\<exists>s'. ofold (dir_step P Q p1) [0..<n] s = Ret s' \<and>
    pool s' (rev (all_pages P q (pmem s) root n) @ qs) \<and> frame s (dir_touched P q (pmem s) root n) s' \<and>
    (\<not> q \<longrightarrow> (\<forall>i < n. \<forall>p0. pt0 (pmem s) root i = Some p0 \<longrightarrow>
       (\<forall>j < 512. pmem s' (slot p0 j) = clear_if P (pmem s (slot p0 j)))))"
  using n
proof (induction n)
  case 0
  then show ?case using po by (simp add: all_pages_def)
next
  case (Suc n)
  let ?m = "pmem s"
  let ?A = "all_pages P q ?m root n"
  obtain s1 where s1: "ofold (dir_step P Q p1) [0..<n] s = Ret s1" "pool s1 (rev ?A @ qs)"
    "frame s (dir_touched P q ?m root n) s1"
    and cl: "\<And>i p0 j. \<not> q \<Longrightarrow> i < n \<Longrightarrow> pt0 ?m root i = Some p0 \<Longrightarrow> j < 512 \<Longrightarrow>
      pmem s1 (slot p0 j) = clear_if P (?m (slot p0 j))"
    using Suc by auto
  note q1 = pt_inv_pt1 [OF inv p1]
  have p1t: "p1 \<notin> dir_touched P q ?m root n"
    using dir_pages_ok(4) [OF P inv, of p1] p1 pt_inv_pt0(4) [OF inv p1, of _ p1] by (auto simp: dir_touched_def all_pages_mem)
  have n: "n < 512" using Suc.prems by simp
  have e1: "pmem s1 (slot p1 n) = ?m (slot p1 n)" using frameD [OF s1(3) q1(1) n p1t] .
  show ?case
  proof (cases "pt0 ?m root n")
    case None
    then have "\<not> is_table (?m (slot p1 n))" using p1 n by (auto simp: pt0_def is_table_def valid_def split: if_splits)
    then have "dir_step P Q p1 n s1 = Ret s1" using e1 q1(1) n by (simp add: dir_step_def load_def)
    moreover have "all_pages P q ?m root (Suc n) = ?A" by (simp add: all_pages_Suc dir_pages_def None)
    moreover have "dir_touched P q ?m root n \<subseteq> dir_touched P q ?m root (Suc n)"
      by (auto simp: dir_touched_def all_pages_Suc less_Suc_eq)
    ultimately show ?thesis
      using s1 cl None frame_mono by (auto simp: ofold_snoc less_Suc_eq)
  next
    case (Some p0)
    have ok: "page_ok p0" using pt_inv_pt0 [OF inv p1 Some] by blast
    have fresh: "p \<notin> dir_touched P q ?m root n" if "p \<in> set (dir_pages P True ?m root n)" for p
    proof -
      have "p \<notin> set (dir_pages P q ?m root i)" if "i < n" for i
      proof -
        have "set (dir_pages P q ?m root i) \<subseteq> set (dir_pages P True ?m root i)"
          by (cases "pt0 ?m root i") (auto simp: dir_pages_def)
        then show ?thesis using dir_pages_disjoint [OF P inv, of n i p True] \<open>p \<in> _\<close> that by blast
      qed
      moreover have "pt0 ?m root i \<noteq> Some p" if "i < n" for i
        using dir_pages_ok(5) [OF P inv \<open>p \<in> _\<close>, of i] that by auto
      ultimately show ?thesis by (auto simp: dir_touched_def all_pages_mem)
    qed
    have p0f: "p0 \<notin> dir_touched P q ?m root n" by (rule fresh) (simp add: dir_pages_def Some)
    have same0: "\<forall>j < 512. pmem s1 (slot p0 j) = ?m (slot p0 j)"
      using frameD [OF s1(3) ok _ p0f] by simp
    have rs: "\<forall>p \<in> set (dir_pages P True ?m root n). p \<notin> set (rev ?A @ qs)"
      using fresh dir_pages_ok(2) [OF P inv] by (auto simp: dir_touched_def)
    have "rev ?A @ qs \<noteq> []" using ne by simp
    obtain s2 where s2: "dir_step P Q p1 n s1 = Ret s2" "pool s2 (rev (dir_pages P q ?m root n) @ rev ?A @ qs)"
      "frame s1 (set (dir_pages P q ?m root n) \<union> {p0}) s2"
      and cl2: "\<And>j. \<not> q \<Longrightarrow> j < 512 \<Longrightarrow> pmem s2 (slot p0 j) = clear_if P (?m (slot p0 j))"
      using dir_step_table [OF P inv p1 Some s1(2) \<open>rev ?A @ qs \<noteq> []\<close> rs e1 same0 Q] by blast
    have "frame s (dir_touched P q ?m root n \<union> (set (dir_pages P q ?m root n) \<union> {p0})) s2"
      by (rule frame_trans [OF s1(3) s2(3)])
    then have "frame s (dir_touched P q ?m root (Suc n)) s2"
      by (rule frame_mono) (auto simp: dir_touched_def all_pages_Suc Some less_Suc_eq)
    moreover have "pmem s2 (slot r j) = clear_if P (?m (slot r j))"
      if "\<not> q" "i < n" "pt0 ?m root i = Some r" "j < 512" for i r j
    proof -
      have "page_ok r" using pt_inv_pt0 [OF inv p1 that(3)] by blast
      moreover have "r \<notin> set (dir_pages P q ?m root n) \<union> {p0}"
        using dir_pages_ok(5) [OF P inv, of r q n i] that pt_inv_inj [OF inv that(3), of n] Some by auto
      ultimately show ?thesis using frameD [OF s2(3) _ that(4)] cl [OF that] by simp
    qed
    ultimately show ?thesis
      using s1(1) s2(1,2) cl2 Some by (auto simp: ofold_snoc all_pages_Suc less_Suc_eq)
  qed
qed

definition root_step :: "(u64 \<Rightarrow> bool) \<Rightarrow> (u64 \<Rightarrow> bool) \<Rightarrow> u64 \<Rightarrow> nat \<Rightarrow> mstate \<Rightarrow> mstate outcome" where
  "root_step P Q root i s =
     obind (load (slot root i) s) (\<lambda>e.
       if is_table e then
         obind (ofold (dir_step P Q (tbl e)) [0..<512] s) (\<lambda>s.
         obind (load (slot root i) s) (\<lambda>e'. if Q e' then memory_free_page (tbl e) s else Ret s))
       else Ret s)"

definition is_reclaimed :: "u64 \<Rightarrow> bool" where
  "is_reclaimed e \<longleftrightarrow> pte_flags e AND PTE_V \<noteq> 0 \<and> pte_flags e AND PTE_G = 0"

definition is_user_leaf :: "u64 \<Rightarrow> bool" where
  "is_user_leaf e \<longleftrightarrow> pte_flags e AND PTE_V \<noteq> 0 \<and> pte_ppn e \<noteq> 0 \<and> pte_flags e AND PTE_U \<noteq> 0"

lemma reclaim_steps:
  "reclaim_pt1 = root_step is_reclaimed (\<lambda>e. pte_flags e AND PTE_G = 0)"
  "unmap_pt1 = root_step is_user_leaf (\<lambda>e. pte_flags e AND PTE_U \<noteq> 0)"
proof -
  have l: "reclaim_leaf = leaf_step is_reclaimed" "unmap_leaf = leaf_step is_user_leaf"
    by (intro ext, simp add: reclaim_leaf_def leaf_step_def is_reclaimed_def)
      (intro ext, simp add: unmap_leaf_def leaf_step_def is_user_leaf_def)
  have d: "reclaim_pt0 = dir_step is_reclaimed (\<lambda>e. pte_flags e AND PTE_G = 0)"
    by (intro ext) (unfold reclaim_pt0_def dir_step_def l tbl_def PTE_CNT_def Let_def, rule refl)
  have d': "unmap_pt0 = dir_step is_user_leaf (\<lambda>e. pte_flags e AND PTE_U \<noteq> 0)"
    by (intro ext) (unfold unmap_pt0_def dir_step_def l tbl_def PTE_CNT_def Let_def, rule refl)
  show "reclaim_pt1 = root_step is_reclaimed (\<lambda>e. pte_flags e AND PTE_G = 0)"
    by (intro ext) (unfold reclaim_pt1_def root_step_def d tbl_def PTE_CNT_def Let_def, rule refl)
  show "unmap_pt1 = root_step is_user_leaf (\<lambda>e. pte_flags e AND PTE_U \<noteq> 0)"
    by (intro ext) (unfold unmap_pt1_def root_step_def d' tbl_def PTE_CNT_def Let_def, rule refl)
qed

text \<open>
  Parts of a table tree in which the loops find nothing to release; the mappings of the kernel are
  such parts.
\<close>

definition quiet1 :: "(u64 \<Rightarrow> bool) \<Rightarrow> (u64 \<Rightarrow> bool) \<Rightarrow> (u64 \<Rightarrow> u64) \<Rightarrow> u64 \<Rightarrow> nat \<Rightarrow> bool" where
  "quiet1 P Q m pt j \<longleftrightarrow> (let e = m (slot pt j) in
     is_table e \<longrightarrow> page_ok (tbl e) \<and> \<not> Q e \<and> (\<forall>k < 512. \<not> P (m (slot (tbl e) k))))"

definition quiet2 :: "(u64 \<Rightarrow> bool) \<Rightarrow> (u64 \<Rightarrow> bool) \<Rightarrow> (u64 \<Rightarrow> u64) \<Rightarrow> u64 \<Rightarrow> nat \<Rightarrow> bool" where
  "quiet2 P Q m root i \<longleftrightarrow> (let e = m (slot root i) in
     is_table e \<longrightarrow> page_ok (tbl e) \<and> \<not> Q e \<and> (\<forall>j < 512. quiet1 P Q m (tbl e) j))"

definition kernel_part :: "(u64 \<Rightarrow> bool) \<Rightarrow> (u64 \<Rightarrow> bool) \<Rightarrow> (u64 \<Rightarrow> u64) \<Rightarrow> u64 \<Rightarrow> bool" where
  "kernel_part P Q m root \<longleftrightarrow> (\<forall>i < 3. quiet2 P Q m root i) \<and>
     (\<forall>i. 4 \<le> i \<longrightarrow> i < 512 \<longrightarrow> \<not> is_table (m (slot root i)))"

lemma leaf_step_quiet: "page_ok p \<Longrightarrow> k < 512 \<Longrightarrow> \<not> P (pmem s (slot p k)) \<Longrightarrow> leaf_step P p k s = Ret s"
  by (simp add: leaf_step_def load_def)

lemma dir_step_quiet:
  assumes "page_ok pt" and "j < 512" and "quiet1 P Q (pmem s) pt j"
  shows "dir_step P Q pt j s = Ret s"
proof (cases "is_table (pmem s (slot pt j))")
  case True
  let ?p = "tbl (pmem s (slot pt j))"
  have q: "page_ok ?p" "\<not> Q (pmem s (slot pt j))" "\<forall>k < 512. \<not> P (pmem s (slot ?p k))"
    using assms(3) True by (auto simp: quiet1_def Let_def)
  have "ofold (leaf_step P ?p) [0..<512] s = Ret s"
    using q by (intro ofold_id) (simp add: leaf_step_quiet)
  then show ?thesis using True q assms(1,2) by (simp add: dir_step_def load_def)
next
  case False
  then show ?thesis using assms(1,2) by (simp add: dir_step_def load_def)
qed

lemma root_step_quiet:
  assumes "page_ok root" and "i < 512" and "quiet2 P Q (pmem s) root i"
  shows "root_step P Q root i s = Ret s"
proof (cases "is_table (pmem s (slot root i))")
  case True
  let ?p = "tbl (pmem s (slot root i))"
  have q: "page_ok ?p" "\<not> Q (pmem s (slot root i))" "\<forall>j < 512. quiet1 P Q (pmem s) ?p j"
    using assms(3) True by (auto simp: quiet2_def Let_def)
  have "ofold (dir_step P Q ?p) [0..<512] s = Ret s"
    using q by (intro ofold_id) (simp add: dir_step_quiet)
  then show ?thesis using True q assms(1,2) by (simp add: root_step_def load_def)
next
  case False
  then show ?thesis using assms(1,2) by (simp add: root_step_def load_def)
qed

text \<open>The pages the loops release for the whole space, in order.\<close>

definition space_pages :: "(u64 \<Rightarrow> bool) \<Rightarrow> bool \<Rightarrow> (u64 \<Rightarrow> u64) \<Rightarrow> u64 \<Rightarrow> u64 list" where
  "space_pages P q m root =
     (case pt1 m root of None \<Rightarrow> [] | Some p1 \<Rightarrow> all_pages P q m root 512 @ (if q then [p1] else []))"

lemma user_root_step:
  assumes P: "\<forall>e. P e \<longrightarrow> valid e" and inv: "pt_inv (pmem s) root (set qs)"
    and po: "pool s qs" and ne: "qs \<noteq> []" and Q: "\<forall>e. pte_flags e = PTE_V \<longrightarrow> Q e = q"
  shows "\<exists>s'. root_step P Q root 3 s = Ret s' \<and> pool s' (rev (space_pages P q (pmem s) root) @ qs) \<and>
    frame s (- {root} \<inter> (set (space_pages P q (pmem s) root) \<union> tabs (pmem s) root)) s' \<and>
    (\<not> q \<longrightarrow> (\<forall>p1. pt1 (pmem s) root = Some p1 \<longrightarrow> (\<forall>i < 512. pmem s' (slot p1 i) = pmem s (slot p1 i)))) \<and>
    (\<not> q \<longrightarrow> (\<forall>i p0 j. pt0 (pmem s) root i = Some p0 \<longrightarrow> j < 512 \<longrightarrow>
       pmem s' (slot p0 j) = clear_if P (pmem s (slot p0 j))))"
proof (cases "pt1 (pmem s) root")
  case None
  then have "\<not> is_table (pmem s (slot root 3))"
    by (auto simp: pt1_def is_table_def valid_def Let_def split: if_splits)
  moreover have "pt0 (pmem s) root = (\<lambda>i. None)" by (auto simp: pt0_def None)
  ultimately show ?thesis
    using pt_inv_root [OF inv] po by (simp add: root_step_def load_def space_pages_def None)
next
  case (Some p1)
  let ?m = "pmem s"
  note q1 = pt_inv_pt1 [OF inv Some] and root = pt_inv_root [OF inv]
  have e: "is_table (?m (slot root 3))" "tbl (?m (slot root 3)) = p1"
    using flags_V_table(2) [OF q1(4)] Some by (auto simp: pt1_def Let_def split: if_splits)
  obtain s1 where s1: "ofold (dir_step P Q p1) [0..<512] s = Ret s1"
    "pool s1 (rev (all_pages P q ?m root 512) @ qs)" "frame s (dir_touched P q ?m root 512) s1"
    and cl0: "\<not> q \<longrightarrow> (\<forall>i < 512. \<forall>p0. pt0 ?m root i = Some p0 \<longrightarrow>
      (\<forall>j < 512. pmem s1 (slot p0 j) = clear_if P (?m (slot p0 j))))"
    using dir_loop [OF P inv Some po ne Q, of 512] by blast
  have cl: "pmem s1 (slot p0 j) = clear_if P (?m (slot p0 j))"
    if "\<not> q" "pt0 ?m root i = Some p0" "j < 512" for i p0 j
  proof -
    have "i < 512" using pt0_pt1 [OF that(2)] by blast
    then show ?thesis using cl0 that by blast
  qed
  have tch: "root \<notin> dir_touched P q ?m root 512" "p1 \<notin> dir_touched P q ?m root 512"
    using dir_pages_ok(3) [OF P inv, of root] dir_pages_ok(4) [OF P inv, of p1] Some
      pt_inv_pt0(3) [OF inv Some, of _ root] pt_inv_pt0(4) [OF inv Some, of _ p1]
    by (auto simp: dir_touched_def all_pages_mem)
  have sub: "dir_touched P q ?m root 512 \<subseteq> - {root} \<inter> (set (space_pages P q ?m root) \<union> tabs ?m root)"
  proof
    fix p
    assume p: "p \<in> dir_touched P q ?m root 512"
    then have "p \<in> set (all_pages P q ?m root 512) \<or> (\<exists>i. pt0 ?m root i = Some p)"
      by (auto simp: dir_touched_def)
    then have "p \<in> set (space_pages P q ?m root) \<union> tabs ?m root"
      using tabs_memI(2) by (auto simp: space_pages_def Some)
    then show "p \<in> - {root} \<inter> (set (space_pages P q ?m root) \<union> tabs ?m root)" using p tch(1) by auto
  qed
  have e1: "pmem s1 (slot root 3) = ?m (slot root 3)" using frameD [OF s1(3) root(1) _ tch(1)] by simp
  have step: "root_step P Q root 3 s = (if q then memory_free_page p1 s1 else Ret s1)"
    using e e1 s1(1) Q q1(4) root(1) by (simp add: root_step_def load_def)
  show ?thesis
  proof (cases q)
    case True
    have "p1 \<notin> set (rev (all_pages P q ?m root 512) @ qs)"
      using q1(2) tch(2) by (auto simp: dir_touched_def)
    then obtain s2 where s2: "memory_free_page p1 s1 = Ret s2"
      "pool s2 (p1 # rev (all_pages P q ?m root 512) @ qs)" "frame s1 {p1} s2"
      using free_page_frame [OF s1(2) q1(1)] by blast
    have "frame s (dir_touched P q ?m root 512 \<union> {p1}) s2" by (rule frame_trans [OF s1(3) s2(3)])
    then have "frame s (- {root} \<inter> (set (space_pages P q ?m root) \<union> tabs ?m root)) s2"
      by (rule frame_mono) (use sub q1(3) tabs_memI(1) [OF Some] in auto)
    then show ?thesis using True step s2 by (simp add: space_pages_def Some)
  next
    case False
    have "frame s (- {root} \<inter> (set (space_pages P q ?m root) \<union> tabs ?m root)) s1"
      by (rule frame_mono [OF s1(3) sub])
    then show ?thesis
      using False step s1 cl frameD [OF s1(3) q1(1) _ tch(2)] by (simp add: space_pages_def Some)
  qed
qed

lemma upt_split: "k < n \<Longrightarrow> [0..<n] = [0..<k] @ k # [Suc k..<n]"
  using upt_add_eq_append [of 0 k "n - k"] by (simp add: upt_conv_Cons)

lemma root_loop:
  assumes P: "\<forall>e. P e \<longrightarrow> valid e" and inv: "pt_inv (pmem s) root (set qs)"
    and po: "pool s qs" and ne: "qs \<noteq> []" and Q: "\<forall>e. pte_flags e = PTE_V \<longrightarrow> Q e = q"
    and k: "kernel_part P Q (pmem s) root"
  shows "\<exists>s'. root_step P Q root 3 s = Ret s' \<and> ofold (root_step P Q root) [0..<512] s = Ret s'"
proof -
  note root = pt_inv_root [OF inv]
  have spl: "[0..<512] = [0..<3] @ 3 # [Suc 3..<512]" by (rule upt_split) simp
  have a: "ofold (root_step P Q root) [0..<3] s = Ret s"
    using k root by (intro ofold_id) (auto simp: kernel_part_def intro!: root_step_quiet)
  obtain s' where s': "root_step P Q root 3 s = Ret s'"
    and fr: "frame s (- {root} \<inter> (set (space_pages P q (pmem s) root) \<union> tabs (pmem s) root)) s'"
    using user_root_step [OF P inv po ne Q] by blast
  have b: "ofold (root_step P Q root) [Suc 3..<512] s' = Ret s'"
  proof (rule ofold_id)
    fix i
    assume "i \<in> set [Suc 3..<512]"
    then have i: "4 \<le> i" "i < 512" by (simp_all del: upt_rec_numeral)
    have "pmem s' (slot root i) = pmem s (slot root i)" using frameD [OF fr root(1) i(2)] by simp
    then have "quiet2 P Q (pmem s') root i" using k i by (simp add: kernel_part_def quiet2_def)
    then show "root_step P Q root i s' = Ret s'" using root_step_quiet root(1) i(2) by blast
  qed
  show ?thesis
    unfolding spl ofold_append a obind.simps ofold.simps s' b by blast
qed

lemma space_pages_distinct:
  assumes P: "\<forall>e. P e \<longrightarrow> valid e" and inv: "pt_inv m root F"
  shows "distinct (space_pages P q m root)"
proof (cases "pt1 m root")
  case (Some p1)
  have "p1 \<notin> set (all_pages P q m root 512)"
    using dir_pages_ok(4) [OF P inv, of p1 q] Some by (auto simp: all_pages_mem)
  then show ?thesis using all_pages_distinct [OF P inv, of q 512] by (cases q) (simp_all add: space_pages_def Some)
qed (simp add: space_pages_def)

lemma leaf_page_of:
  assumes "uspace m root (i, j) = Some (pg, f)"
  obtains p0 where "pt0 m root i = Some p0" "j < 512" "valid (m (slot p0 j))" "pg = tbl (m (slot p0 j))"
    "f = pte_flags (m (slot p0 j))"
  using assms by (auto simp: uspace_def Let_def split: option.splits if_splits)

lemma space_pages_set:
  assumes P: "\<forall>e. P e \<longrightarrow> valid e"
  shows "p \<in> set (space_pages P q m root) \<longleftrightarrow>
    (\<exists>i p0 j. pt0 m root i = Some p0 \<and> j < 512 \<and> P (m (slot p0 j)) \<and> p = tbl (m (slot p0 j))) \<or>
    q \<and> (pt1 m root = Some p \<or> (\<exists>i. pt0 m root i = Some p))" (is "_ \<longleftrightarrow> ?R")
proof (cases "pt1 m root")
  case None
  then have "pt0 m root i = None" for i by (simp add: pt0_def)
  then show ?thesis using None by (simp add: space_pages_def)
next
  case (Some p1)
  have d: "p \<in> set (dir_pages P q m root i) \<longleftrightarrow> (\<exists>p0. pt0 m root i = Some p0 \<and>
      ((\<exists>j < 512. P (m (slot p0 j)) \<and> p = tbl (m (slot p0 j))) \<or> q \<and> p = p0))" for i
    by (cases "pt0 m root i") (auto simp: dir_pages_def leaf_pages_def)
  have "p \<in> set (all_pages P q m root 512) \<longleftrightarrow> (\<exists>i. p \<in> set (dir_pages P q m root i))"
    using d pt0_pt1 unfolding all_pages_mem by blast
  then show ?thesis using Some d by (auto simp: space_pages_def)
qed

lemma root_of_mtag: "page_ok root \<Longrightarrow> pagenum_to_pageptr (sv39_mtag root) = root"
proof -
  assume ok: "page_ok root"
  have "pagenum_to_pageptr (sv39_mtag root) = push_bit 12 (drop_bit 12 root)"
  proof -
    have "push_bit 12 (push_bit 60 8 :: u64) = 0" by simp
    then show ?thesis by (simp only: pagenum_to_pageptr_def sv39_mtag_def pageptr_to_pagenum_def push_bit_or or.left_neutral)
  qed
  also have "\<dots> = push_bit 12 (drop_bit 12 root) AND push_bit 12 (mask 44)"
  proof (rule bit_word_eqI)
    fix n
    assume "n < LENGTH(64)"
    have "unat root < 2 ^ 32" using page_ok_bound [OF ok] by simp
    then have "take_bit 32 root = root"
      by (simp add: word_unat_eq_iff unsigned_take_bit_eq take_bit_nat_eq_self)
    then have "bit root n \<Longrightarrow> n < 32" using bit_take_bit_iff [of 32 root n] by simp
    then show "bit (push_bit 12 (drop_bit 12 root)) n = bit (push_bit 12 (drop_bit 12 root) AND push_bit 12 (mask 44)) n"
      by (auto simp: bit_simps)
  qed
  finally show ?thesis using page_ok_bits [OF ok] by simp
qed

lemma is_reclaimed_valid: "\<forall>e. is_reclaimed e \<longrightarrow> valid e" and is_user_leaf_valid: "\<forall>e. is_user_leaf e \<longrightarrow> valid e"
  by (simp_all add: is_reclaimed_def is_user_leaf_def valid_def)

lemma memory_space_reclaim_frees:
  assumes "satp s = sv39_mtag root" and "pt_inv (pmem s) root (set ps)" and "pool s ps" and "ps \<noteq> []"
    and "\<forall>x pg f. uspace (pmem s) root x = Some (pg, f) \<longrightarrow> f AND PTE_G = 0"
    and "kernel_part is_reclaimed (\<lambda>e. pte_flags e AND PTE_G = 0) (pmem s) root"
  shows "\<exists>s' qs. memory_space_reclaim s = Ret s' \<and> satp s' = main_mtag s \<and> pool s' (qs @ ps) \<and> distinct qs \<and>
    set qs = {pg. \<exists>x f. uspace (pmem s) root x = Some (pg, f)} \<union> (tabs (pmem s) root - {root})"
proof -
  let ?s = "s\<lparr>satp := main_mtag s\<rparr>" and ?P = is_reclaimed and ?Q = "\<lambda>e. pte_flags e AND PTE_G = 0"
  have Q: "\<forall>e. pte_flags e = PTE_V \<longrightarrow> ?Q e = True" by (simp add: PTE_V_def PTE_G_def)
  have pt: "pt_inv (pmem ?s) root (set ps)" and po: "pool ?s ps" and k: "kernel_part ?P ?Q (pmem ?s) root"
    using assms(2,3,6) by simp_all
  obtain s' where s': "root_step ?P ?Q root 3 ?s = Ret s'" "ofold (root_step ?P ?Q root) [0..<512] ?s = Ret s'"
    using root_loop [OF is_reclaimed_valid pt po assms(4) Q k] by blast
  let ?L = "space_pages ?P True (pmem s) root"
  have po': "pool s' (rev ?L @ ps)" and fr: "satp s' = main_mtag s"
    using user_root_step [OF is_reclaimed_valid pt po assms(4) Q] s'(1) by (auto simp: frame_def same_regs_def)
  have "p \<in> set ?L \<longleftrightarrow> (\<exists>x f. uspace (pmem s) root x = Some (p, f)) \<or> p \<in> tabs (pmem s) root - {root}" for p
  proof -
    have "(\<exists>i p0 j. pt0 (pmem s) root i = Some p0 \<and> j < 512 \<and> ?P (pmem s (slot p0 j)) \<and> p = tbl (pmem s (slot p0 j)))
        \<longleftrightarrow> (\<exists>x f. uspace (pmem s) root x = Some (p, f))" (is "?A \<longleftrightarrow> ?B")
    proof
      assume ?A
      then obtain i p0 j where "pt0 (pmem s) root i = Some p0" "j < 512" "?P (pmem s (slot p0 j))"
        "p = tbl (pmem s (slot p0 j))" by blast
      then have "uspace (pmem s) root (i, j) = Some (p, pte_flags (pmem s (slot p0 j)))"
        using is_reclaimed_valid by (simp add: uspace_def Let_def)
      then show ?B by blast
    next
      assume ?B
      then obtain i j f where u: "uspace (pmem s) root (i, j) = Some (p, f)" by auto
      then obtain p0 where "pt0 (pmem s) root i = Some p0" "j < 512" "valid (pmem s (slot p0 j))"
        "p = tbl (pmem s (slot p0 j))" "f = pte_flags (pmem s (slot p0 j))" by (rule leaf_page_of)
      moreover have "f AND PTE_G = 0" using assms(5) u by blast
      ultimately have "?P (pmem s (slot p0 j))" by (simp add: is_reclaimed_def valid_def)
      with \<open>pt0 (pmem s) root i = Some p0\<close> \<open>j < 512\<close> \<open>p = _\<close> show ?A by blast
    qed
    moreover have "pt1 (pmem s) root \<noteq> Some root" "pt0 (pmem s) root i \<noteq> Some root" for i
      using pt_inv_pt1(3) [OF assms(2), of root] pt_inv_pt0(3) [OF assms(2), of _ i root] pt0_pt1 [of "pmem s" root i root]
      by auto
    ultimately show ?thesis
      unfolding space_pages_set [OF is_reclaimed_valid] tabs_def by auto
  qed
  then have "set (rev ?L) = {pg. \<exists>x f. uspace (pmem s) root x = Some (pg, f)} \<union> (tabs (pmem s) root - {root})"
    by auto
  moreover have "memory_space_reclaim s = Ret s'"
    using s'(2) assms(1) root_of_mtag [OF pt_inv_root(1) [OF assms(2)]]
    by (simp add: memory_space_reclaim_def memory_space_switch_def reclaim_steps PTE_CNT_def)
  ultimately show ?thesis
    using po' fr space_pages_distinct [OF is_reclaimed_valid assms(2), of True]
    by (intro exI [of _ s'] exI [of _ "rev ?L"]) simp
qed

text \<open>
  C11: \<open>memory_space_reclaim\<close> makes the main space active and returns to the free list exactly the pages
  that the reclaimed space maps in the user region and its page tables below the root, each of them
  once: nothing is lost or freed twice, and the pages that were free stay free in their order. (The
  root table itself is not released, and the free list must not be empty at the call.)
\<close>
theorem memory_space_reclaim_correct:
  assumes "satp s = sv39_mtag root" and "pt_inv (pmem s) root (set ps)" and "pool s ps" and "ps \<noteq> []"
    and "\<forall>x pg f. uspace (pmem s) root x = Some (pg, f) \<longrightarrow> f AND PTE_G = 0"
    and "kernel_part is_reclaimed (\<lambda>e. pte_flags e AND PTE_G = 0) (pmem s) root"
  shows "\<exists>s' qs. memory_space_reclaim s = Ret s' \<and> satp s' = main_mtag s \<and> pool s' (qs @ ps) \<and> distinct qs \<and>
    set qs = {pg. \<exists>x f. uspace (pmem s) root x = Some (pg, f)} \<union> (tabs (pmem s) root - {root})"
  by (rule memory_space_reclaim_frees [OF assms])

lemma free_list_end_Ret:
  assumes "flist (pmem s) p (x # xs)" and "length (x # xs) \<le> fuel"
  shows "free_list_end fuel p s = Ret (last (x # xs))"
  using assms
proof (induction xs arbitrary: fuel p x)
  case Nil
  then show ?case by (cases fuel) (auto simp: load_def page_ok_def)
next
  case (Cons y ys)
  obtain n where n: "fuel = Suc n" using Cons.prems(2) by (cases fuel) auto
  have "free_list_end n y s = Ret (last (y # ys))" using Cons n by auto
  moreover have "in_ram x" "pmem s x = y" "y \<noteq> 0" using Cons.prems(1) page_ok_nonzero by (auto simp: page_ok_def)
  ultimately show ?case using Cons.prems(1) n by (simp add: load_def)
qed

lemma clear_if_facts:
  "valid (clear_if is_user_leaf e) \<longleftrightarrow> valid e \<and> \<not> is_user_leaf e"
  "\<not> is_user_leaf e \<Longrightarrow> clear_if is_user_leaf e = e"
  "is_user_leaf e \<Longrightarrow> pte_flags (clear_if is_user_leaf e) = 0"
  by (auto simp: clear_if_def valid_def)

text \<open>
  C12: \<open>memory_unmap_and_free_user\<close>, given fuel for the length of the free list, removes exactly the
  user-accessible mappings from the active space: their pages go to the free list, each once, while
  every other mapping of the user region and all page tables stay as they are.
\<close>
theorem memory_unmap_and_free_user_correct:
  assumes "pt_inv (pmem s) (active_space_root s) (set ps)" and "pool s ps" and "ps \<noteq> []" and "length ps \<le> fuel"
    and "kernel_part is_user_leaf (\<lambda>e. pte_flags e AND PTE_U \<noteq> 0) (pmem s) (active_space_root s)"
  shows "\<exists>s' qs. memory_unmap_and_free_user fuel s = Ret s' \<and> pool s' (qs @ ps) \<and> distinct qs \<and>
    set qs = {pg. \<exists>x f. uspace (pmem s) (active_space_root s) x = Some (pg, f) \<and> f AND PTE_U \<noteq> 0} \<and>
    uspace (pmem s') (active_space_root s) = (\<lambda>x. case uspace (pmem s) (active_space_root s) x of
       None \<Rightarrow> None | Some (pg, f) \<Rightarrow> if f AND PTE_U \<noteq> 0 then None else Some (pg, f)) \<and>
    tabs (pmem s') (active_space_root s) = tabs (pmem s) (active_space_root s) \<and>
    active_space_root s' = active_space_root s"
proof -
  let ?r = "active_space_root s" and ?P = is_user_leaf and ?Q = "\<lambda>e. pte_flags e AND PTE_U \<noteq> 0"
  let ?m = "pmem s" and ?L = "space_pages is_user_leaf False (pmem s) (active_space_root s)"
  note P = is_user_leaf_valid and inv = assms(1)
  have Q: "\<forall>e. pte_flags e = PTE_V \<longrightarrow> ?Q e = False" by (simp add: PTE_V_def PTE_U_def)
  obtain s' where s': "root_step ?P ?Q ?r 3 s = Ret s'" "ofold (root_step ?P ?Q ?r) [0..<512] s = Ret s'"
    using root_loop [OF P inv assms(2,3) Q assms(5)] by blast
  have po': "pool s' (rev ?L @ ps)" and fr: "frame s (- {?r} \<inter> (set ?L \<union> tabs ?m ?r)) s'"
    and c1: "\<And>p1 i. pt1 ?m ?r = Some p1 \<Longrightarrow> i < 512 \<Longrightarrow> pmem s' (slot p1 i) = ?m (slot p1 i)"
    and c0: "\<And>i p0 j. pt0 ?m ?r i = Some p0 \<Longrightarrow> j < 512 \<Longrightarrow> pmem s' (slot p0 j) = clear_if ?P (?m (slot p0 j))"
    using user_root_step [OF P inv assms(2,3) Q] s'(1) by auto
  have r3: "pmem s' (slot ?r 3) = ?m (slot ?r 3)" using frameD [OF fr pt_inv_root(1) [OF inv]] by simp
  have pt1: "pt1 (pmem s') ?r = pt1 ?m ?r" by (simp add: pt1_def r3)
  have pt0: "pt0 (pmem s') ?r = pt0 ?m ?r"
  proof
    fix i
    show "pt0 (pmem s') ?r i = pt0 ?m ?r i"
      using c1 [of _ i] by (cases "pt1 ?m ?r") (auto simp: pt0_def pt1 Let_def)
  qed
  have ul: "?P (?m (slot p0 j)) \<longleftrightarrow> pte_flags (?m (slot p0 j)) AND PTE_U \<noteq> 0"
    if "pt0 ?m ?r i = Some p0" "j < 512" "valid (?m (slot p0 j))" for i p0 j
  proof -
    have "uspace ?m ?r (i, j) = Some (tbl (?m (slot p0 j)), pte_flags (?m (slot p0 j)))"
      using that by (simp add: uspace_def Let_def)
    from pt_inv_page(1) [OF inv this] have "pte_ppn (?m (slot p0 j)) \<noteq> 0"
      by (auto simp: tbl_def pagenum_to_pageptr_def dest: page_ok_nonzero)
    then show ?thesis using that(3) by (simp add: is_user_leaf_def valid_def)
  qed
  have us: "uspace (pmem s') ?r (i, j) = (case uspace ?m ?r (i, j) of
       None \<Rightarrow> None | Some (pg, f) \<Rightarrow> if f AND PTE_U \<noteq> 0 then None else Some (pg, f))" for i j
  proof (cases "\<exists>p0. pt0 ?m ?r i = Some p0 \<and> j < 512")
    case True
    then obtain p0 where p0: "pt0 ?m ?r i = Some p0" "j < 512" by blast
    show ?thesis
    proof (cases "valid (?m (slot p0 j))")
      case v: True
      show ?thesis using p0 c0 [OF p0] ul [OF p0 v] v clear_if_facts(1,2) [of "?m (slot p0 j)"]
        by (cases "?P (?m (slot p0 j))") (simp_all add: uspace_def pt0 Let_def)
    next
      case False
      then show ?thesis using p0 c0 [OF p0] clear_if_facts(1) [of "?m (slot p0 j)"]
        by (simp add: uspace_def pt0 Let_def)
    qed
  next
    case False
    then show ?thesis by (cases "pt0 ?m ?r i") (auto simp: uspace_def pt0 Let_def)
  qed
  have "p \<in> set ?L \<longleftrightarrow> (\<exists>x f. uspace ?m ?r x = Some (p, f) \<and> f AND PTE_U \<noteq> 0)" for p
  proof
    assume "p \<in> set ?L"
    then obtain i p0 j where p0: "pt0 ?m ?r i = Some p0" "j < 512" "?P (?m (slot p0 j))" "p = tbl (?m (slot p0 j))"
      unfolding space_pages_set [OF P] by blast
    then have v: "valid (?m (slot p0 j))" using P by blast
    then have "uspace ?m ?r (i, j) = Some (p, pte_flags (?m (slot p0 j)))" using p0 by (simp add: uspace_def Let_def)
    moreover have "pte_flags (?m (slot p0 j)) AND PTE_U \<noteq> 0" using ul [OF p0(1,2) v] p0(3) by blast
    ultimately show "\<exists>x f. uspace ?m ?r x = Some (p, f) \<and> f AND PTE_U \<noteq> 0" by blast
  next
    assume "\<exists>x f. uspace ?m ?r x = Some (p, f) \<and> f AND PTE_U \<noteq> 0"
    then obtain i j f where u: "uspace ?m ?r (i, j) = Some (p, f)" "f AND PTE_U \<noteq> 0" by auto
    from u(1) obtain p0 where p0: "pt0 ?m ?r i = Some p0" "j < 512" "valid (?m (slot p0 j))"
      "p = tbl (?m (slot p0 j))" "f = pte_flags (?m (slot p0 j))" by (rule leaf_page_of)
    then have "?P (?m (slot p0 j))" using ul [OF p0(1,2,3)] u(2) by simp
    then show "p \<in> set ?L" unfolding space_pages_set [OF P] using p0 by blast
  qed
  then have "set (rev ?L) = {pg. \<exists>x f. uspace ?m ?r x = Some (pg, f) \<and> f AND PTE_U \<noteq> 0}" by auto
  moreover have "memory_unmap_and_free_user fuel s = Ret s'"
  proof -
    obtain x xs where "ps = x # xs" using assms(3) by (cases ps) auto
    then have "free_list_end fuel (free_list s) s = Ret (last ps)"
      using free_list_end_Ret [of s "free_list s" x xs fuel] assms(2,4) by (simp add: pool_def)
    then show ?thesis using s'(2) by (simp add: memory_unmap_and_free_user_def reclaim_steps PTE_CNT_def)
  qed
  moreover have "uspace (pmem s') ?r = (\<lambda>x. case uspace ?m ?r x of
       None \<Rightarrow> None | Some (pg, f) \<Rightarrow> if f AND PTE_U \<noteq> 0 then None else Some (pg, f))"
  proof
    fix x
    show "uspace (pmem s') ?r x = (case uspace ?m ?r x of
       None \<Rightarrow> None | Some (pg, f) \<Rightarrow> if f AND PTE_U \<noteq> 0 then None else Some (pg, f))"
      using us by (cases x) simp
  qed
  moreover have "tabs (pmem s') ?r = tabs ?m ?r" by (simp add: tabs_def pt1 pt0)
  moreover have "active_space_root s' = ?r"
    using fr by (simp add: frame_def same_regs_def active_space_root_def active_space_mtag_def)
  ultimately show ?thesis
    using po' space_pages_distinct [OF P inv, of False] by (intro exI [of _ s'] exI [of _ "rev ?L"]) simp
qed

text \<open>A space with one user page, its two tables, and one free page.\<close>

definition demo_tables :: "u64 \<Rightarrow> u64" where
  "demo_tables = (\<lambda>_. 0)(slot 0x80200000 3 := ptab_pte 0x80301000 0, slot 0x80301000 0 := ptab_pte 0x80302000 0,
     slot 0x80302000 5 := leaf_pte 0x80303000 (PTE_R OR PTE_W OR PTE_U))"

definition demo_space :: mstate where
  "demo_space = \<lparr>pmem = demo_tables, free_list = 0x80304000, heap_start = 0x80100000, heap_end = 0x80100020,
     heap_initialized = True, satp = sv39_mtag 0x80200000, main_mtag = sv39_mtag 0x80105000,
     memory_initialized = True\<rparr>"

lemma demo_space_ok: "page_ok 0x80304000"
  by (simp add: page_ok_def in_ram_def RAM_START_def RAM_END_def RAM_SIZE_def)

lemma demo_leaf:
  "valid (leaf_pte 0x80303000 (PTE_R OR PTE_W OR PTE_U))"
  "tbl (leaf_pte 0x80303000 (PTE_R OR PTE_W OR PTE_U)) = 0x80303000"
  "pte_flags (leaf_pte 0x80303000 (PTE_R OR PTE_W OR PTE_U)) = (PTE_R OR PTE_W OR PTE_U) OR PTE_A OR PTE_D OR PTE_V"
proof -
  show f: "pte_flags (leaf_pte 0x80303000 (PTE_R OR PTE_W OR PTE_U)) = (PTE_R OR PTE_W OR PTE_U) OR PTE_A OR PTE_D OR PTE_V"
    by (simp add: leaf_pte_def)
  then show "valid (leaf_pte 0x80303000 (PTE_R OR PTE_W OR PTE_U))"
    by (simp add: valid_def PTE_R_def PTE_W_def PTE_U_def PTE_A_def PTE_D_def PTE_V_def)
  show "tbl (leaf_pte 0x80303000 (PTE_R OR PTE_W OR PTE_U)) = 0x80303000"
    using demo_page_ok by (simp add: tbl_def leaf_pte_def)
qed

lemma demo_tables_inv:
  "pt_inv demo_tables 0x80200000 {0x80304000}"
  "uspace demo_tables 0x80200000 = [(0, 5) \<mapsto> (0x80303000, (PTE_R OR PTE_W OR PTE_U) OR PTE_A OR PTE_D OR PTE_V)]"
  "tabs demo_tables 0x80200000 = {0x80200000, 0x80301000, 0x80302000}"
proof -
  let ?r = "0x80200000 :: u64" and ?e = "leaf_pte 0x80303000 (PTE_R OR PTE_W OR PTE_U)"
  define m0 :: "u64 \<Rightarrow> u64" where "m0 = (\<lambda>_. 0)"
  define m1 where "m1 = m0(slot ?r 3 := ptab_pte 0x80301000 0)"
  define m2 where "m2 = m1(slot 0x80301000 0 := ptab_pte 0x80302000 0)"
  have n: "pt1 m0 ?r = None" "pt0 m0 ?r i = None" "uspace m0 ?r x = None" for i x
    by (auto simp: pt1_def pt0_def uspace_def valid_def m0_def split: prod.splits)
  have inv0: "pt_inv m0 ?r (insert 0x80301000 {0x80302000, 0x80304000})"
    by (rule pt_invI) (simp_all add: demo_page_ok n)
  have t0: "tabs m0 ?r = {?r}" by (auto simp: tabs_def n)
  have c0: "\<forall>i < 512. pte_flags (m0 (slot 0x80301000 i)) = 0" by (simp add: m0_def)
  have nin: "0x80301000 \<notin> {0x80302000, 0x80304000 :: u64}" by simp
  note s1 = pt_inv_new_pt1 [OF inv0 n(1) demo_page_ok(3) nin c0, folded m1_def]
  have "m1 (slot 0x80302000 i) = 0" if "i < 512" for i
    using slot_inj [OF demo_page_ok(4,1) that, of 3] by (simp add: m1_def m0_def)
  then have c1: "\<forall>i < 512. pte_flags (m1 (slot 0x80302000 i)) = 0" by simp
  have inv1: "pt_inv m1 ?r (insert 0x80302000 {0x80304000})" using s1(2) by simp
  have nin2: "0x80302000 \<notin> {0x80304000 :: u64}" and z: "(0 :: nat) < 512" by simp_all
  note s2 = pt_inv_new_pt0 [OF inv1 s1(1) s1(4) z demo_page_ok(4) nin2 c1, folded m2_def]
  have p0: "pt0 m2 ?r 0 = Some 0x80302000" by (simp add: s2(2))
  have u2: "uspace m2 ?r = Map.empty" using s2(4) s1(3) n(3) by (simp add: fun_eq_iff)
  have t2: "tabs m2 ?r = {?r, 0x80301000, 0x80302000}" using s2(5) s1(5) t0 by auto
  have leaf: "demo_tables = m2(slot 0x80302000 5 := ?e)" by (simp add: demo_tables_def m2_def m1_def m0_def)
  show "pt_inv demo_tables ?r {0x80304000}"
    unfolding leaf by (rule pt_inv_set_leaf_inv [OF s2(3) p0]) (simp_all add: demo_leaf demo_page_ok u2 t2)
  show "uspace demo_tables ?r = [(0, 5) \<mapsto> (0x80303000, (PTE_R OR PTE_W OR PTE_U) OR PTE_A OR PTE_D OR PTE_V)]"
    unfolding leaf using pt_inv_set_leaf(4) [OF s2(3) p0, of 5 ?e] by (simp add: demo_leaf u2)
  show "tabs demo_tables ?r = {?r, 0x80301000, 0x80302000}"
    unfolding leaf using pt_inv_set_leaf(3) [OF s2(3) p0, of 5 ?e] by (simp add: t2)
qed

lemma demo_kernel_part: "kernel_part P Q demo_tables 0x80200000"
proof -
  have "demo_tables (slot 0x80200000 i) = 0" if "i < 512" "i \<noteq> 3" for i
    using that slot_inj [OF demo_page_ok(1) demo_page_ok(1) that(1), of 3]
      slot_inj [OF demo_page_ok(1) demo_page_ok(3) that(1), of 0] slot_inj [OF demo_page_ok(1) demo_page_ok(4) that(1), of 5]
    by (simp add: demo_tables_def)
  then show ?thesis by (auto simp: kernel_part_def quiet2_def is_table_def)
qed

lemma demo_pool: "pool demo_space [0x80304000]"
proof -
  have "demo_tables 0x80304000 = 0"
    using slot_inj [OF demo_space_ok demo_page_ok(1), of 0 3] slot_inj [OF demo_space_ok demo_page_ok(3), of 0 0]
      slot_inj [OF demo_space_ok demo_page_ok(4), of 0 5] by (simp add: demo_tables_def slot_0)
  then show ?thesis by (simp add: pool_def demo_space_def demo_space_ok)
qed

lemma demo_space_root: "active_space_root demo_space = 0x80200000"
  by (simp add: demo_space_def active_space_root_def active_space_mtag_def mtag_to_root_def sv39_mtag_def
      pageptr_to_pagenum_def)

lemma demo_space_facts:
  "satp demo_space = sv39_mtag 0x80200000" "pt_inv (pmem demo_space) 0x80200000 (set [0x80304000])"
  "\<forall>x pg f. uspace (pmem demo_space) 0x80200000 x = Some (pg, f) \<longrightarrow> f AND PTE_G = 0"
  "kernel_part is_reclaimed (\<lambda>e. pte_flags e AND PTE_G = 0) (pmem demo_space) 0x80200000"
proof -
  have m: "pmem demo_space = demo_tables" by (simp add: demo_space_def)
  show "satp demo_space = sv39_mtag 0x80200000" by (simp add: demo_space_def)
  show "pt_inv (pmem demo_space) 0x80200000 (set [0x80304000])" using demo_tables_inv(1) by (simp add: m)
  show "\<forall>x pg f. uspace (pmem demo_space) 0x80200000 x = Some (pg, f) \<longrightarrow> f AND PTE_G = 0"
    by (auto simp: m demo_tables_inv PTE_R_def PTE_W_def PTE_U_def PTE_A_def PTE_D_def PTE_V_def PTE_G_def split: if_splits)
  show "kernel_part is_reclaimed (\<lambda>e. pte_flags e AND PTE_G = 0) (pmem demo_space) 0x80200000"
    using demo_kernel_part by (simp add: m)
qed

theorem memory_space_reclaim_correct_witness:
  "\<exists>s' qs. memory_space_reclaim demo_space = Ret s' \<and> satp s' = main_mtag demo_space \<and>
     pool s' (qs @ [0x80304000]) \<and> distinct qs \<and> set qs = {0x80303000, 0x80301000, 0x80302000}"
proof -
  have m: "pmem demo_space = demo_tables" "satp demo_space = sv39_mtag 0x80200000" by (simp_all add: demo_space_def)
  have g: "\<forall>x pg f. uspace demo_tables 0x80200000 x = Some (pg, f) \<longrightarrow> f AND PTE_G = 0"
    by (auto simp: demo_tables_inv PTE_R_def PTE_W_def PTE_U_def PTE_A_def PTE_D_def PTE_V_def PTE_G_def split: if_splits)
  have "{pg. \<exists>x f. uspace demo_tables 0x80200000 x = Some (pg, f)} \<union> (tabs demo_tables 0x80200000 - {0x80200000})
      = {0x80303000, 0x80301000, 0x80302000}"
    by (auto simp: demo_tables_inv)
  then show ?thesis
    using memory_space_reclaim_correct [of demo_space "0x80200000" "[0x80304000]"] demo_tables_inv(1) demo_pool g
      demo_kernel_part by (simp add: m)
qed

theorem memory_unmap_and_free_user_correct_witness:
  "\<exists>s' qs. memory_unmap_and_free_user 1 demo_space = Ret s' \<and> pool s' (qs @ [0x80304000]) \<and>
     set qs = {0x80303000} \<and> uspace (pmem s') 0x80200000 = Map.empty"
proof -
  have m: "pmem demo_space = demo_tables" by (simp add: demo_space_def)
  have u: "(PTE_R OR PTE_W OR PTE_U OR PTE_A OR PTE_D OR PTE_V) AND PTE_U \<noteq> 0"
    by (simp add: PTE_R_def PTE_W_def PTE_U_def PTE_A_def PTE_D_def PTE_V_def)
  have "{pg. \<exists>x f. uspace demo_tables 0x80200000 x = Some (pg, f) \<and> f AND PTE_U \<noteq> 0} = {0x80303000}"
    using u by (auto simp: demo_tables_inv or.assoc)
  moreover have "(\<lambda>x. case uspace demo_tables 0x80200000 x of
      None \<Rightarrow> None | Some (pg, f) \<Rightarrow> if f AND PTE_U \<noteq> 0 then None else Some (pg, f)) = Map.empty"
    using u by (auto simp: demo_tables_inv fun_eq_iff or.assoc)
  ultimately show ?thesis
    using memory_unmap_and_free_user_correct [of demo_space "[0x80304000]" 1] demo_tables_inv(1) demo_pool
      demo_kernel_part unfolding demo_space_root m by auto
qed

end
