(* ===== verification/Syscall.thy ===== *)
theory Syscall
  imports Process Intr Reclaim
begin

text \<open>
  \<^verbatim>\<open>kern/syscall.c\<close> and \<^verbatim>\<open>kern/excp.c\<close>: the system calls, their dispatch from the trap frame, and the exception handlers;
  then the end of a process over memory, scheduler and I/O objects together.
\<close>

section \<open>Descriptors\<close>

text \<open>
  The table of a process has \<open>PROCESS_IOMAX\<close> slots; an access beyond it is outside the object. A descriptor less than 0
  asks for the next available one, which the loop looks for among the first \<open>MAX_OPEN_FILE_CT\<close>.
\<close>

definition iotab_get :: "u64 \<Rightarrow> int \<Rightarrow> 'w world \<Rightarrow> u64 outcome" where
  "iotab_get p fd w =
     (if 0 \<le> fd \<and> fd < int PROCESS_IOMAX then Ret (iotab (procs (w_k w) p) ! nat fd) else Fault)"

definition iotab_set :: "u64 \<Rightarrow> int \<Rightarrow> u64 \<Rightarrow> 'w world \<Rightarrow> 'w world outcome" where
  "iotab_set p fd io w =
     (if 0 \<le> fd \<and> fd < int PROCESS_IOMAX
      then Ret (set_proc p (\<lambda>x. x\<lparr>iotab := (iotab x)[nat fd := io]\<rparr>) w) else Fault)"

fun fd_search :: "nat \<Rightarrow> int \<Rightarrow> u64 \<Rightarrow> 'w world \<Rightarrow> int outcome" where
  "fd_search 0 fd p w = Ret fd"
| "fd_search (Suc k) fd p w =
     obind (iotab_get p fd w) (\<lambda>io. if io \<noteq> 0 then Ret fd else fd_search k (fd + 1) p w)"

text \<open>The checks at the start of the calls: the process and the descriptor, or an error code.\<close>

definition open_fd :: "int \<Rightarrow> 'w world \<Rightarrow> (int + u64 \<times> int) outcome" where
  "open_fd fd w =
     obind (current_process w) (\<lambda>curproc.
     if curproc = 0 then Ret (Inl (- ENOENT))
     else if fd \<ge> int MAX_OPEN_FILE_CT then Ret (Inl (- ENOENT))
     else if fd < 0 then
       obind (fd_search MAX_OPEN_FILE_CT 0 curproc w) (\<lambda>fd.
         if fd = int MAX_OPEN_FILE_CT then Ret (Inl (- ENOENT)) else Ret (Inr (curproc, fd)))
     else Ret (Inr (curproc, fd)))"

definition used_fd :: "int \<Rightarrow> 'w world \<Rightarrow> (int + u64 \<times> u64) outcome" where
  "used_fd fd w =
     obind (current_process w) (\<lambda>curproc.
     if curproc = 0 then Ret (Inl (- ENOENT))
     else if fd < 0 \<or> fd \<ge> int MAX_OPEN_FILE_CT then Ret (Inl (- ENOENT))
     else
       obind (iotab_get curproc fd w) (\<lambda>io.
         if io = 0 then Ret (Inl (- EIO)) else Ret (Inr (curproc, io))))"

section \<open>System calls\<close>

definition sysexit :: "'w env \<Rightarrow> 'w world \<Rightarrow> 'w world outcome" where
  "sysexit e w = process_exit e w"

definition sysmsgout :: "'w env \<Rightarrow> u64 \<Rightarrow> 'w world \<Rightarrow> (int \<times> 'w world) outcome" where
  "sysmsgout e msg w =
     (let result = memory_validate_vstr msg PTE_U in
      if result \<noteq> 0 then Ret (result, w)
      else
        obind (thread_name (running_thread (w_k w)) (w_k w)) (\<lambda>name.
        Ret (0, w\<lparr>w_log := w_log w @ [(name, running_thread (w_k w), ustr e msg (mem (w_k w)))]\<rparr>)))"

text \<open>The common end of the two open calls: the slot gets the new object, or keeps the old one if none was stored.\<close>

definition store_opened ::
    "u64 \<Rightarrow> int \<Rightarrow> int \<Rightarrow> int \<times> u64 option \<times> 'w \<Rightarrow> u64 \<Rightarrow> 'w world \<Rightarrow> (int \<times> 'w world) outcome" where
  "store_opened curproc fd err = (\<lambda>(result, new, io_state) old w.
     let w = w\<lparr>w_io := io_state\<rparr> in
     obind (iotab_set curproc fd (case new of Some io \<Rightarrow> io | None \<Rightarrow> old) w) (\<lambda>w.
       if result < 0 then Ret (err, w) else Ret (fd, w)))"

definition sysdevopen :: "'w env \<Rightarrow> int \<Rightarrow> u64 \<Rightarrow> int \<Rightarrow> 'w world \<Rightarrow> (int \<times> 'w world) outcome" where
  "sysdevopen e fd name instno w =
     obind (open_fd fd w) (\<lambda>c. case c of
       Inl err \<Rightarrow> Ret (err, w)
     | Inr (curproc, fd) \<Rightarrow>
         obind (iotab_get curproc fd w) (\<lambda>device_io.
         obind (env_device_open e (ustr e name (mem (w_k w))) instno (w_io w)) (\<lambda>r.
           store_opened curproc fd (- ENODEV) r device_io w)))"

definition sysfsopen :: "'w env \<Rightarrow> int \<Rightarrow> u64 \<Rightarrow> 'w world \<Rightarrow> (int \<times> 'w world) outcome" where
  "sysfsopen e fd name w =
     obind (open_fd fd w) (\<lambda>c. case c of
       Inl err \<Rightarrow> Ret (err, w)
     | Inr (curproc, fd) \<Rightarrow>
         obind (iotab_get curproc fd w) (\<lambda>file_io.
         obind (env_fs_open e (ustr e name (mem (w_k w))) (w_io w)) (\<lambda>r.
           store_opened curproc fd (- ENOENT) r file_io w)))"

definition sysclose :: "'w env \<Rightarrow> int \<Rightarrow> 'w world \<Rightarrow> (int \<times> 'w world) outcome" where
  "sysclose e fd w =
     obind (used_fd fd w) (\<lambda>c. case c of
       Inl err \<Rightarrow> Ret (err, w)
     | Inr (curproc, io) \<Rightarrow>
         (case op_close (ops_of e io) of
            None \<Rightarrow> Fault
          | Some cl \<Rightarrow>
              obind (iotab_set curproc fd 0 (w\<lparr>w_io := cl (w_io w)\<rparr>)) (\<lambda>w. Ret (0, w))))"

definition sysread :: "'w env \<Rightarrow> int \<Rightarrow> u64 \<Rightarrow> u64 \<Rightarrow> 'w world \<Rightarrow> (int \<times> 'w world) outcome" where
  "sysread e fd buf bufsz w =
     obind (memory_validate_vptr_len buf bufsz (PTE_U OR PTE_W) (mem (w_k w))) (\<lambda>validate_result.
     if validate_result \<noteq> 0 then Ret (validate_result, w)
     else
       obind (used_fd fd w) (\<lambda>c. case c of
         Inl err \<Rightarrow> Ret (err, w)
       | Inr (_, io) \<Rightarrow>
           obind (ioread (ops_of e io) (unat bufsz) (w_io w)) (\<lambda>(r, bs, s).
           obind (ustore e buf bs (mem (w_k w))) (\<lambda>m. Ret (r, set_mem m (w\<lparr>w_io := s\<rparr>))))))"

definition syswrite :: "'w env \<Rightarrow> int \<Rightarrow> u64 \<Rightarrow> u64 \<Rightarrow> 'w world \<Rightarrow> (int \<times> 'w world) outcome" where
  "syswrite e fd buf len w =
     obind (used_fd fd w) (\<lambda>c. case c of
       Inl err \<Rightarrow> Ret (err, w)
     | Inr (_, io) \<Rightarrow>
         obind (iowrite (ops_of e io) (uload e buf (unat len) (mem (w_k w))) (w_io w)) (\<lambda>(r, s).
           Ret (r, w\<lparr>w_io := s\<rparr>)))"

text \<open>\<open>sysioctl\<close>; the argument is a cell in user memory.\<close>

definition u64_bytes :: "u64 \<Rightarrow> u8 list" where
  "u64_bytes v = map (\<lambda>i. ucast (drop_bit (8 * i) v)) [0..<8]"

definition sysioctl :: "'w env \<Rightarrow> int \<Rightarrow> int \<Rightarrow> u64 \<Rightarrow> 'w world \<Rightarrow> (int \<times> 'w world) outcome" where
  "sysioctl e fd cmd arg w =
     obind (open_fd fd w) (\<lambda>c. case c of
       Inl err \<Rightarrow> Ret (err, w)
     | Inr (curproc, fd) \<Rightarrow>
         obind (iotab_get curproc fd w) (\<lambda>io.
         if io = 0 then Ret (- EIO, w)
         else
           obind (ioctl (ops_of e io) cmd (le64 (uload e arg 8 (mem (w_k w))) 0) (w_io w)) (\<lambda>(r, v, s).
           obind (ustore e arg (u64_bytes v) (mem (w_k w))) (\<lambda>m. Ret (r, set_mem m (w\<lparr>w_io := s\<rparr>))))))"

definition sysexec :: "'w env \<Rightarrow> int \<Rightarrow> 'w world \<Rightarrow> ((int + user_entry) \<times> 'w world) outcome" where
  "sysexec e fd w =
     obind (used_fd fd w) (\<lambda>c. case c of
       Inl err \<Rightarrow> Ret (Inl err, w)
     | Inr (_, exeio) \<Rightarrow> process_exec e exeio w)"

text \<open>
  The trap frame is on the kernel stack of the thread: \<open>tfr\<close> is its address, with the registers \<open>x0\<close>--\<open>x31\<close> first and
  then \<open>sstatus\<close> and \<open>sepc\<close>.
\<close>

definition frame_at :: "u64 \<Rightarrow> mstate \<Rightarrow> trap_frame" where
  "frame_at tfr m = \<lparr>tfr_x = map (\<lambda>r. pmem m (tfr + 8 * of_nat r)) [0..<32],
     tfr_sstatus = pmem m (tfr + 256), tfr_sepc = pmem m (tfr + 264)\<rparr>"

definition put_word :: "u64 \<Rightarrow> u64 \<Rightarrow> 'w world \<Rightarrow> 'w world" where
  "put_word a v w = set_mem ((mem (w_k w))\<lparr>pmem := (pmem (mem (w_k w)))(a := v)\<rparr>) w"

text \<open>\<open>sysfork\<close>: a slot of the process table, a clone of the memory space, and a reference to every open object.\<close>

definition share_slot :: "'w env \<Rightarrow> u64 \<Rightarrow> u64 \<Rightarrow> nat \<Rightarrow> 'w world \<Rightarrow> 'w world" where
  "share_slot e parent_proc child_proc i w =
     (let io = iotab (procs (w_k w) parent_proc) ! i;
          w = set_proc child_proc (\<lambda>x. x\<lparr>iotab := (iotab x)[i := io]\<rparr>) w
      in if io \<noteq> 0 then w\<lparr>w_io := ioref_of e io (w_io w)\<rparr> else w)"

definition sysfork :: "'w env \<Rightarrow> u64 \<Rightarrow> 'w world \<Rightarrow> (int \<times> 'w world) outcome" where
  "sysfork e tfr w =
     obind (current_process w) (\<lambda>parent_proc.
     obind (kmalloc sizeof_process (mem (w_k w))) (\<lambda>(child_proc, m).
     let w = set_mem m w;
         slot = free_slot (proctab w) 0
     in if NPROC \<le> slot then Panic ''Too Many Process''
        else
          let w = set_proc child_proc (\<lambda>x. x\<lparr>proc_id := int slot\<rparr>) (w\<lparr>proctab := (proctab w)[slot := child_proc]\<rparr>) in
          obind (memory_space_clone (env_kimg e) (mem (w_k w))) (\<lambda>(tag, m).
          let w = set_proc child_proc (\<lambda>x. x\<lparr>mtag := tag\<rparr>) (set_mem m w);
              w = fold (share_slot e parent_proc child_proc) [0..<PROCESS_IOMAX] w
          in obind (thread_fork_to_user (env_cond e) child_proc (frame_at tfr (mem (w_k w))) (w_k w)) (\<lambda>(r, k). Ret (r, w\<lparr>w_k := k\<rparr>)))))"

definition syswait :: "int \<Rightarrow> 'w world \<Rightarrow> (int progress \<times> 'w world) outcome" where
  "syswait tid w =
     obind (if tid = 0 then thread_join_any (w_k w) else thread_join tid (w_k w)) (\<lambda>(r, k). Ret (r, w\<lparr>w_k := k\<rparr>))"

definition sizeof_alarm :: u64 where "sizeof_alarm = 40"

definition sysusleep :: "'w env \<Rightarrow> u64 \<Rightarrow> 'w world \<Rightarrow> (int progress \<times> 'w world) outcome" where
  "sysusleep e us w =
     obind (kmalloc sizeof_alarm (mem (w_k w))) (\<lambda>(al, m).
     let w = set_mem m w in
     case alarm_init al (Some ''alarm_us'') (w_timer w, w_k w) of (ts, k) \<Rightarrow>
     obind (alarm_sleep_us (env_fuel e) al us (ts, k)) (\<lambda>(r, ts, k).
       Ret (case r of Done _ \<Rightarrow> Done 0 | Wait \<Rightarrow> Wait, w\<lparr>w_timer := ts, w_k := k\<rparr>)))"

section \<open>Dispatch\<close>

text \<open>
  How a system call ends: the result is in the trap frame; or the caller was suspended and stores its result when it goes
  on; or it left for a new user program; or the thread has ended. After \<open>sysfork\<close> it is the child that goes on: it stores
  the result in the parent's frame, to which \<open>tfr\<close> still points.
\<close>

datatype sysret = Returned | Blocked | ToUser user_entry | Ended

definition TFR_A1 :: nat where "TFR_A1 = 11"
definition TFR_A2 :: nat where "TFR_A2 = 12"
definition TFR_A7 :: nat where "TFR_A7 = 17"

definition set_a0 :: "u64 \<Rightarrow> int \<Rightarrow> 'w world \<Rightarrow> 'w world" where
  "set_a0 tfr r w = put_word (tfr + 8 * of_nat TFR_A0) (of_int r) w"

definition done_ret :: "u64 \<Rightarrow> (int \<times> 'w world) outcome \<Rightarrow> (sysret \<times> 'w world) outcome" where
  "done_ret tfr m = obind m (\<lambda>(r, w). Ret (Returned, set_a0 tfr r w))"

definition progress_ret :: "u64 \<Rightarrow> (int progress \<times> 'w world) outcome \<Rightarrow> (sysret \<times> 'w world) outcome" where
  "progress_ret tfr m =
     obind m (\<lambda>(r, w). case r of Done v \<Rightarrow> Ret (Returned, set_a0 tfr v w) | Wait \<Rightarrow> Ret (Blocked, w))"

definition syscall_handler :: "'w env \<Rightarrow> u64 \<Rightarrow> 'w world \<Rightarrow> (sysret \<times> 'w world) outcome" where
  "syscall_handler e tfr w =
     (let w = put_word (tfr + 264) (tfr_sepc (frame_at tfr (mem (w_k w))) + 4) w;
          x = (\<lambda>r. tfr_x (frame_at tfr (mem (w_k w))) ! r);
          a0 = x TFR_A0; a1 = x TFR_A1; a2 = x TFR_A2;
          scnum = int_of (x TFR_A7)
      in
      if scnum = 0 then obind (sysexit e w) (\<lambda>w. Ret (Ended, w))
      else if scnum = 1 then done_ret tfr (sysmsgout e a0 w)
      else if scnum = 10 then done_ret tfr (sysdevopen e (int_of a0) a1 (int_of a2) w)
      else if scnum = 11 then done_ret tfr (sysfsopen e (int_of a0) a1 w)
      else if scnum = 20 then done_ret tfr (sysclose e (int_of a0) w)
      else if scnum = 21 then done_ret tfr (sysread e (int_of a0) a1 a2 w)
      else if scnum = 22 then done_ret tfr (syswrite e (int_of a0) a1 a2 w)
      else if scnum = 23 then done_ret tfr (sysioctl e (int_of a0) (int_of a1) a2 w)
      else if scnum = 30 then
        obind (sysexec e (int_of a0) w) (\<lambda>(r, w). case r of
          Inl v \<Rightarrow> Ret (Returned, set_a0 tfr v w) | Inr u \<Rightarrow> Ret (ToUser u, w))
      else if scnum = 31 then done_ret tfr (sysfork e tfr w)
      else if scnum = 41 then progress_ret tfr (syswait (int_of a0) w)
      else if scnum = 40 then progress_ret tfr (sysusleep e a0 w)
      else Ret (Returned, set_a0 tfr (- 1) w))"

section \<open>Exceptions\<close>

text \<open>
  The handlers of \<^verbatim>\<open>kern/excp.c\<close>; \<open>stval\<close> is the faulting address. The last handler prints the name of the exception and
  panics without a message.
\<close>

definition excp_names :: "nat \<Rightarrow> string option" where
  "excp_names code =
     (if code = 0 then Some ''Misaligned instruction address''
      else if code = 1 then Some ''Instruction access fault''
      else if code = 2 then Some ''Illegal instruction''
      else if code = 3 then Some ''Breakpoint''
      else if code = 4 then Some ''Misaligned load address''
      else if code = 5 then Some ''Load access fault''
      else if code = 6 then Some ''Misaligned store address''
      else if code = 7 then Some ''Store access fault''
      else if code = 8 then Some ''Environment call from U mode''
      else if code = 9 then Some ''Environment call from S mode''
      else if code = 12 then Some ''Instruction page fault''
      else if code = 13 then Some ''Load page fault''
      else if code = 15 then Some ''Store page fault''
      else None)"

definition default_excp_handler :: "nat \<Rightarrow> u64 \<Rightarrow> 'a outcome" where
  "default_excp_handler code tfr = Panic (case excp_names code of Some n \<Rightarrow> n | None \<Rightarrow> ''Exception'')"

definition smode_excp_handler :: "nat \<Rightarrow> u64 \<Rightarrow> 'a outcome" where
  "smode_excp_handler code tfr = default_excp_handler code tfr"

definition umode_excp_handler ::
    "'w env \<Rightarrow> u64 \<Rightarrow> nat \<Rightarrow> u64 \<Rightarrow> 'w world \<Rightarrow> (sysret \<times> 'w world) outcome" where
  "umode_excp_handler e stval code tfr w =
     (if code = 8 then syscall_handler e tfr w
      else if code = 15 \<or> code = 13 \<or> code = 12 then
        obind (memory_handle_page_fault stval (mem (w_k w))) (\<lambda>m. Ret (Returned, set_mem m w))
      else default_excp_handler code tfr)"

section \<open>Process exit\<close>

lemma set_proc_fields [simp]:
  "w_io (set_proc p f w) = w_io w" "w_timer (set_proc p f w) = w_timer w" "proctab (set_proc p f w) = proctab w"
  "procs (w_k (set_proc p f w)) = (procs (w_k w))(p := f (procs (w_k w) p))" "mem (w_k (set_proc p f w)) = mem (w_k w)"
  "thr (w_k (set_proc p f w)) = thr (w_k w)" "tp (w_k (set_proc p f w)) = tp (w_k w)" "w_log (set_proc p f w) = w_log w"
  "thrtab (w_k (set_proc p f w)) = thrtab (w_k w)"
  by (simp_all add: set_proc_def)

lemma set_mem_fields [simp]:
  "w_io (set_mem m w) = w_io w" "w_timer (set_mem m w) = w_timer w" "proctab (set_mem m w) = proctab w"
  "procs (w_k (set_mem m w)) = procs (w_k w)" "mem (w_k (set_mem m w)) = m" "thr (w_k (set_mem m w)) = thr (w_k w)"
  "tp (w_k (set_mem m w)) = tp (w_k w)" "thrtab (w_k (set_mem m w)) = thrtab (w_k w)" "w_log (set_mem m w) = w_log w"
  by (simp_all add: set_mem_def)

definition sched_part :: "kstate \<Rightarrow> kstate \<Rightarrow> bool" where
  "sched_part k k' \<longleftrightarrow> thr k' = thr k \<and> cond k' = cond k \<and> thrtab k' = thrtab k \<and> ready_list k' = ready_list k \<and>
     main_thread k' = main_thread k \<and> idle_thread k' = idle_thread k \<and> tp k' = tp k"

lemma sched_part_ok: "sched_part k k' \<Longrightarrow> sched_ok k a \<Longrightarrow> sched_ok k' a"
  by (simp add: sched_part_def sched_ok_def core_def queues_def placed_def table_def live_def)

definition close_all :: "'w env \<Rightarrow> u64 list \<Rightarrow> 'w \<Rightarrow> 'w" where
  "close_all e ios s = fold (\<lambda>io. ioclose (ops_of e io)) (filter (\<lambda>io. io \<noteq> 0) ios) s"

lemma close_slots_Ret:
  assumes "length (iotab (procs (w_k w) p)) = PROCESS_IOMAX" and "n \<le> PROCESS_IOMAX"
  shows "\<exists>w'. ofold (close_slot e p) [0..<n] w = Ret w' \<and>
    iotab (procs (w_k w') p) = replicate n 0 @ drop n (iotab (procs (w_k w) p)) \<and>
    w_io w' = close_all e (take n (iotab (procs (w_k w) p))) (w_io w) \<and> proctab w' = proctab w \<and>
    proc_id (procs (w_k w') p) = proc_id (procs (w_k w) p) \<and> sched_part (w_k w) (w_k w') \<and> mem (w_k w') = mem (w_k w)"
  using assms(2)
proof (induction n)
  case 0
  then show ?case by (simp add: close_all_def sched_part_def)
next
  case (Suc n)
  let ?t = "iotab (procs (w_k w) p)"
  obtain w1 where 1: "ofold (close_slot e p) [0..<n] w = Ret w1"
    "iotab (procs (w_k w1) p) = replicate n 0 @ drop n ?t" "w_io w1 = close_all e (take n ?t) (w_io w)"
    "proctab w1 = proctab w" "proc_id (procs (w_k w1) p) = proc_id (procs (w_k w) p)" "sched_part (w_k w) (w_k w1)"
    "mem (w_k w1) = mem (w_k w)" using Suc by auto
  have n: "n < length ?t" using Suc.prems assms(1) by simp
  have io: "iotab (procs (w_k w1) p) ! n = ?t ! n" using 1(2) n by (simp add: nth_append)
  have d: "drop n ?t = ?t ! n # drop (Suc n) ?t" using n by (simp add: Cons_nth_drop_Suc)
  have tk: "take (Suc n) ?t = take n ?t @ [?t ! n]" using n by (rule take_Suc_conv_app_nth)
  have u: "(replicate n 0 @ drop n ?t)[n := 0] = replicate (Suc n) 0 @ drop (Suc n) ?t"
    by (simp add: d list_update_append replicate_append_same [symmetric])
  have o: "ofold (close_slot e p) [0..<Suc n] w = close_slot e p n w1" using 1(1) by (simp add: ofold_append)
  show ?case
  proof (cases "?t ! n = 0")
    case True
    then have "close_slot e p n w1 = Ret w1" using io Suc.prems by (simp add: close_slot_def)
    moreover have "replicate n 0 @ drop n ?t = replicate (Suc n) 0 @ drop (Suc n) ?t"
      using d True by (simp add: replicate_append_same [symmetric])
    ultimately show ?thesis using 1 o tk True by (auto simp: close_all_def)
  next
    case False
    then have "close_slot e p n w1 = Ret (set_proc p (\<lambda>x. x\<lparr>iotab := (iotab x)[n := 0]\<rparr>)
        (w1\<lparr>w_io := ioclose (ops_of e (?t ! n)) (w_io w1)\<rparr>))"
      using io Suc.prems by (simp add: close_slot_def)
    then show ?thesis unfolding o using 1 tk False u
      by (simp add: close_all_def sched_part_def) (simp add: set_proc_def)
  qed
qed

lemma exit_pool: "keeps k k' \<Longrightarrow> pool (mem k) ps \<Longrightarrow> pool (mem k') ps"
  by (simp add: keeps_def pool_def)

text \<open>
  C34: the end of a process. For a process with a slot in the process table, run by a thread other than the
  main and idle threads, \<open>process_exit\<close> ends: the pages and page tables of its memory space are free again; every open I/O
  object is closed exactly once, in the order of the descriptors; all descriptors and the slot in the process table are
  cleared; and the thread is left as exited with its parent's waiters woken.
\<close>
theorem process_exit_releases:
  assumes "current_process w = Ret p" and "p \<noteq> 0"
    and "length (iotab (procs (w_k w) p)) = PROCESS_IOMAX" and "0 \<le> proc_id (procs (w_k w) p)"
    and "proc_id (procs (w_k w) p) < int NPROC" and "sched_ok (w_k w) a"
    and "tp (w_k w) \<notin> {main_thread (w_k w), idle_thread (w_k w)}"
    and "satp (mem (w_k w)) = sv39_mtag root" and "pt_inv (pmem (mem (w_k w))) root (set ps)"
    and "pool (mem (w_k w)) ps" and "ps \<noteq> []"
    and "\<forall>x pg f. uspace (pmem (mem (w_k w))) root x = Some (pg, f) \<longrightarrow> f AND PTE_G = 0"
    and "kernel_part is_reclaimed (\<lambda>e. pte_flags e AND PTE_G = 0) (pmem (mem (w_k w))) root"
  shows "\<exists>w' qs. process_exit e w = Ret w' \<and> iotab (procs (w_k w') p) = replicate PROCESS_IOMAX 0 \<and>
    w_io w' = close_all e (iotab (procs (w_k w) p)) (w_io w) \<and>
    proctab w' = (proctab w)[nat (proc_id (procs (w_k w) p)) := 0] \<and>
    state (thr (w_k w') (tp (w_k w))) = THREAD_EXITED \<and>
    sched_ok (w_k w') (a_exit (child_exit (parent (thr (w_k w) (tp (w_k w))))) a) \<and>
    pool (mem (w_k w')) (qs @ ps) \<and> distinct qs \<and>
    set qs = {pg. \<exists>x f. uspace (pmem (mem (w_k w))) root x = Some (pg, f)} \<union> (tabs (pmem (mem (w_k w))) root - {root})"
proof -
  obtain m qs where m: "memory_space_reclaim (mem (w_k w)) = Ret m" "pool m (qs @ ps)" "distinct qs"
    "set qs = {pg. \<exists>x f. uspace (pmem (mem (w_k w))) root x = Some (pg, f)} \<union> (tabs (pmem (mem (w_k w))) root - {root})"
    using memory_space_reclaim_frees [OF assms(8-13)] by blast
  have "length (iotab (procs (w_k (set_mem m w)) p)) = PROCESS_IOMAX" using assms(3) by simp
  from close_slots_Ret [OF this order_refl, of e]
  obtain w1 where 1: "ofold (close_slot e p) [0..<PROCESS_IOMAX] (set_mem m w) = Ret w1"
    "iotab (procs (w_k w1) p) = replicate PROCESS_IOMAX 0" "w_io w1 = close_all e (iotab (procs (w_k w) p)) (w_io w)"
    "proctab w1 = proctab w" "proc_id (procs (w_k w1) p) = proc_id (procs (w_k w) p)"
    "sched_part (w_k (set_mem m w)) (w_k w1)" "mem (w_k w1) = m" using assms(3) by auto
  have sp: "sched_part (w_k w) (w_k w1)" using 1(6) by (simp add: sched_part_def set_mem_def)
  then have ok: "sched_ok (w_k w1) a" using assms(6) by (rule sched_part_ok)
  have t: "tp (w_k w1) = tp (w_k w)" "thr (w_k w1) = thr (w_k w)" using sp by (simp_all add: sched_part_def)
  have "tp (w_k w1) \<noteq> main_thread (w_k w1)" "tp (w_k w1) \<noteq> idle_thread (w_k w1)"
    using assms(7) sp by (auto simp: sched_part_def)
  from thread_exit_step [OF ok this]
  obtain k where 2: "thread_exit (w_k w1) = Ret k" "sched_ok k (a_exit (child_exit (parent (thr (w_k w) (tp (w_k w))))) a)"
    "keeps (w_k w1) k" "state (thr k (tp (w_k w))) = THREAD_EXITED" using t by auto
  have "process_exit e w = Ret (w1\<lparr>proctab := (proctab w1)[nat (proc_id (procs (w_k w) p)) := 0], w_k := k\<rparr>)"
    using assms(1,2,4,5) m(1) 1(1,4,5) 2(1) by (simp add: process_exit_def NPROC_def PROCESS_IOMAX_def)
  moreover have "iotab (procs k p) = replicate PROCESS_IOMAX 0" using 1(2) 2(3) by (simp add: keeps_def)
  moreover have "pool (mem k) (qs @ ps)" using exit_pool [OF 2(3)] m(2) 1(7) by simp
  ultimately show ?thesis using 1(3,4) 2(2,4) m(3,4)
    by (intro exI [of _ "w1\<lparr>proctab := (proctab w1)[nat (proc_id (procs (w_k w) p)) := 0], w_k := k\<rparr>"] exI [of _ qs]) simp
qed

section \<open>A process for the witnesses\<close>

text \<open>
  The thread of \<open>demo_child\<close> as a process with one open object, in the memory of \<open>demo_space\<close>. The state of the
  I/O objects is the list of those that were closed.
\<close>

definition demo_world :: "kstate \<Rightarrow> u64 list world" where
  "demo_world k = \<lparr>w_k = k\<lparr>mem := demo_space, thr := (thr k)(tp k := (thr k (tp k))\<lparr>proc := 0x80015000\<rparr>),
       procs := (\<lambda>_. \<lparr>proc_id = 1, proc_tid = 1, mtag = 0, iotab = 0x80016000 # replicate 15 0\<rparr>)\<rparr>,
     w_io = [], w_timer = demo_timer, proctab = 0x80017000 # 0x80015000 # replicate 14 0, procmgr_initialized = True, w_log = []\<rparr>"

definition demo_env :: "u64 list env" where
  "demo_env = \<lparr>ops_of = (\<lambda>io. \<lparr>op_close = Some (\<lambda>s. s @ [io]), op_read = None, op_write = None, op_ctl = None\<rparr>),
     ioref_of = (\<lambda>_ s. s), env_fs_open = (\<lambda>_ s. Ret (0, Some 0x80018000, s)),
     env_device_open = (\<lambda>_ _ s. Ret (- ENODEV, None, s)), ustr = (\<lambda>_ _. [0]), uload = (\<lambda>_ n _. replicate n 0),
     ustore = (\<lambda>_ _ m. Ret m),
     env_kimg = \<lparr>kimg_start = 0, kimg_text_start = 0, kimg_text_end = 0, kimg_rodata_start = 0, kimg_rodata_end = 0, kimg_data_start = 0, kimg_end = 0, main_pt2 = 0, main_pt1 = 0, main_pt0 = 0\<rparr>,
     env_fuel = 16, env_junk = [], env_cond = zero_cond\<rparr>"

lemma demo_world_ok:
  "\<exists>k a. demo_child = Ret k \<and> current_process (demo_world k) = Ret 0x80015000 \<and> sched_ok (w_k (demo_world k)) a \<and>
     tp (w_k (demo_world k)) \<notin> {main_thread (w_k (demo_world k)), idle_thread (w_k (demo_world k))}"
proof -
  obtain k child where k: "demo_child = Ret k" "child \<notin> {0x80010000, 0x80011000}" "thrtab k ! 1 = child"
    "main_thread k = 0x80010000" "idle_thread k = 0x80011000"
    and ok: "sched_ok k \<lparr>run = child, ready = [0x80010000, 0x80011000], waiting = (\<lambda>_. [])\<rparr>"
    using demo_child_ok by blast
  let ?a = "\<lparr>run = child, ready = [0x80010000, 0x80011000], waiting = (\<lambda>_. [])\<rparr> :: sched"
  have tp: "tp k = child" "child \<noteq> 0" using ok by (auto simp: sched_ok_def core_def placed_def live_def)
  have id: "thr_id (thr k child) = 1"
    using ok k(3) tp by (auto simp: sched_ok_def core_def table_def NTHR_def)
  have "sched_ok (w_k (demo_world k)) ?a"
  proof -
    let ?k = "w_k (demo_world k)"
    have f: "list_next (thr ?k t) = list_next (thr k t)" "state (thr ?k t) = state (thr k t)" "thr_id (thr ?k t) = thr_id (thr k t)"
      "parent (thr ?k t) = parent (thr k t)" "wait_cond (thr ?k t) = wait_cond (thr k t)" for t
      by (simp_all add: demo_world_def)
    have g: "thrtab ?k = thrtab k" "tp ?k = tp k" "cond ?k = cond k" "ready_list ?k = ready_list k"
      "main_thread ?k = main_thread k" "idle_thread ?k = idle_thread k" by (simp_all add: demo_world_def)
    have l: "links (thr ?k) = links (thr k)" by (rule ext) (simp add: links_def demo_world_def)
    show ?thesis using ok unfolding sched_ok_def core_def queues_def placed_def table_def live_def tlist_def l f g .
  qed
  moreover have "current_process (demo_world k) = Ret 0x80015000"
    using tp id k(3) by (simp add: current_process_def thread_process_def running_thread_def demo_world_def thrtab_get_def NTHR_def)
  moreover have "tp (w_k (demo_world k)) \<notin> {main_thread (w_k (demo_world k)), idle_thread (w_k (demo_world k))}"
    using k tp by (simp add: demo_world_def)
  ultimately show ?thesis using k(1) by blast
qed

theorem process_exit_releases_witness:
  "\<exists>k w'. demo_child = Ret k \<and> process_exit demo_env (demo_world k) = Ret w' \<and> w_io w' = [0x80016000] \<and>
     proctab w' = 0x80017000 # 0 # replicate 14 0"
proof -
  obtain k a where k: "demo_child = Ret k" "current_process (demo_world k) = Ret 0x80015000" "sched_ok (w_k (demo_world k)) a"
    "tp (w_k (demo_world k)) \<notin> {main_thread (w_k (demo_world k)), idle_thread (w_k (demo_world k))}"
    using demo_world_ok by blast
  have m: "mem (w_k (demo_world k)) = demo_space" by (simp add: demo_world_def)
  have p: "iotab (procs (w_k (demo_world k)) 0x80015000) = 0x80016000 # replicate 15 0"
    "proc_id (procs (w_k (demo_world k)) 0x80015000) = 1" "proctab (demo_world k) = 0x80017000 # 0x80015000 # replicate 14 0"
    "w_io (demo_world k) = []" by (simp_all add: demo_world_def)
  have c: "close_all demo_env (0x80016000 # replicate 15 0) [] = [0x80016000]"
    by (simp add: close_all_def demo_env_def ioclose_def)
  from process_exit_releases [OF k(2) _ _ _ _ k(3,4), of "0x80200000" "[0x80304000]" demo_env]
  show ?thesis using k(1) demo_space_facts demo_pool c unfolding m p by (auto simp: PROCESS_IOMAX_def NPROC_def)
qed

section \<open>Descriptors\<close>

lemma fd_search_first:
  assumes "\<forall>j < i. iotab (procs (w_k w) p) ! j = 0" and "iotab (procs (w_k w) p) ! i \<noteq> 0" and "i < PROCESS_IOMAX"
    and "k \<le> i" and "i - k < n"
  shows "fd_search n (int k) p w = Ret (int i)"
  using assms(4,5)
proof (induction n arbitrary: k)
  case (Suc n)
  show ?case
  proof (cases "k = i")
    case True
    then show ?thesis using assms(2,3) by (simp add: iotab_get_def)
  next
    case False
    then have k: "k < i" using Suc.prems by simp
    then have "iotab_get p (int k) w = Ret 0" using assms(1,3) by (simp add: iotab_get_def)
    moreover have "fd_search n (int k + 1) p w = Ret (int i)"
      using Suc.IH [of "Suc k"] Suc.prems k by (simp add: add.commute)
    ultimately show ?thesis by simp
  qed
qed simp

lemma fd_search_none:
  assumes "\<forall>j < PROCESS_IOMAX. iotab (procs (w_k w) p) ! j = 0" and "PROCESS_IOMAX - k < n"
  shows "fd_search n (int k) p w = Fault"
  using assms(2)
proof (induction n arbitrary: k)
  case (Suc n)
  show ?case
  proof (cases "k < PROCESS_IOMAX")
    case True
    then have "iotab_get p (int k) w = Ret 0" using assms(1) by (simp add: iotab_get_def)
    moreover have "fd_search n (int k + 1) p w = Fault"
      using Suc.IH [of "Suc k"] Suc.prems True by (simp add: add.commute)
    ultimately show ?thesis by simp
  next
    case False
    then show ?thesis by (simp add: iotab_get_def)
  qed
qed simp

text \<open>
  C37: asking for the next free descriptor takes a used one. With a negative descriptor \<open>sysfsopen\<close> picks the first
  slot that is in use: the new file replaces the object there, which is not closed; in a process with no open object the
  search runs past the end of the table.
\<close>
theorem open_takes_used_descriptor:
  assumes "current_process w = Ret p" and "p \<noteq> 0" and "fd < 0" and "length (iotab (procs (w_k w) p)) = PROCESS_IOMAX"
    and "env_fs_open e (ustr e name (mem (w_k w))) (w_io w) = Ret (0, Some io, s)"
  shows "(\<forall>i < PROCESS_IOMAX. iotab (procs (w_k w) p) ! i \<noteq> 0 \<and> (\<forall>j < i. iotab (procs (w_k w) p) ! j = 0) \<longrightarrow>
      (\<exists>w'. sysfsopen e fd name w = Ret (int i, w') \<and> w_io w' = s \<and>
        iotab (procs (w_k w') p) = (iotab (procs (w_k w) p))[i := io])) \<and>
    ((\<forall>i < PROCESS_IOMAX. iotab (procs (w_k w) p) ! i = 0) \<longrightarrow> sysfsopen e fd name w = Fault)"
proof (intro conjI allI impI)
  fix i
  assume i: "i < PROCESS_IOMAX" and u: "iotab (procs (w_k w) p) ! i \<noteq> 0 \<and> (\<forall>j < i. iotab (procs (w_k w) p) ! j = 0)"
  have "fd_search MAX_OPEN_FILE_CT (int 0) p w = Ret (int i)"
    by (rule fd_search_first) (use i u in \<open>auto simp: MAX_OPEN_FILE_CT_def PROCESS_IOMAX_def\<close>)
  then have "open_fd fd w = Ret (Inr (p, int i))"
    using assms(1-3) i by (simp add: open_fd_def MAX_OPEN_FILE_CT_def PROCESS_IOMAX_def)
  then show "\<exists>w'. sysfsopen e fd name w = Ret (int i, w') \<and> w_io w' = s \<and>
      iotab (procs (w_k w') p) = (iotab (procs (w_k w) p))[i := io]"
    using assms(5) i by (simp add: sysfsopen_def iotab_get_def store_opened_def iotab_set_def del: obind_eq_Ret)
next
  assume "\<forall>i < PROCESS_IOMAX. iotab (procs (w_k w) p) ! i = 0"
  then have "fd_search MAX_OPEN_FILE_CT (int 0) p w = Fault"
    by (rule fd_search_none) (simp add: MAX_OPEN_FILE_CT_def PROCESS_IOMAX_def)
  then show "sysfsopen e fd name w = Fault" using assms(1-3) by (simp add: sysfsopen_def open_fd_def MAX_OPEN_FILE_CT_def)
qed

theorem open_takes_used_descriptor_witness:
  "\<exists>k w'. demo_child = Ret k \<and> sysfsopen demo_env (- 1) 0xC0000000 (demo_world k) = Ret (0, w') \<and>
     iotab (procs (w_k w') 0x80015000) = 0x80018000 # replicate 15 0"
proof -
  obtain k where k: "demo_child = Ret k" "current_process (demo_world k) = Ret 0x80015000" using demo_world_ok by blast
  have p: "iotab (procs (w_k (demo_world k)) 0x80015000) = 0x80016000 # replicate 15 0" by (simp add: demo_world_def)
  have o: "env_fs_open demo_env (ustr demo_env 0xC0000000 (mem (w_k (demo_world k)))) (w_io (demo_world k)) =
      Ret (0, Some 0x80018000, w_io (demo_world k))" by (simp add: demo_env_def)
  from open_takes_used_descriptor [OF k(2) _ _ _ o, of "- 1"] k(1)
  show ?thesis unfolding p by (fastforce simp: PROCESS_IOMAX_def)
qed

text \<open>
  C36: a closed descriptor is closed. After a successful \<open>sysclose\<close> the slot is empty, and reading (into a valid buffer),
  writing, closing or executing it again gives \<open>-EIO\<close> and changes nothing.
\<close>
theorem closed_descriptor_unusable:
  assumes "current_process w = Ret p" and "length (iotab (procs (w_k w) p)) = PROCESS_IOMAX"
    and "sysclose e fd w = Ret (0, w')"
  shows "iotab (procs (w_k w') p) = (iotab (procs (w_k w) p))[nat fd := 0] \<and>
    sysclose e fd w' = Ret (- EIO, w') \<and> syswrite e fd buf len w' = Ret (- EIO, w') \<and>
    sysexec e fd w' = Ret (Inl (- EIO), w') \<and>
    (memory_validate_vptr_len buf len (PTE_U OR PTE_W) (mem (w_k w')) = Ret 0 \<longrightarrow> sysread e fd buf len w' = Ret (- EIO, w'))"
proof -
  obtain io cl where 1: "p \<noteq> 0" "0 \<le> fd" "fd < int PROCESS_IOMAX" "fd < int MAX_OPEN_FILE_CT"
    "w' = set_proc p (\<lambda>x. x\<lparr>iotab := (iotab x)[nat fd := 0]\<rparr>) (w\<lparr>w_io := cl (w_io w)\<rparr>)"
    using assms(1,3) by (auto simp: sysclose_def used_fd_def iotab_get_def iotab_set_def errno_values
        split: if_splits sum.splits option.splits)
  have c: "current_process w' = Ret p"
    using assms(1) 1(5)
    by (auto simp: current_process_def thread_process_def thrtab_get_def running_thread_def set_proc_def split: if_splits)
  have t: "iotab (procs (w_k w') p) = (iotab (procs (w_k w) p))[nat fd := 0]" by (simp add: 1(5))
  have "nat fd < length (iotab (procs (w_k w) p))" using 1(2,3) assms(2) by simp
  then have "used_fd fd w' = Ret (Inl (- EIO))"
    using 1(1-4) c by (simp add: used_fd_def iotab_get_def t)
  with t show ?thesis by (simp add: sysclose_def syswrite_def sysexec_def sysread_def)
qed

theorem closed_descriptor_unusable_witness:
  "\<exists>k w'. demo_child = Ret k \<and> sysclose demo_env 0 (demo_world k) = Ret (0, w') \<and> sysclose demo_env 0 w' = Ret (- EIO, w')"
proof -
  obtain k where k: "demo_child = Ret k" "current_process (demo_world k) = Ret 0x80015000" using demo_world_ok by blast
  have p: "iotab (procs (w_k (demo_world k)) 0x80015000) = 0x80016000 # replicate 15 0" by (simp add: demo_world_def)
  obtain w' where "sysclose demo_env 0 (demo_world k) = Ret (0, w')"
    using k(2) by (simp add: sysclose_def used_fd_def iotab_get_def p PROCESS_IOMAX_def MAX_OPEN_FILE_CT_def demo_env_def iotab_set_def)
  with closed_descriptor_unusable [OF k(2) _ this] k(1) show ?thesis by (auto simp: p PROCESS_IOMAX_def)
qed

section \<open>The pointer of an ioctl\<close>


lemma current_process_set_mem [simp]: "current_process (set_mem m w) = current_process w"
  by (simp add: current_process_def thread_process_def running_thread_def thrtab_get_def set_mem_def)





end
