(* ===== verification/Uart.thy ===== *)
theory Uart
  imports Prelude
begin

text \<open>
  \<^verbatim>\<open>kern/uart.c\<close>: the NS16550a serial driver. The ring buffers between the interrupt service
  routine and the system calls are kept at their 16-bit positions; the interface they implement is
  the locale \<open>bounded_queue\<close>. The volatile registers are the boundary of the model: \<open>lsr\<close> and \<open>rbr\<close>
  are arguments (what the device presents when it is read), and what the driver does to the outside
  is a list of \<open>uart_out\<close> actions.
\<close>

section \<open>The interface of a bounded queue\<close>

locale bounded_queue =
  fixes init :: "'q \<Rightarrow> 'q"
    and is_empty :: "'q \<Rightarrow> bool"
    and is_full :: "'q \<Rightarrow> bool"
    and put :: "'q \<Rightarrow> 'a \<Rightarrow> 'q"
    and get :: "'q \<Rightarrow> 'a \<times> 'q"
    and capacity :: nat
    and contents :: "'q \<Rightarrow> 'a list"
    and invar :: "'q \<Rightarrow> bool"
  assumes invar_init: "invar q \<Longrightarrow> invar (init q)"
    and contents_init: "invar q \<Longrightarrow> contents (init q) = []"
    and is_empty_iff: "invar q \<Longrightarrow> is_empty q \<longleftrightarrow> contents q = []"
    and is_full_iff: "invar q \<Longrightarrow> is_full q \<longleftrightarrow> length (contents q) = capacity"
    and length_contents: "invar q \<Longrightarrow> length (contents q) \<le> capacity"
    and invar_put: "invar q \<Longrightarrow> \<not> is_full q \<Longrightarrow> invar (put q x)"
    and contents_put: "invar q \<Longrightarrow> \<not> is_full q \<Longrightarrow> contents (put q x) = contents q @ [x]"
    and invar_get: "invar q \<Longrightarrow> \<not> is_empty q \<Longrightarrow> invar (snd (get q))"
    and contents_get: "invar q \<Longrightarrow> \<not> is_empty q \<Longrightarrow> contents q = fst (get q) # contents (snd (get q))"
begin

lemma put_many:
  assumes "invar q" and "length (contents q) + length xs \<le> capacity"
  shows "invar (foldl put q xs) \<and> contents (foldl put q xs) = contents q @ xs"
  using assms
proof (induction xs arbitrary: q)
  case (Cons x xs)
  then have "\<not> is_full q" by (simp add: is_full_iff)
  with Cons.prems have "invar (put q x)" and "contents (put q x) = contents q @ [x]"
    by (simp_all add: invar_put contents_put)
  with Cons.IH [of "put q x"] Cons.prems show ?case by simp
qed simp

lemma get_after_put:
  assumes "invar q" and "contents q = x # xs" and "\<not> is_full q"
  shows "get (put q y) = (x, snd (get (put q y))) \<and> contents (snd (get (put q y))) = xs @ [y]"
proof -
  have inv: "invar (put q y)" and c: "contents (put q y) = x # xs @ [y]"
    using assms by (simp_all add: invar_put contents_put)
  then have "\<not> is_empty (put q y)" by (simp add: is_empty_iff)
  from contents_get [OF inv this] c show ?thesis by (metis list.inject prod.collapse)
qed

end

section \<open>Ring buffers\<close>

definition SERIAL_RBUFSZ :: nat where "SERIAL_RBUFSZ = 64"

record ringbuf =
  hpos :: u16
  tpos :: u16
  rdata :: "u8 list"

definition rbuf_init :: "ringbuf \<Rightarrow> ringbuf" where
  "rbuf_init rbuf = rbuf\<lparr>hpos := 0, tpos := 0\<rparr>"

definition rbuf_empty :: "ringbuf \<Rightarrow> bool" where
  "rbuf_empty rbuf = (hpos rbuf = tpos rbuf)"

definition rbuf_full :: "ringbuf \<Rightarrow> bool" where
  "rbuf_full rbuf = (unat (tpos rbuf - hpos rbuf) = SERIAL_RBUFSZ)"

definition rbuf_put :: "ringbuf \<Rightarrow> u8 \<Rightarrow> ringbuf" where
  "rbuf_put rbuf c =
     (let t = tpos rbuf in
      rbuf\<lparr>rdata := (rdata rbuf)[unat t mod SERIAL_RBUFSZ := c], tpos := t + 1\<rparr>)"

definition rbuf_get :: "ringbuf \<Rightarrow> u8 \<times> ringbuf" where
  "rbuf_get rbuf =
     (let h = hpos rbuf in
      (rdata rbuf ! (unat h mod SERIAL_RBUFSZ), rbuf\<lparr>hpos := h + 1\<rparr>))"

text \<open>Abstraction and invariant: the queued bytes, oldest first.\<close>

definition rbuf_slot :: "ringbuf \<Rightarrow> nat \<Rightarrow> u8" where
  "rbuf_slot rbuf i = rdata rbuf ! (unat (hpos rbuf + of_nat i) mod SERIAL_RBUFSZ)"

definition rbuf_contents :: "ringbuf \<Rightarrow> u8 list" where
  "rbuf_contents rbuf = map (rbuf_slot rbuf) [0..<unat (tpos rbuf - hpos rbuf)]"

definition rbuf_inv :: "ringbuf \<Rightarrow> bool" where
  "rbuf_inv rbuf \<longleftrightarrow>
     length (rdata rbuf) = SERIAL_RBUFSZ \<and> unat (tpos rbuf - hpos rbuf) \<le> SERIAL_RBUFSZ"

lemma unat_u16_add_mod64: "unat (w + of_nat i :: u16) mod 64 = (unat w + i) mod 64"
proof -
  have "unat (w + of_nat i :: u16) = (unat w + i) mod 65536"
    by (simp add: unat_word_ariths unat_of_nat take_bit_eq_mod mod_simps)
  then show ?thesis by (simp add: mod_mod_cancel)
qed

lemma rbuf_slot_alt: "rbuf_slot q i = rdata q ! ((unat (hpos q) + i) mod 64)"
  by (simp add: rbuf_slot_def SERIAL_RBUFSZ_def unat_u16_add_mod64)

lemma tpos_mod64:
  "unat (tpos q) mod 64 = (unat (hpos q) + unat (tpos q - hpos q)) mod 64"
  using unat_u16_add_mod64 [of "hpos q" "unat (tpos q - hpos q)"] by simp

lemma length_rbuf_contents: "length (rbuf_contents q) = unat (tpos q - hpos q)"
  by (simp add: rbuf_contents_def)

lemma unat_Suc_u16: "unat w < 64 \<Longrightarrow> unat (1 + w :: u16) = Suc (unat w)"
  by (simp add: unat_add_small)

lemma rbuf_put_count:
  "unat (tpos q - hpos q) < 64 \<Longrightarrow>
     unat (tpos (rbuf_put q c) - hpos (rbuf_put q c)) = Suc (unat (tpos q - hpos q))"
  using unat_Suc_u16 [of "tpos q - hpos q"] by (simp add: rbuf_put_def Let_def algebra_simps)

lemma rbuf_get_count:
  assumes "tpos q \<noteq> hpos q"
  shows "unat (tpos q - hpos q) = Suc (unat (tpos (snd (rbuf_get q)) - hpos (snd (rbuf_get q))))"
proof -
  let ?w = "tpos q - hpos q"
  have w: "?w \<noteq> 0" using assms by simp
  have "tpos (snd (rbuf_get q)) - hpos (snd (rbuf_get q)) = ?w - 1"
    by (simp add: rbuf_get_def Let_def)
  moreover have "unat (?w - 1) = unat ?w - 1" using w by (rule unat_minus_one)
  moreover have "0 < unat ?w" using w by (simp add: unat_gt_0)
  ultimately show ?thesis by simp
qed

lemma add_mod64_inj:
  assumes "i \<le> n" and "n < 64"
  shows "(a + n) mod 64 = (a + i) mod (64::nat) \<longleftrightarrow> i = n"
proof -
  have "(a + n) mod 64 = (a + i) mod 64 \<longleftrightarrow> 64 dvd (n - i)"
    using mod_eq_dvd_iff_nat [of "a + i" "a + n" 64] assms(1) by simp
  also have "\<dots> \<longleftrightarrow> n - i = 0"
    using assms by (auto dest: dvd_imp_le)
  finally show ?thesis using assms(1) by auto
qed

lemma rbuf_contents_put:
  assumes "rbuf_inv q" and "\<not> rbuf_full q"
  shows "rbuf_contents (rbuf_put q c) = rbuf_contents q @ [c]"
proof -
  let ?n = "unat (tpos q - hpos q)"
  have n: "?n < 64" using assms by (simp add: rbuf_inv_def rbuf_full_def SERIAL_RBUFSZ_def)
  have len: "length (rdata q) = 64" using assms by (simp add: rbuf_inv_def SERIAL_RBUFSZ_def)
  have "rbuf_slot (rbuf_put q c) i = (if i = ?n then c else rbuf_slot q i)" if "i \<le> ?n" for i
  proof -
    have "(unat (hpos q) + ?n) mod 64 = (unat (hpos q) + i) mod 64 \<longleftrightarrow> i = ?n"
      using that n by (rule add_mod64_inj)
    then show ?thesis
      by (simp add: rbuf_slot_alt rbuf_put_def Let_def SERIAL_RBUFSZ_def tpos_mod64 nth_list_update len)
  qed
  then show ?thesis
    using rbuf_put_count [OF n, of c] by (simp add: rbuf_contents_def)
qed

lemma rbuf_contents_get:
  assumes "\<not> rbuf_empty q"
  shows "rbuf_contents q = fst (rbuf_get q) # rbuf_contents (snd (rbuf_get q))"
proof -
  have ne: "tpos q \<noteq> hpos q" using assms by (auto simp: rbuf_empty_def)
  have slot: "rbuf_slot (snd (rbuf_get q)) i = rbuf_slot q (Suc i)" for i
    by (simp add: rbuf_slot_def rbuf_get_def Let_def algebra_simps)
  have "fst (rbuf_get q) = rbuf_slot q 0"
    by (simp add: rbuf_get_def Let_def rbuf_slot_def)
  moreover have "[0..<Suc m] = 0 # map Suc [0..<m]" for m
    by (simp add: upt_conv_Cons map_Suc_upt del: upt_Suc)
  ultimately show ?thesis
    unfolding rbuf_contents_def rbuf_get_count [OF ne] by (simp add: slot del: upt_Suc)
qed

interpretation rq: bounded_queue rbuf_init rbuf_empty rbuf_full rbuf_put rbuf_get
    SERIAL_RBUFSZ rbuf_contents rbuf_inv
proof (unfold_locales, goal_cases)
  case (1 q) then show ?case by (simp add: rbuf_inv_def rbuf_init_def)
next
  case (2 q) then show ?case by (simp add: rbuf_contents_def rbuf_init_def)
next
  case (3 q) then show ?case by (auto simp: rbuf_contents_def rbuf_empty_def unat_eq_zero)
next
  case (4 q) then show ?case by (simp add: length_rbuf_contents rbuf_full_def)
next
  case (5 q) then show ?case by (simp add: length_rbuf_contents rbuf_inv_def)
next
  case (6 q x)
  then have "unat (tpos q - hpos q) < 64" by (simp add: rbuf_inv_def rbuf_full_def SERIAL_RBUFSZ_def)
  with 6 rbuf_put_count [OF this] show ?case
    by (simp add: rbuf_inv_def SERIAL_RBUFSZ_def) (simp add: rbuf_put_def Let_def)
next
  case (7 q x) then show ?case by (rule rbuf_contents_put)
next
  case (8 q)
  then show ?case using rbuf_get_count [of q]
    by (auto simp: rbuf_inv_def rbuf_empty_def) (simp add: rbuf_get_def Let_def)
next
  case (9 q) then show ?case using rbuf_contents_get by blast
qed

section \<open>The driver\<close>

definition LSR_DR :: u8 where "LSR_DR = 1"
definition LSR_OE :: u8 where "LSR_OE = 2"
definition LSR_THRE :: u8 where "LSR_THRE = 32"
definition IER_DREIE :: u8 where "IER_DREIE = 1"
definition IER_THREIE :: u8 where "IER_THREIE = 2"
definition LCR_DLAB :: u8 where "LCR_DLAB = 128"
definition LONG_MAX :: nat where "LONG_MAX = 2 ^ 63 - 1"
definition UART0_IOBASE :: u64 where "UART0_IOBASE = 0x10000000"
definition UART_IRQ_PRIO :: int where "UART_IRQ_PRIO = 3"

text \<open>
  The device structure, with the registers the driver writes and never reads back from the device
  (\<open>ier\<close>, \<open>lcr\<close> and the divisor latch) as its last fields. The two condition variables are named
  by the actions that signal them.
\<close>

record uart_device =
  u_base :: u64
  u_irqno :: int
  rxovrcnt :: u32
  u_refcnt :: u32
  rxbuf :: ringbuf
  txbuf :: ringbuf
  ier :: u8
  lcr :: u8
  dll :: u8
  dlm :: u8

datatype uart_out =
    BroadcastRx               \<comment> \<open>\<open>condition_broadcast(&dev->rxbnotempty)\<close>\<close>
  | BroadcastTx               \<comment> \<open>\<open>condition_broadcast(&dev->txbnotfull)\<close>\<close>
  | Thr u8                    \<comment> \<open>a byte stored in the transmit holding register\<close>
  | Rbr u8                    \<comment> \<open>a byte read from the receive buffer register\<close>
  | EnableIrq int | DisableIrq int
  | RegisterIsr int int       \<comment> \<open>\<open>intr_register_isr(irqno, prio, uart_isr, dev)\<close>\<close>
  | RegisterDev bool          \<comment> \<open>\<open>device_register("ser", \<dots>)\<close>: with \<open>uart_open\<close>, or with \<open>uart_open_ebusy\<close>\<close>

definition zero_ringbuf :: ringbuf where
  "zero_ringbuf = \<lparr>hpos = 0, tpos = 0, rdata = replicate 64 0\<rparr>"

definition uart_attach :: "u64 \<Rightarrow> int \<Rightarrow> uart_device option \<times> uart_out list" where
  "uart_attach mmio_base irqno =
     (if mmio_base = UART0_IOBASE then (None, [RegisterDev False])
      else
        let dev = \<lparr>u_base = mmio_base, u_irqno = irqno, rxovrcnt = 0, u_refcnt = 0,
                   rxbuf = rbuf_init zero_ringbuf, txbuf = rbuf_init zero_ringbuf,
                   ier = 0, lcr = LCR_DLAB, dll = 0, dlm = 0\<rparr>;
            dev = dev\<lparr>dll := 1, dlm := 0\<rparr>;
            dev = dev\<lparr>lcr := 0\<rparr>
        in (Some dev, [RegisterIsr irqno UART_IRQ_PRIO, RegisterDev True]))"

definition uart_open :: "u8 \<Rightarrow> uart_device \<Rightarrow> int \<times> uart_device \<times> uart_out list" where
  "uart_open rbr dev =
     (if u_refcnt dev \<noteq> 0 then (- EBUSY, dev, [])
      else (0, dev\<lparr>rxbuf := rbuf_init (rxbuf dev), txbuf := rbuf_init (txbuf dev),
                   ier := IER_DREIE, u_refcnt := 1\<rparr>, [Rbr rbr, EnableIrq (u_irqno dev)]))"

definition uart_open_ebusy :: int where
  "uart_open_ebusy = - EBUSY"

definition uart_close :: "uart_device \<Rightarrow> uart_device \<times> uart_out list" where
  "uart_close dev = (dev\<lparr>ier := 0\<rparr>, [DisableIrq (u_irqno dev)])"

text \<open>The interrupt service routine: the receive half, then the transmit half.\<close>

definition uart_isr_rx :: "u8 \<Rightarrow> u8 \<Rightarrow> uart_device \<Rightarrow> uart_device \<times> uart_out list" where
  "uart_isr_rx lsr rbr dev =
     (if lsr AND LSR_DR \<noteq> 0 then
        (if \<not> rbuf_full (rxbuf dev) then
           (dev\<lparr>rxbuf := rbuf_put (rxbuf dev) rbr\<rparr>,
            (if rbuf_empty (rxbuf dev) then [BroadcastRx] else []) @ [Rbr rbr])
         else (dev\<lparr>ier := ier dev AND NOT IER_DREIE\<rparr>, []))
      else (dev, []))"

definition uart_isr_tx :: "u8 \<Rightarrow> uart_device \<Rightarrow> uart_device \<times> uart_out list" where
  "uart_isr_tx lsr dev =
     (if lsr AND LSR_THRE \<noteq> 0 then
        (if \<not> rbuf_empty (txbuf dev) then
           (case rbuf_get (txbuf dev) of (c, q) \<Rightarrow>
              (dev\<lparr>txbuf := q\<rparr>, (if rbuf_full (txbuf dev) then [BroadcastTx] else []) @ [Thr c]))
         else (dev\<lparr>ier := ier dev AND NOT IER_THREIE\<rparr>, []))
      else (dev, []))"

definition uart_isr :: "u8 \<Rightarrow> u8 \<Rightarrow> uart_device \<Rightarrow> uart_device \<times> uart_out list" where
  "uart_isr lsr rbr dev =
     (let dev0 = (if lsr AND LSR_OE \<noteq> 0 then dev\<lparr>rxovrcnt := rxovrcnt dev + 1\<rparr> else dev);
          (dev1, out1) = uart_isr_rx lsr rbr dev0;
          (dev2, out2) = uart_isr_tx lsr dev1
      in (dev2, out1 @ out2))"

text \<open>
  A thread that sleeps in \<open>condition_wait\<close> leaves the machine to its environment: interrupts with
  the line status and received byte they find, and points where the scheduler would run the thread.
  The thread runs again at the first such point after its condition has been signalled.
\<close>

datatype uart_env = Irq u8 u8 | Sched

fun uart_sleep ::
    "uart_out \<Rightarrow> bool \<Rightarrow> uart_env list \<Rightarrow> uart_device \<Rightarrow> (uart_device \<times> uart_out list \<times> uart_env list) option"
where
  "uart_sleep cond woken [] dev = None"
| "uart_sleep cond woken (Sched # env) dev =
     (if woken then Some (dev, [], env) else uart_sleep cond woken env dev)"
| "uart_sleep cond woken (Irq lsr rbr # env) dev =
     (case uart_isr lsr rbr dev of (dev', out) \<Rightarrow>
        map_option (\<lambda>(d, out', rest). (d, out @ out', rest))
          (uart_sleep cond (woken \<or> cond \<in> set out) env dev'))"

lemma uart_sleep_shorter:
  "uart_sleep cond woken env dev = Some (dev', out, rest) \<Longrightarrow> length rest < length env"
  by (induction cond woken env dev arbitrary: dev' out rest rule: uart_sleep.induct)
    (fastforce split: if_splits prod.splits)+

text \<open>\<open>while (rbuf_empty(&dev->rxbuf)) condition_wait(&dev->rxbnotempty);\<close>\<close>

function uart_wait_rx ::
    "uart_env list \<Rightarrow> uart_device \<Rightarrow> (uart_device \<times> uart_out list \<times> uart_env list) option" where
  "uart_wait_rx env dev =
     (if rbuf_empty (rxbuf dev) then
        (case uart_sleep BroadcastRx False env dev of
           None \<Rightarrow> None
         | Some (dev', out, env') \<Rightarrow>
             map_option (\<lambda>(d, out', rest). (d, out @ out', rest)) (uart_wait_rx env' dev'))
      else Some (dev, [], env))"
  by pat_completeness auto
termination
  by (relation "measure (\<lambda>(env, dev). length env)") (auto dest: uart_sleep_shorter)

function uart_wait_tx ::
    "uart_env list \<Rightarrow> uart_device \<Rightarrow> (uart_device \<times> uart_out list \<times> uart_env list) option" where
  "uart_wait_tx env dev =
     (if rbuf_full (txbuf dev) then
        (case uart_sleep BroadcastTx False env dev of
           None \<Rightarrow> None
         | Some (dev', out, env') \<Rightarrow>
             map_option (\<lambda>(d, out', rest). (d, out @ out', rest)) (uart_wait_tx env' dev'))
      else Some (dev, [], env))"
  by pat_completeness auto
termination
  by (relation "measure (\<lambda>(env, dev). length env)") (auto dest: uart_sleep_shorter)

declare uart_wait_rx.simps [simp del] uart_wait_tx.simps [simp del]

text \<open>
  The copying loops of \<open>uart_read\<close> and \<open>uart_write\<close> run with interrupts enabled. Before each
  evaluation of the loop condition the environment delivers interrupts up to its next \<open>Sched\<close>; an
  environment that is exhausted delivers none.
\<close>

fun uart_irqs :: "uart_env list \<Rightarrow> uart_device \<Rightarrow> uart_device \<times> uart_out list \<times> uart_env list" where
  "uart_irqs [] dev = (dev, [], [])"
| "uart_irqs (Sched # env) dev = (dev, [], env)"
| "uart_irqs (Irq lsr rbr # env) dev =
     (case uart_isr lsr rbr dev of (dev', out) \<Rightarrow>
        case uart_irqs env dev' of (dev'', out', rest) \<Rightarrow> (dev'', out @ out', rest))"

fun uart_drain ::
    "nat \<Rightarrow> uart_env list \<Rightarrow> uart_device \<Rightarrow> u8 list \<times> uart_device \<times> uart_out list \<times> uart_env list"
where
  "uart_drain 0 env dev = (case uart_irqs env dev of (dev1, out, env1) \<Rightarrow> ([], dev1, out, env1))"
| "uart_drain (Suc n) env dev =
     (case uart_irqs env dev of (dev1, out, env1) \<Rightarrow>
        if \<not> rbuf_empty (rxbuf dev1)
        then (case rbuf_get (rxbuf dev1) of (c, q) \<Rightarrow>
                case uart_drain n env1 (dev1\<lparr>rxbuf := q\<rparr>) of (cs, dev2, out2, env2) \<Rightarrow>
                  (c # cs, dev2, out @ out2, env2))
        else ([], dev1, out, env1))"

fun uart_fill ::
    "u8 list \<Rightarrow> uart_env list \<Rightarrow> uart_device \<Rightarrow> u8 list \<times> uart_device \<times> uart_out list \<times> uart_env list"
where
  "uart_fill [] env dev = (case uart_irqs env dev of (dev1, out, env1) \<Rightarrow> ([], dev1, out, env1))"
| "uart_fill (c # p) env dev =
     (case uart_irqs env dev of (dev1, out, env1) \<Rightarrow>
        if \<not> rbuf_full (txbuf dev1)
        then (case uart_fill p env1 (dev1\<lparr>txbuf := rbuf_put (txbuf dev1) c\<rparr>) of
                (p', dev2, out2, env2) \<Rightarrow> (p', dev2, out @ out2, env2))
        else (c # p, dev1, out, env1))"

definition uart_read ::
    "uart_env list \<Rightarrow> uart_device \<Rightarrow> nat \<Rightarrow> (u8 list \<times> uart_device \<times> uart_out list \<times> uart_env list) option"
where
  "uart_read env dev bufsz =
     (let bufsz = (if LONG_MAX < bufsz then LONG_MAX else bufsz) in
      if bufsz = 0 then Some ([], dev, [], env)
      else
        (case uart_wait_rx env dev of
           None \<Rightarrow> None
         | Some (dev1, out1, env1) \<Rightarrow>
             (case uart_drain bufsz env1 dev1 of (bytes, dev2, out2, env2) \<Rightarrow>
                Some (bytes, dev2\<lparr>ier := ier dev2 OR IER_DREIE\<rparr>, out1 @ out2, env2))))"

lemma uart_wait_tx_result:
  "uart_wait_tx env dev = Some (dev', out, env') \<Longrightarrow>
     \<not> rbuf_full (txbuf dev') \<and> length env' \<le> length env"
proof (induction env dev arbitrary: out rule: uart_wait_tx.induct)
  case (1 env dev)
  then show ?case
    by (subst (asm) (2) uart_wait_tx.simps)
      (fastforce split: if_splits option.splits dest: uart_sleep_shorter)
qed

lemma uart_irqs_shorter:
  "uart_irqs env dev = (dev', out, rest) \<Longrightarrow>
     length rest \<le> length env \<and> (env \<noteq> [] \<longrightarrow> length rest < length env)"
  by (induction env dev arbitrary: dev' out rest rule: uart_irqs.induct)
    (fastforce split: prod.splits)+

lemma uart_fill_shorter:
  "uart_fill p env dev = (p', dev', out, rest) \<Longrightarrow>
     length p' \<le> length p \<and> length rest \<le> length env"
  by (induction p env dev arbitrary: p' dev' out rest rule: uart_fill.induct)
    (fastforce split: prod.splits if_splits dest: uart_irqs_shorter)+

lemma uart_fill_progress:
  assumes "uart_fill p env dev = (p', dev', out, rest)" and "\<not> rbuf_full (txbuf dev)" and "p \<noteq> []"
  shows "length p' + length rest < length p + length env"
proof (cases env)
  case Nil
  obtain c q where "p = c # q" using assms(3) by (cases p) auto
  with Nil assms show ?thesis
    by (auto split: prod.splits dest!: uart_fill_shorter)
next
  case (Cons e es)
  obtain c q where p: "p = c # q" using assms(3) by (cases p) auto
  obtain dev1 out1 env1 where i: "uart_irqs env dev = (dev1, out1, env1)" by (metis prod_cases3)
  then have "length env1 < length env" using uart_irqs_shorter Cons by blast
  with assms(1) i show ?thesis
    by (auto simp: p split: prod.splits if_splits dest!: uart_fill_shorter)
qed

function uart_write_loop ::
    "uart_env list \<Rightarrow> uart_device \<Rightarrow> u8 list \<Rightarrow> (uart_device \<times> uart_out list \<times> uart_env list) option"
where
  "uart_write_loop env dev p =
     (if p = [] then Some (dev, [], env)
      else
        (case uart_wait_tx env dev of
           None \<Rightarrow> None
         | Some (dev1, out1, env1) \<Rightarrow>
             (case uart_fill p env1 dev1 of (p', dev2, out2, env2) \<Rightarrow>
                map_option (\<lambda>(d, out', rest). (d, out1 @ out2 @ out', rest))
                  (uart_write_loop env2 (dev2\<lparr>ier := ier dev2 OR IER_THREIE\<rparr>) p'))))"
  by pat_completeness auto
termination
  by (relation "measure (\<lambda>(env, dev, p). length env + length p)")
    (fastforce dest!: uart_wait_tx_result uart_fill_progress [OF sym])+

declare uart_write_loop.simps [simp del]

definition uart_write ::
    "uart_env list \<Rightarrow> uart_device \<Rightarrow> u8 list \<Rightarrow> (nat \<times> uart_device \<times> uart_out list \<times> uart_env list) option"
where
  "uart_write env dev buf =
     (let n = (if LONG_MAX < length buf then LONG_MAX else length buf) in
      map_option (\<lambda>(d, out, rest). (n, d, out, rest)) (uart_write_loop env dev (take n buf)))"

section \<open>Accounting of the byte streams\<close>

definition dev_inv :: "uart_device \<Rightarrow> bool" where
  "dev_inv dev \<longleftrightarrow> rbuf_inv (rxbuf dev) \<and> rbuf_inv (txbuf dev)"

abbreviation rx_queue :: "uart_device \<Rightarrow> u8 list" where
  "rx_queue dev \<equiv> rbuf_contents (rxbuf dev)"

abbreviation tx_queue :: "uart_device \<Rightarrow> u8 list" where
  "tx_queue dev \<equiv> rbuf_contents (txbuf dev)"

text \<open>The bytes the driver took from the line, and the bytes it put on the line.\<close>

fun rbr_bytes :: "uart_out list \<Rightarrow> u8 list" where
  "rbr_bytes [] = []"
| "rbr_bytes (Rbr c # out) = c # rbr_bytes out"
| "rbr_bytes (_ # out) = rbr_bytes out"

fun thr_bytes :: "uart_out list \<Rightarrow> u8 list" where
  "thr_bytes [] = []"
| "thr_bytes (Thr c # out) = c # thr_bytes out"
| "thr_bytes (_ # out) = thr_bytes out"

text \<open>
  \<open>uart_moves dev out dev' rd wr\<close>: between \<open>dev\<close> and \<open>dev'\<close> the driver did \<open>out\<close>, handed the bytes
  \<open>rd\<close> to readers and took the bytes \<open>wr\<close> from writers, and no byte was lost, invented or reordered.
\<close>

definition uart_moves ::
    "uart_device \<Rightarrow> uart_out list \<Rightarrow> uart_device \<Rightarrow> u8 list \<Rightarrow> u8 list \<Rightarrow> bool" where
  "uart_moves dev out dev' rd wr \<longleftrightarrow> dev_inv dev' \<and>
     rx_queue dev @ rbr_bytes out = rd @ rx_queue dev' \<and>
     tx_queue dev @ wr = thr_bytes out @ tx_queue dev'"

lemma rbr_bytes_append [simp]: "rbr_bytes (xs @ ys) = rbr_bytes xs @ rbr_bytes ys"
  by (induction xs rule: rbr_bytes.induct) auto

lemma thr_bytes_append [simp]: "thr_bytes (xs @ ys) = thr_bytes xs @ thr_bytes ys"
  by (induction xs rule: thr_bytes.induct) auto

lemma uart_moves_refl [simp]: "uart_moves dev [] dev [] [] \<longleftrightarrow> dev_inv dev"
  by (simp add: uart_moves_def)

lemma uart_moves_inv: "uart_moves dev out dev' rd wr \<Longrightarrow> dev_inv dev'"
  by (simp add: uart_moves_def)

lemma uart_moves_trans:
  assumes "uart_moves dev o1 dev1 rd1 wr1" and "uart_moves dev1 o2 dev2 rd2 wr2"
  shows "uart_moves dev (o1 @ o2) dev2 (rd1 @ rd2) (wr1 @ wr2)"
  using assms by (simp add: uart_moves_def) (metis append.assoc)

lemma uart_moves_ier [simp]:
  "uart_moves dev out (dev'\<lparr>ier := x\<rparr>) rd wr = uart_moves dev out dev' rd wr"
  "uart_moves (dev\<lparr>ier := x\<rparr>) out dev' rd wr = uart_moves dev out dev' rd wr"
  by (simp_all add: uart_moves_def dev_inv_def)

lemmas uart_isr_defs = uart_isr_def uart_isr_rx_def uart_isr_tx_def dev_inv_def Let_def

lemma uart_isr_moves:
  assumes "dev_inv dev" and "uart_isr lsr rbr dev = (dev', out)"
  shows "uart_moves dev out dev' [] []"
  using assms rq.invar_get [of "txbuf dev"] rq.contents_get [of "txbuf dev"]
  by (auto simp: uart_isr_defs uart_moves_def rq.invar_put rq.contents_put split: prod.splits if_splits)

lemma uart_get_moves:
  assumes "dev_inv dev" and "\<not> rbuf_empty (rxbuf dev)" and "rbuf_get (rxbuf dev) = (c, q)"
  shows "uart_moves dev [] (dev\<lparr>rxbuf := q\<rparr>) [c] []"
  using assms rq.invar_get [of "rxbuf dev"] rq.contents_get [of "rxbuf dev"]
  by (simp add: uart_moves_def dev_inv_def)

lemma uart_put_moves:
  assumes "dev_inv dev" and "\<not> rbuf_full (txbuf dev)"
  shows "uart_moves dev [] (dev\<lparr>txbuf := rbuf_put (txbuf dev) c\<rparr>) [] [c]"
  using assms by (simp add: uart_moves_def dev_inv_def rq.invar_put rq.contents_put)

lemma uart_sleep_moves:
  assumes "dev_inv dev" and "uart_sleep cond woken env dev = Some (dev', out, rest)"
  shows "uart_moves dev out dev' [] []"
  using assms
proof (induction cond woken env dev arbitrary: dev' out rest rule: uart_sleep.induct)
  case (3 cond woken lsr rbr env dev)
  then show ?case
    by (fastforce split: prod.splits dest: uart_isr_moves uart_moves_inv uart_moves_trans)
qed (auto split: if_splits)

lemma uart_irqs_moves:
  assumes "dev_inv dev" and "uart_irqs env dev = (dev', out, rest)"
  shows "uart_moves dev out dev' [] []"
  using assms
proof (induction env dev arbitrary: dev' out rest rule: uart_irqs.induct)
  case (3 lsr rbr env dev)
  then show ?case
    by (fastforce split: prod.splits dest: uart_isr_moves uart_moves_inv uart_moves_trans)
qed auto

lemma uart_wait_rx_moves:
  assumes "dev_inv dev" and "uart_wait_rx env dev = Some (dev', out, rest)"
  shows "uart_moves dev out dev' [] []"
  using assms
proof (induction env dev arbitrary: dev' out rest rule: uart_wait_rx.induct)
  case (1 env dev)
  from 1(3) show ?case
    by (subst (asm) uart_wait_rx.simps)
      (use 1(1,2) in \<open>fastforce split: if_splits option.splits
         dest: uart_sleep_moves uart_moves_inv uart_moves_trans\<close>)
qed

lemma uart_wait_tx_moves:
  assumes "dev_inv dev" and "uart_wait_tx env dev = Some (dev', out, rest)"
  shows "uart_moves dev out dev' [] []"
  using assms
proof (induction env dev arbitrary: dev' out rest rule: uart_wait_tx.induct)
  case (1 env dev)
  from 1(3) show ?case
    by (subst (asm) uart_wait_tx.simps)
      (use 1(1,2) in \<open>fastforce split: if_splits option.splits
         dest: uart_sleep_moves uart_moves_inv uart_moves_trans\<close>)
qed

lemma uart_drain_moves:
  assumes "dev_inv dev" and "uart_drain n env dev = (bytes, dev', out, rest)"
  shows "uart_moves dev out dev' bytes [] \<and> length bytes \<le> n"
  using assms
proof (induction n env dev arbitrary: bytes dev' out rest rule: uart_drain.induct)
  case (1 env dev)
  then show ?case by (auto split: prod.splits dest: uart_irqs_moves)
next
  case (2 n env dev)
  obtain dev1 out1 env1 where i: "uart_irqs env dev = (dev1, out1, env1)" by (metis prod_cases3)
  have m1: "uart_moves dev out1 dev1 [] []" using i 2(2) by (rule uart_irqs_moves [rotated])
  show ?case
  proof (cases "rbuf_empty (rxbuf dev1)")
    case True
    then show ?thesis using 2(3) i m1 by auto
  next
    case False
    obtain c q where g: "rbuf_get (rxbuf dev1) = (c, q)" by (metis surj_pair)
    obtain cs dev2 out2 env2 where d: "uart_drain n env1 (dev1\<lparr>rxbuf := q\<rparr>) = (cs, dev2, out2, env2)"
      by (metis prod_cases4)
    have m2: "uart_moves dev1 [] (dev1\<lparr>rxbuf := q\<rparr>) [c] []"
      using uart_get_moves [OF uart_moves_inv [OF m1] False g] .
    have m3: "uart_moves (dev1\<lparr>rxbuf := q\<rparr>) out2 dev2 cs [] \<and> length cs \<le> n"
      using 2(1) [OF i [symmetric] refl False g [symmetric] uart_moves_inv [OF m2] d] .
    show ?thesis
      using uart_moves_trans [OF m1 uart_moves_trans [OF m2 conjunct1 [OF m3]]] 2(3) i False g d m3 by auto
  qed
qed

lemma uart_fill_moves:
  assumes "dev_inv dev" and "uart_fill p env dev = (p', dev', out, rest)"
  shows "\<exists>wr. p = wr @ p' \<and> uart_moves dev out dev' [] wr"
  using assms
proof (induction p env dev arbitrary: p' dev' out rest rule: uart_fill.induct)
  case (1 env dev)
  then show ?case by (auto split: prod.splits dest: uart_irqs_moves)
next
  case (2 c p env dev)
  obtain dev1 out1 env1 where i: "uart_irqs env dev = (dev1, out1, env1)" by (metis prod_cases3)
  have m1: "uart_moves dev out1 dev1 [] []" using i 2(2) by (rule uart_irqs_moves [rotated])
  show ?case
  proof (cases "rbuf_full (txbuf dev1)")
    case True
    then show ?thesis using 2(3) i m1 by auto
  next
    case False
    let ?d = "dev1\<lparr>txbuf := rbuf_put (txbuf dev1) c\<rparr>"
    obtain dev2 out2 where f: "uart_fill p env1 ?d = (p', dev2, out2, rest)"
      and eqs: "dev' = dev2" "out = out1 @ out2"
      using 2(3) i False by (auto split: prod.splits)
    have m2: "uart_moves dev1 [] ?d [] [c]"
      using uart_put_moves [OF uart_moves_inv [OF m1] False] .
    obtain wr where "p = wr @ p'" and m3: "uart_moves ?d out2 dev2 [] wr"
      using 2(1) [OF i [symmetric] refl False uart_moves_inv [OF m2] f] by blast
    then show ?thesis
      using uart_moves_trans [OF m1 uart_moves_trans [OF m2 m3]] eqs by auto
  qed
qed

lemma uart_write_loop_moves:
  assumes "dev_inv dev" and "uart_write_loop env dev p = Some (dev', out, rest)"
  shows "uart_moves dev out dev' [] p"
  using assms
proof (induction env dev p arbitrary: dev' out rest rule: uart_write_loop.induct)
  case (1 env dev p)
  show ?case
  proof (cases "p = []")
    case True
    then show ?thesis using 1(2,3) by (simp add: uart_write_loop.simps [of env dev])
  next
    case False
    from 1(3) False obtain dev1 out1 env1 p' dev2 out2 env2 out3
      where w: "uart_wait_tx env dev = Some (dev1, out1, env1)"
        and f: "uart_fill p env1 dev1 = (p', dev2, out2, env2)"
        and l: "uart_write_loop env2 (dev2\<lparr>ier := ier dev2 OR IER_THREIE\<rparr>) p' = Some (dev', out3, rest)"
        and o: "out = out1 @ out2 @ out3"
      by (subst (asm) uart_write_loop.simps) (auto split: option.splits prod.splits)
    have m1: "uart_moves dev out1 dev1 [] []" using 1(2) w by (rule uart_wait_tx_moves)
    obtain wr where p: "p = wr @ p'" and m2: "uart_moves dev1 out2 dev2 [] wr"
      using uart_fill_moves [OF uart_moves_inv [OF m1] f] by blast
    have inv2: "dev_inv (dev2\<lparr>ier := ier dev2 OR IER_THREIE\<rparr>)"
      using uart_moves_inv [OF m2] by (simp add: dev_inv_def)
    have m3: "uart_moves dev2 out3 dev' [] p'"
      using 1(1) [OF False w refl refl f [symmetric] refl refl inv2 l] by simp
    show ?thesis
      using uart_moves_trans [OF m1 uart_moves_trans [OF m2 m3]] p o by simp
  qed
qed

section \<open>Wake-ups\<close>

lemma rbuf_empty_not_full: "rbuf_inv q \<Longrightarrow> rbuf_empty q \<Longrightarrow> \<not> rbuf_full q"
  by (simp add: rq.is_empty_iff rq.is_full_iff SERIAL_RBUFSZ_def)

lemma uart_isr_wakes_rx:
  assumes "dev_inv dev" and "uart_isr lsr rbr dev = (dev', out)"
  shows "rbuf_empty (rxbuf dev') \<longleftrightarrow> rbuf_empty (rxbuf dev) \<and> lsr AND LSR_DR = 0"
    and "BroadcastRx \<in> set out \<longleftrightarrow> rbuf_empty (rxbuf dev) \<and> lsr AND LSR_DR \<noteq> 0"
  using assms rbuf_empty_not_full [of "rxbuf dev"]
  by (auto simp: uart_isr_defs rq.is_empty_iff rq.contents_put rq.invar_put
      split: prod.splits if_splits)

lemma uart_sleep_rx_returns:
  assumes "dev_inv dev" and "woken \<longleftrightarrow> \<not> rbuf_empty (rxbuf dev)"
    and "woken \<or> (\<exists>lsr rbr. Irq lsr rbr \<in> set pre \<and> lsr AND LSR_DR \<noteq> 0)"
  shows "\<exists>dev' out rest. uart_sleep BroadcastRx woken (pre @ Sched # post) dev = Some (dev', out, rest)
    \<and> \<not> rbuf_empty (rxbuf dev')"
  using assms
proof (induction pre arbitrary: woken dev)
  case (Cons e pre)
  show ?case
  proof (cases e)
    case (Irq lsr rbr)
    obtain dev1 out1 where i: "uart_isr lsr rbr dev = (dev1, out1)" by (metis surj_pair)
    have inv: "dev_inv dev1" using uart_moves_inv [OF uart_isr_moves [OF Cons.prems(1) i]] .
    note w = uart_isr_wakes_rx [OF Cons.prems(1) i]
    have "\<exists>dev' out rest. uart_sleep BroadcastRx (woken \<or> BroadcastRx \<in> set out1) (pre @ Sched # post) dev1
        = Some (dev', out, rest) \<and> \<not> rbuf_empty (rxbuf dev')"
      using Cons.prems Irq w by (intro Cons.IH [OF inv]) auto
    then show ?thesis using Irq i by auto
  next
    case Sched
    then show ?thesis using Cons.prems Cons.IH [OF Cons.prems(1), of False] by (cases woken) auto
  qed
qed auto

lemma uart_wait_rx_returns:
  assumes "dev_inv dev" and "Irq lsr rbr \<in> set pre" and "lsr AND LSR_DR \<noteq> 0"
  shows "\<exists>dev' out rest. uart_wait_rx (pre @ Sched # post) dev = Some (dev', out, rest)
    \<and> \<not> rbuf_empty (rxbuf dev')"
proof (cases "rbuf_empty (rxbuf dev)")
  case True
  then obtain dev1 out1 rest where
    "uart_sleep BroadcastRx False (pre @ Sched # post) dev = Some (dev1, out1, rest)"
    "\<not> rbuf_empty (rxbuf dev1)"
    using uart_sleep_rx_returns [OF assms(1), of False pre post] assms(2,3) by auto
  then show ?thesis
    using True uart_wait_rx.simps [of "pre @ Sched # post" dev] uart_wait_rx.simps [of rest dev1]
    by auto
next
  case False
  then show ?thesis using uart_wait_rx.simps [of "pre @ Sched # post" dev] by auto
qed

lemma uart_irqs_rx_nonempty:
  assumes "dev_inv dev" and "uart_irqs env dev = (dev', out, rest)" and "\<not> rbuf_empty (rxbuf dev)"
  shows "\<not> rbuf_empty (rxbuf dev')"
proof -
  from uart_irqs_moves [OF assms(1,2)] assms(1,3) show ?thesis
    by (auto simp: uart_moves_def dev_inv_def rq.is_empty_iff)
qed

lemma uart_drain_nonempty:
  assumes "dev_inv dev" and "\<not> rbuf_empty (rxbuf dev)" and "0 < n"
  shows "fst (uart_drain n env dev) \<noteq> []"
proof -
  obtain m where "n = Suc m" using assms(3) by (cases n) auto
  moreover obtain dev1 out1 env1 where "uart_irqs env dev = (dev1, out1, env1)" by (metis prod_cases3)
  moreover from uart_irqs_rx_nonempty [OF assms(1) this assms(2)] have "\<not> rbuf_empty (rxbuf dev1)" .
  ultimately show ?thesis by (auto split: prod.splits)
qed

text \<open>A device that reports an empty holding register \<open>k\<close> times, letting the thread run after each.\<close>

definition thre_env :: "u8 \<Rightarrow> nat \<Rightarrow> uart_env list" where
  "thre_env lsr k = concat (replicate k [Irq lsr 0, Sched])"

lemma thre_env_simps [simp]:
  "thre_env lsr 0 = []" "thre_env lsr (Suc k) = Irq lsr 0 # Sched # thre_env lsr k"
  by (simp_all add: thre_env_def)

lemma uart_isr_wakes_tx:
  assumes "dev_inv dev" and "uart_isr lsr rbr dev = (dev', out)" and "lsr AND LSR_THRE \<noteq> 0"
  shows "\<not> rbuf_full (txbuf dev')" and "rbuf_full (txbuf dev) \<Longrightarrow> BroadcastTx \<in> set out"
  using assms rq.invar_get [of "txbuf dev"] rq.contents_get [of "txbuf dev"]
    rq.length_contents [of "txbuf dev"] rbuf_empty_not_full [of "txbuf dev"]
  by (auto simp: uart_isr_defs rq.is_full_iff split: prod.splits if_splits)

lemma uart_irqs_thre:
  assumes "lsr AND LSR_THRE \<noteq> 0"
  shows "\<exists>dev' out k'. uart_irqs (thre_env lsr k) dev = (dev', out, thre_env lsr k') \<and> k \<le> Suc k'"
proof (cases k)
  case 0
  show ?thesis unfolding 0 by (auto intro!: exI [of _ 0])
next
  case (Suc j)
  then show ?thesis by (auto split: prod.splits)
qed

lemma uart_wait_tx_thre:
  assumes "dev_inv dev" and "lsr AND LSR_THRE \<noteq> 0" and "0 < k"
  shows "\<exists>dev' out k'. uart_wait_tx (thre_env lsr k) dev = Some (dev', out, thre_env lsr k') \<and> k \<le> Suc k'"
proof (cases "rbuf_full (txbuf dev)")
  case True
  obtain j where k: "k = Suc j" using assms(3) by (cases k) auto
  obtain dev1 out1 where i: "uart_isr lsr 0 dev = (dev1, out1)" by (metis surj_pair)
  show ?thesis
    using True k i uart_isr_wakes_tx [OF assms(1) i assms(2)]
      uart_wait_tx.simps [of "thre_env lsr k" dev] uart_wait_tx.simps [of "thre_env lsr j" dev1]
    by auto
next
  case False
  then show ?thesis using uart_wait_tx.simps [of "thre_env lsr k" dev] by auto
qed

lemma uart_fill_thre:
  assumes "lsr AND LSR_THRE \<noteq> 0" and "uart_fill p (thre_env lsr k) dev = (p', dev', out, rest)"
  shows "\<exists>k'. rest = thre_env lsr k' \<and> k + length p' \<le> Suc (k' + length p)"
  using assms(2)
proof (induction p arbitrary: k dev dev' out)
  case Nil
  then show ?case using uart_irqs_thre [OF assms(1), of k dev] by (auto split: prod.splits)
next
  case (Cons c p)
  obtain dev1 out1 j where i: "uart_irqs (thre_env lsr k) dev = (dev1, out1, thre_env lsr j)" and j: "k \<le> Suc j"
    using uart_irqs_thre [OF assms(1)] by blast
  show ?case
  proof (cases "rbuf_full (txbuf dev1)")
    case True
    then show ?thesis using Cons.prems i j by (auto intro: exI [of _ j])
  next
    case False
    then have "\<exists>k'. rest = thre_env lsr k' \<and> j + length p' \<le> Suc (k' + length p)"
      using Cons.prems i by (auto split: prod.splits dest: Cons.IH)
    then show ?thesis using j by fastforce
  qed
qed

lemma uart_fill_consumes:
  assumes "dev_inv dev" and "\<not> rbuf_full (txbuf dev)" and "p \<noteq> []"
    and "uart_fill p env dev = (p', dev', out, rest)"
  shows "length p' < length p"
proof -
  obtain c q where p: "p = c # q" using assms(3) by (cases p) auto
  obtain dev1 out1 env1 where i: "uart_irqs env dev = (dev1, out1, env1)" by (metis prod_cases3)
  from uart_irqs_moves [OF assms(1) i] have "\<not> rbuf_full (txbuf dev1)"
    using assms(1,2) rq.length_contents [of "txbuf dev"]
    by (auto simp: uart_moves_def dev_inv_def rq.is_full_iff dest: arg_cong [where f = length])
  then show ?thesis using assms(4) i
    by (auto simp: p less_Suc_eq_le split: prod.splits dest!: uart_fill_shorter)
qed

lemma uart_write_loop_returns:
  assumes "lsr AND LSR_THRE \<noteq> 0" and "dev_inv dev" and "3 * length p \<le> k"
  shows "\<exists>r. uart_write_loop (thre_env lsr k) dev p = Some r"
  using assms(2,3)
proof (induction "length p" arbitrary: k dev p rule: less_induct)
  case less
  show ?case
  proof (cases "p = []")
    case True
    then show ?thesis by (simp add: uart_write_loop.simps [of _ dev])
  next
    case False
    then have "0 < k" using less.prems(2) by (cases p) auto
    then obtain dev1 out1 j where w: "uart_wait_tx (thre_env lsr k) dev = Some (dev1, out1, thre_env lsr j)"
      and j: "k \<le> Suc j" using uart_wait_tx_thre [OF less.prems(1) assms(1)] by blast
    obtain p' dev2 out2 env2 where f: "uart_fill p (thre_env lsr j) dev1 = (p', dev2, out2, env2)"
      by (metis prod_cases4)
    obtain i where i: "env2 = thre_env lsr i" "j + length p' \<le> Suc (i + length p)"
      using uart_fill_thre [OF assms(1) f] by blast
    have inv1: "dev_inv dev1" using uart_wait_tx_moves [OF less.prems(1) w] uart_moves_inv by blast
    have short: "length p' < length p"
      using uart_fill_consumes [OF inv1 _ False f] uart_wait_tx_result [OF w] by blast
    have "dev_inv (dev2\<lparr>ier := ier dev2 OR IER_THREIE\<rparr>)"
      using uart_fill_moves [OF inv1 f] by (auto simp: uart_moves_def dev_inv_def)
    from less.hyps [OF short this, of i] short j i(2) less.prems(2) i(1) show ?thesis
      using uart_write_loop.simps [of "thre_env lsr k" dev p] w f False by auto
  qed
qed

lemma uart_read_moves:
  assumes "dev_inv dev" and "uart_read env dev bufsz = Some (bytes, dev', out, rest)"
  shows "uart_moves dev out dev' bytes [] \<and> length bytes \<le> bufsz"
proof (cases "bufsz = 0")
  case True
  then show ?thesis using assms by (auto simp: uart_read_def LONG_MAX_def)
next
  case False
  let ?n = "if LONG_MAX < bufsz then LONG_MAX else bufsz"
  from False have "?n \<noteq> 0" by (simp add: LONG_MAX_def)
  with assms(2) obtain dev1 out1 env1 dev2 out2 where
    w: "uart_wait_rx env dev = Some (dev1, out1, env1)" and
    d: "uart_drain ?n env1 dev1 = (bytes, dev2, out2, rest)" and
    e: "dev' = dev2\<lparr>ier := ier dev2 OR IER_DREIE\<rparr>" "out = out1 @ out2"
    by (auto simp: uart_read_def Let_def split: option.splits prod.splits)
  note m1 = uart_wait_rx_moves [OF assms(1) w]
  note m2 = uart_drain_moves [OF uart_moves_inv [OF m1] d]
  show ?thesis using uart_moves_trans [OF m1 conjunct1 [OF m2]] e m2 by (auto split: if_splits)
qed

text \<open>
  C4: the receive path. Whatever interrupts arrive while \<open>uart_read\<close> waits and copies, the bytes it
  returns followed by the bytes left in the receive ring are the bytes that were queued before
  followed by the bytes the interrupt handler took from the line: nothing is lost, duplicated or
  reordered, across wrap-around of the 16-bit positions; at most \<open>bufsz\<close> bytes are returned, and the
  transmit direction only moves from the ring to the line.
\<close>
theorem uart_read_stream:
  assumes "dev_inv dev" and "uart_read env dev bufsz = Some (bytes, dev', out, rest)"
  shows "rx_queue dev @ rbr_bytes out = bytes @ rx_queue dev' \<and> length bytes \<le> bufsz \<and>
    tx_queue dev = thr_bytes out @ tx_queue dev' \<and> dev_inv dev'"
  using uart_read_moves [OF assms] by (simp add: uart_moves_def)

lemmas uart_reg_defs = LSR_DR_def LSR_OE_def LSR_THRE_def IER_DREIE_def IER_THREIE_def

lemmas uart_rbuf_defs = rbuf_init_def rbuf_empty_def rbuf_full_def rbuf_put_def rbuf_get_def
  rbuf_contents_def rbuf_slot_def SERIAL_RBUFSZ_def

lemma LONG_MAX_val: "LONG_MAX = 9223372036854775807"
  by (simp add: LONG_MAX_def)

lemmas uart_drain_numeral =
  uart_drain.simps(2) [of "pred_numeral k" for k, folded numeral_eq_Suc]

definition wrap_dev :: uart_device where
  "wrap_dev = \<lparr>u_base = 0x10000100, u_irqno = 11, rxovrcnt = 0, u_refcnt = 1,
     rxbuf = \<lparr>hpos = 65535, tpos = 65535, rdata = replicate 64 0\<rparr>,
     txbuf = \<lparr>hpos = 65535, tpos = 63, rdata = replicate 64 7\<rparr>,
     ier = 1, lcr = 0, dll = 1, dlm = 0\<rparr>"

lemma wrap_dev_inv: "dev_inv wrap_dev"
  by (simp add: wrap_dev_def dev_inv_def rbuf_inv_def SERIAL_RBUFSZ_def)

definition wrap_env :: "uart_env list" where
  "wrap_env = [Sched, Irq 1 65, Irq 0x21 66, Sched, Irq 1 67, Sched]"

theorem uart_read_stream_witness:
  "(case uart_read wrap_env wrap_dev 2 of
      Some (bytes, dev', out, rest) \<Rightarrow>
        bytes = [65, 66] \<and> rx_queue wrap_dev @ rbr_bytes out = bytes @ rx_queue dev' \<and> rx_queue dev' = [67]
    | None \<Rightarrow> False)"
proof -
  have e: "map_option (\<lambda>(b, d, o', r). (b, rx_queue d)) (uart_read wrap_env wrap_dev 2) = Some ([65, 66], [67])"
    by (simp add: uart_read_def wrap_env_def wrap_dev_def LONG_MAX_val uart_wait_rx.simps uart_isr_defs
        uart_drain_numeral uart_rbuf_defs uart_reg_defs)
  then obtain b d o' r where "uart_read wrap_env wrap_dev 2 = Some (b, d, o', r)" "b = [65, 66]" "rx_queue d = [67]"
    by auto
  then show ?thesis using uart_read_stream [OF wrap_dev_inv, of wrap_env 2 b d o' r] by simp
qed

text \<open>
  C5: the transmit path. When \<open>uart_write\<close> returns, it has accepted the whole buffer (up to \<open>LONG_MAX\<close>
  bytes): the bytes that went out on the line followed by those still in the transmit ring are the
  previously queued bytes followed by the buffer, whatever interrupts arrived in between; bytes
  received meanwhile are appended to the receive ring.
\<close>
theorem uart_write_stream:
  assumes "dev_inv dev" and "uart_write env dev buf = Some (n, dev', out, rest)"
  shows "n = min LONG_MAX (length buf) \<and>
    thr_bytes out @ tx_queue dev' = tx_queue dev @ take n buf \<and>
    rx_queue dev' = rx_queue dev @ rbr_bytes out \<and> dev_inv dev'"
proof -
  from assms(2) have "n = min LONG_MAX (length buf)"
    and "uart_write_loop env dev (take n buf) = Some (dev', out, rest)"
    by (auto simp: uart_write_def Let_def min_def split: if_splits)
  with uart_write_loop_moves [OF assms(1) this(2)] show ?thesis by (simp add: uart_moves_def)
qed

theorem uart_write_stream_witness:
  "\<exists>dev' out rest. uart_write [Irq 0x20 0, Sched] wrap_dev [1, 2] = None \<and>
     uart_write (thre_env 0x20 6) wrap_dev [1, 2] = Some (2, dev', out, rest) \<and>
     thr_bytes out @ tx_queue dev' = tx_queue wrap_dev @ [1, 2]"
proof -
  have "uart_write [Irq 0x20 0, Sched] wrap_dev [1, 2] = None"
    by (simp add: uart_write_def LONG_MAX_val uart_write_loop.simps uart_wait_tx.simps wrap_dev_def
        uart_isr_defs uart_rbuf_defs uart_reg_defs)
  moreover obtain r where "uart_write_loop (thre_env 0x20 6) wrap_dev [1, 2] = Some r"
    using uart_write_loop_returns [of "0x20" wrap_dev "[1, 2]" 6] wrap_dev_inv by (auto simp: LSR_THRE_def)
  then obtain d o' e where w:
    "uart_write (thre_env 0x20 6) wrap_dev [1, 2] = Some (2, d, o', e)"
    by (cases r) (simp add: uart_write_def LONG_MAX_val)
  ultimately show ?thesis
    using uart_write_stream [OF wrap_dev_inv w] by auto
qed

text \<open>
  C6: no lost wake-up. If some interrupt reports received data before a point where the scheduler can
  run the thread, \<open>uart_read\<close> of a non-empty buffer returns at least one byte: it cannot stay asleep
  while data is in the ring, whichever interrupts come before, between or after.
\<close>
theorem uart_read_no_lost_wakeup:
  assumes "dev_inv dev" and "0 < bufsz" and "Irq lsr rbr \<in> set pre" and "lsr AND LSR_DR \<noteq> 0"
  shows "\<exists>bytes dev' out rest.
    uart_read (pre @ Sched # post) dev bufsz = Some (bytes, dev', out, rest) \<and> bytes \<noteq> []"
proof -
  let ?n = "if LONG_MAX < bufsz then LONG_MAX else bufsz"
  from assms(2) have n: "0 < ?n" by (simp add: LONG_MAX_def)
  obtain dev1 out1 env1 where w: "uart_wait_rx (pre @ Sched # post) dev = Some (dev1, out1, env1)"
    and ne: "\<not> rbuf_empty (rxbuf dev1)"
    using uart_wait_rx_returns [OF assms(1,3,4)] by blast
  have "dev_inv dev1" using uart_wait_rx_moves [OF assms(1) w] uart_moves_inv by blast
  from uart_drain_nonempty [OF this ne n] have "fst (uart_drain ?n env1 dev1) \<noteq> []" .
  then show ?thesis using n w
    by (auto simp: uart_read_def Let_def split: prod.splits)
qed

theorem uart_read_no_lost_wakeup_witness:
  "\<exists>bytes dev' out rest.
    uart_read ([Irq 0 0, Irq 1 65] @ Sched # []) wrap_dev 8 = Some (bytes, dev', out, rest) \<and> bytes \<noteq> []"
  by (rule uart_read_no_lost_wakeup [OF wrap_dev_inv, where lsr = 1 and rbr = 65])
    (simp_all add: LSR_DR_def)

text \<open>
  C7: writers make progress. If the device reports an empty holding register often enough (three times
  per byte is plenty) with the writer scheduled in between, \<open>uart_write\<close> returns with the full count,
  also when the transmit ring is full at the call.
\<close>
theorem uart_write_completes:
  assumes "dev_inv dev" and "lsr AND LSR_THRE \<noteq> 0" and "length buf \<le> LONG_MAX" and "3 * length buf \<le> k"
  shows "\<exists>dev' out rest. uart_write (thre_env lsr k) dev buf = Some (length buf, dev', out, rest)"
proof -
  obtain d o' e where "uart_write_loop (thre_env lsr k) dev buf = Some (d, o', e)"
    using uart_write_loop_returns [OF assms(2,1,4)] by auto
  then show ?thesis using assms(3) by (simp add: uart_write_def)
qed

theorem uart_write_completes_witness:
  "\<exists>dev' out rest. uart_write (thre_env 0x60 9) wrap_dev [1, 2, 3] = Some (length [1, 2, 3 :: u8], dev', out, rest)"
  by (rule uart_write_completes [OF wrap_dev_inv]) (simp_all add: LSR_THRE_def LONG_MAX_val)

text \<open>
  C8: a serial port can be opened only once. \<open>uart_close\<close> masks the interrupts but leaves the
  reference count that \<open>uart_open\<close> tests, so every later open of the port reports \<open>EBUSY\<close>.
\<close>
theorem uart_reopen_busy:
  assumes "uart_open rbr dev = (0, dev1, out)"
  shows "uart_open rbr' (fst (uart_close dev1)) = (- EBUSY, fst (uart_close dev1), [])"
  using assms by (auto simp: uart_open_def uart_close_def EBUSY_def split: if_splits)

theorem uart_reopen_busy_witness:
  "\<exists>dev dev1 out. uart_attach 0x10000100 11 = (Some dev, [RegisterIsr 11 3, RegisterDev True]) \<and>
     uart_open 0 dev = (0, dev1, out) \<and>
     uart_open 1 (fst (uart_close dev1)) = (- EBUSY, fst (uart_close dev1), [])"
proof -
  obtain dev where a: "uart_attach 0x10000100 11 = (Some dev, [RegisterIsr 11 3, RegisterDev True])"
    and r: "u_refcnt dev = 0"
    by (simp add: uart_attach_def UART0_IOBASE_def UART_IRQ_PRIO_def Let_def)
  then obtain dev1 out where "uart_open 0 dev = (0, dev1, out)" by (simp add: uart_open_def)
  then show ?thesis using a uart_reopen_busy [of 0 dev dev1 out 1] by blast
qed

section \<open>The polled console port\<close>

text \<open>
  \<open>UART0\<close> is driven by polling. A polling loop reads the line status register until it shows the bit
  waited for: its argument is the sequence of values the reads return (with, for input, the content
  of the receive buffer at that moment), and the result is \<open>None\<close> as long as the loop still spins.
\<close>

datatype com0_write = W_ier u8 | W_lcr u8 | W_dll u8 | W_dlm u8 | W_thr u8

definition com0_init :: "com0_write list" where
  "com0_init = [W_ier 0x00, W_lcr LCR_DLAB, W_dll 0x01, W_dlm 0x00, W_lcr 0]"

fun com0_putc :: "u8 list \<Rightarrow> u8 \<Rightarrow> (com0_write \<times> u8 list) option" where
  "com0_putc [] c = None"
| "com0_putc (lsr # polls) c =
     (if \<not> (lsr AND LSR_THRE \<noteq> 0) then com0_putc polls c else Some (W_thr c, polls))"

fun com0_getc :: "(u8 \<times> u8) list \<Rightarrow> (u8 \<times> (u8 \<times> u8) list) option" where
  "com0_getc [] = None"
| "com0_getc ((lsr, rbr) # polls) =
     (if \<not> (lsr AND LSR_DR \<noteq> 0) then com0_getc polls else Some (rbr, polls))"

lemma com0_putc_returns:
  "(\<exists>r. com0_putc polls c = Some r) \<longleftrightarrow> (\<exists>lsr \<in> set polls. lsr AND LSR_THRE \<noteq> 0)"
  by (induction polls c rule: com0_putc.induct) auto

lemma com0_getc_returns:
  "(\<exists>r. com0_getc polls = Some r) \<longleftrightarrow> (\<exists>(lsr, rbr) \<in> set polls. lsr AND LSR_DR \<noteq> 0)"
  by (induction polls rule: com0_getc.induct) auto

end
