(* ===== verification/Console.thy ===== *)
theory Console
  imports CString Uart
begin

text \<open>
  \<^verbatim>\<open>kern/console.c\<close> and \<^verbatim>\<open>kern/halt.c\<close>: the polled console on \<open>UART0\<close>. The state carries the values that the next
  reads of the line status register return, so a call that needs more of them than there are is still
  polling: \<open>Running\<close>.
\<close>

section \<open>Operations\<close>

text \<open>
  \<open>cprev_out\<close> and \<open>cprev_in\<close> are the static variables of \<open>console_putchar\<close> and \<open>console_getchar\<close>; \<open>line\<close> is what was
  written to the transmit register; \<open>con_sie\<close> is the interrupt enable flag.
\<close>

record console =
  cprev_out :: u8
  cprev_in :: u8
  tx_polls :: "u8 list"
  rx_polls :: "(u8 \<times> u8) list"
  line :: "u8 list"
  console_initialized :: bool
  intr_initialized :: bool
  con_sie :: bool

definition console_init :: "console \<Rightarrow> com0_write list \<times> console" where
  "console_init s = (com0_init, s\<lparr>console_initialized := True\<rparr>)"

definition con_putc :: "u8 \<Rightarrow> console \<Rightarrow> console outcome" where
  "con_putc c s =
     (case com0_putc (tx_polls s) c of
        None \<Rightarrow> Running
      | Some (_, polls) \<Rightarrow> Ret (s\<lparr>tx_polls := polls, line := line s @ [c]\<rparr>))"

definition console_putchar :: "u8 \<Rightarrow> console \<Rightarrow> console outcome" where
  "console_putchar c s =
     obind
       (if c = 13 then obind (con_putc c s) (con_putc 10)
        else if c = 10 then
          obind (if cprev_out s \<noteq> 13 then con_putc 13 s else Ret s) (con_putc c)
        else con_putc c s)
       (\<lambda>s. Ret (s\<lparr>cprev_out := c\<rparr>))"

lemma com0_getc_length: "com0_getc polls = Some (c, polls') \<Longrightarrow> length polls' < length polls"
  by (induction polls rule: com0_getc.induct) (auto split: if_splits)

text \<open>The loop of \<open>console_getchar\<close>: the character and the polls left.\<close>

function getchar_loop :: "u8 \<Rightarrow> (u8 \<times> u8) list \<Rightarrow> (u8 \<times> (u8 \<times> u8) list) outcome" where
  "getchar_loop cprev polls =
     (case com0_getc polls of
        None \<Rightarrow> Running
      | Some (c, polls) \<Rightarrow>
          if c = 10 \<and> cprev = 13 then getchar_loop cprev polls else Ret (c, polls))"
  by pat_completeness auto
termination
  by (relation "measure (\<lambda>(cprev, polls). length polls)") (auto dest: com0_getc_length)

declare getchar_loop.simps [simp del]

definition console_getchar :: "console \<Rightarrow> (u8 \<times> console) outcome" where
  "console_getchar s =
     obind (getchar_loop (cprev_in s) (rx_polls s)) (\<lambda>(c, polls).
       Ret (if c = 13 then 10 else c, s\<lparr>rx_polls := polls, cprev_in := c\<rparr>))"

fun put_chars :: "u8 list \<Rightarrow> console \<Rightarrow> console outcome" where
  "put_chars [] s = Fault"
| "put_chars (c # str) s = (if c \<noteq> 0 then obind (console_putchar c s) (put_chars str) else Ret s)"

definition console_puts :: "u8 list \<Rightarrow> console \<Rightarrow> console outcome" where
  "console_puts str s = obind (put_chars str s) (console_putchar 10)"

text \<open>
  \<open>console_getsn\<close>, where \<open>raw\<close> says whether \<open>CONSOLE_RAW\<close> is defined; \<open>p\<close> is the text in the buffer so far and
  \<open>cap\<close> the size of the object at \<open>buf\<close>.
\<close>

definition raw_echo :: "bool \<Rightarrow> u8 list \<Rightarrow> console \<Rightarrow> console outcome" where
  "raw_echo raw cs s = (if raw then ofold console_putchar cs s else Ret s)"

lemma getchar_loop_length: "getchar_loop cprev polls = Ret (c, polls') \<Longrightarrow> length polls' < length polls"
proof (induction cprev polls rule: getchar_loop.induct)
  case (1 cprev polls)
  show ?case
  proof (cases "com0_getc polls")
    case None
    then show ?thesis using 1(2) by (simp add: getchar_loop.simps [of cprev polls])
  next
    case (Some r)
    obtain d ps where r: "r = (d, ps)" by fastforce
    have l: "length ps < length polls" using com0_getc_length Some r by simp
    show ?thesis
    proof (cases "d = 10 \<and> cprev = 13")
      case True
      then have "getchar_loop cprev ps = Ret (c, polls')"
        using 1(2) Some r unfolding getchar_loop.simps [of cprev polls] by simp
      then show ?thesis using 1(1) [OF Some r [symmetric] True] l by auto
    next
      case False
      then show ?thesis using 1(2) Some r l by (auto simp: getchar_loop.simps [of cprev polls])
    qed
  qed
qed

lemma con_putc_rx: "con_putc c s = Ret s' \<Longrightarrow> rx_polls s' = rx_polls s"
  by (auto simp: con_putc_def split: option.splits)

lemma console_putchar_rx: "console_putchar c s = Ret s' \<Longrightarrow> rx_polls s' = rx_polls s"
  by (auto simp: console_putchar_def dest!: con_putc_rx split: if_splits)

lemma raw_echo_rx: "raw_echo raw cs s = Ret s' \<Longrightarrow> rx_polls s' = rx_polls s"
proof -
  have "ofold console_putchar cs s = Ret s' \<Longrightarrow> rx_polls s' = rx_polls s"
    by (induction cs arbitrary: s) (auto dest: console_putchar_rx)
  then show "raw_echo raw cs s = Ret s' \<Longrightarrow> rx_polls s' = rx_polls s" by (auto simp: raw_echo_def split: if_splits)
qed

function console_getsn :: "bool \<Rightarrow> nat \<Rightarrow> nat \<Rightarrow> u8 list \<Rightarrow> console \<Rightarrow> (u8 list \<times> console) outcome" where
  "console_getsn raw cap n p s =
     obind (console_getchar s) (\<lambda>(c, s).
       if c = 13 then console_getsn raw cap n p s
       else if c = 10 then
         obind (raw_echo raw [10] s) (\<lambda>s. if cap \<le> length p then Fault else Ret (p, s))
       else if c = 8 \<or> c = 127 then
         if p \<noteq> [] then obind (raw_echo raw [8, 32, 8] s) (\<lambda>s. console_getsn raw cap (n + 1) (butlast p) s)
         else console_getsn raw cap n p s
       else if 1 < n then
         obind (raw_echo raw [c] s) (\<lambda>s.
           if cap \<le> length p then Fault else console_getsn raw cap (n - 1) (p @ [c]) s)
       else obind (raw_echo raw [7] s) (\<lambda>s. console_getsn raw cap n p s))"
  by pat_completeness auto
termination
  by (relation "measure (\<lambda>(raw, cap, n, p, s). length (rx_polls s))")
    (auto simp: console_getchar_def dest!: getchar_loop_length raw_echo_rx)

declare console_getsn.simps [simp del]

text \<open>\<open>console_vprintf\<close> keeps interrupts disabled while it prints, once the interrupt manager is initialised.\<close>

definition vprintf_putc :: "u8 \<Rightarrow> console outcome \<Rightarrow> console outcome" where
  "vprintf_putc c aux = obind aux (console_putchar c)"

definition intr_off :: "console \<Rightarrow> console" where
  "intr_off s = (if intr_initialized s then s\<lparr>con_sie := False\<rparr> else s)"

definition intr_back :: "bool \<Rightarrow> console \<Rightarrow> console" where
  "intr_back saved s = (if intr_initialized s then s\<lparr>con_sie := saved\<rparr> else s)"

definition console_vprintf :: "u8 list \<Rightarrow> varg list \<Rightarrow> console \<Rightarrow> (nat \<times> console) outcome" where
  "console_vprintf fmt ap s =
     (let saved = con_sie s in
      obind (vgprintf vprintf_putc (Ret (intr_off s)) fmt ap) (\<lambda>(aux, nout).
      obind aux (\<lambda>s. Ret (nout, intr_back saved s))))"

definition console_printf :: "u8 list \<Rightarrow> varg list \<Rightarrow> console \<Rightarrow> (nat \<times> console) outcome" where
  "console_printf fmt ap s = console_vprintf fmt ap s"

definition label_fmt :: "u8 list" where
  "label_fmt = [37, 115, 58, 32, 37, 115, 58, 37, 100, 58, 32, 0]"

definition console_labeled_printf ::
    "u8 list \<Rightarrow> u8 list \<Rightarrow> u64 \<Rightarrow> u8 list \<Rightarrow> varg list \<Rightarrow> console \<Rightarrow> console outcome" where
  "console_labeled_printf label src_flname src_lineno fmt ap s =
     (let saved = con_sie s in
      obind (console_printf label_fmt [AStr (Some label), AStr (Some src_flname), AInt src_lineno] (intr_off s)) (\<lambda>(_, s).
      obind (console_vprintf fmt ap s) (\<lambda>(_, s).
      obind (console_putchar 10 s) (\<lambda>s. Ret (intr_back saved s)))))"

text \<open>
  \<open>halt_success\<close>, \<open>halt_failure\<close> and \<open>panic\<close>: the value written to the test device ends the machine. \<open>panic\<close> prints
  its message first.
\<close>

definition halt_success :: u32 where "halt_success = 0x5555"
definition halt_failure :: u32 where "halt_failure = 0x3333"

definition panic :: "u8 list option \<Rightarrow> console \<Rightarrow> (u32 \<times> console) outcome" where
  "panic msg s =
     obind (case msg of Some m \<Rightarrow> console_puts m s | None \<Rightarrow> Ret s) (\<lambda>s. Ret (halt_failure, s))"

section \<open>What appears on the line\<close>

text \<open>
  The characters \<open>console_putchar\<close> puts on the line for a text, when the transmitter is ready whenever it is polled.
\<close>

fun con_text :: "u8 \<Rightarrow> u8 list \<Rightarrow> u8 list" where
  "con_text prev [] = []"
| "con_text prev (c # cs) =
     (if c = 13 then [13, 10] else if c = 10 \<and> prev \<noteq> 13 then [13, 10] else [c]) @ con_text c cs"

definition tx_ready :: "nat \<Rightarrow> console \<Rightarrow> bool" where
  "tx_ready n s \<longleftrightarrow> n \<le> length (tx_polls s) \<and> (\<forall>l \<in> set (tx_polls s). l AND LSR_THRE \<noteq> 0)"

lemma con_putc_ready:
  "tx_ready (Suc n) s \<Longrightarrow> \<exists>s'. con_putc c s = Ret s' \<and> tx_ready n s' \<and> line s' = line s @ [c] \<and> cprev_out s' = cprev_out s"
  by (cases "tx_polls s") (auto simp: tx_ready_def con_putc_def)

lemma console_putchar_ready:
  assumes "tx_ready (n + 2) s"
  shows "\<exists>s'. console_putchar c s = Ret s' \<and> tx_ready n s' \<and> cprev_out s' = c \<and>
    line s' = line s @ con_text (cprev_out s) [c]"
proof -
  obtain s1 where 1: "con_putc 13 s = Ret s1" "tx_ready (Suc n) s1" "line s1 = line s @ [13]" "cprev_out s1 = cprev_out s"
    using con_putc_ready [of "Suc n" s 13] assms by auto
  obtain s2 where 2: "con_putc 10 s1 = Ret s2" "tx_ready n s2" "line s2 = line s1 @ [10]"
    using con_putc_ready [OF 1(2), of 10] by auto
  obtain s3 where 3: "con_putc c s = Ret s3" "tx_ready n s3" "line s3 = line s @ [c]"
    using con_putc_ready [of "Suc n" s c] assms by (auto simp: tx_ready_def)
  have u: "tx_ready n (t\<lparr>cprev_out := c\<rparr>) = tx_ready n t" for t by (simp add: tx_ready_def)
  consider "c = 13" | "c = 10" "cprev_out s \<noteq> 13" | "c \<noteq> 13" "\<not> (c = 10 \<and> cprev_out s \<noteq> 13)" by blast
  then show ?thesis
  proof cases
    case 1
    then show ?thesis using \<open>con_putc 13 s = Ret s1\<close> \<open>line s1 = line s @ [13]\<close> 2 u
      by (simp add: console_putchar_def del: obind_eq_Ret)
  next
    case 2
    then show ?thesis using 1 \<open>con_putc 10 s1 = Ret s2\<close> \<open>tx_ready n s2\<close> \<open>line s2 = line s1 @ [10]\<close> u
      by (simp add: console_putchar_def del: obind_eq_Ret)
  next
    case 3
    then show ?thesis using \<open>con_putc c s = Ret s3\<close> \<open>tx_ready n s3\<close> \<open>line s3 = line s @ [c]\<close> u
      by (auto simp: console_putchar_def simp del: obind_eq_Ret)
  qed
qed

lemma put_chars_ready:
  "cstr p str \<Longrightarrow> tx_ready (2 * length str + n) s \<Longrightarrow>
   \<exists>s'. put_chars p s = Ret s' \<and> tx_ready n s' \<and> cprev_out s' = last (cprev_out s # str) \<and>
     line s' = line s @ con_text (cprev_out s) str"
proof (induction str arbitrary: p s)
  case Nil
  then show ?case by (cases p) (auto simp: cstr_simps)
next
  case (Cons c str)
  then obtain p' where p: "p = c # p'" "c \<noteq> 0" "cstr p' str" by (cases p) (auto simp: cstr_simps)
  have "tx_ready ((2 * length str + n) + 2) s" using Cons.prems(2) by (simp add: algebra_simps)
  from console_putchar_ready [OF this, of c]
  obtain s1 where 1: "console_putchar c s = Ret s1" "tx_ready (2 * length str + n) s1" "cprev_out s1 = c"
    "line s1 = line s @ con_text (cprev_out s) [c]" by blast
  from Cons.IH [OF p(3) 1(2)] 1 p show ?case by auto
qed

lemma con_text_append: "con_text v (a @ b) = con_text v a @ con_text (last (v # a)) b"
  by (induction a arbitrary: v) auto

text \<open>
  C26: \<open>console_puts\<close> writes the text and a newline with every line ending as carriage return and line feed: for a
  text without carriage returns, each newline appears as the pair and every other character as itself.
\<close>
theorem console_puts_correct:
  assumes "cstr p str" and "tx_ready (2 * length str + 2) s" and "cprev_out s \<noteq> 13" and "13 \<notin> set str"
  shows "\<exists>s'. console_puts p s = Ret s' \<and>
    line s' = line s @ concat (map (\<lambda>c. if c = 10 then [13, 10] else [c]) str) @ [13, 10]"
proof -
  obtain s1 where 1: "put_chars p s = Ret s1" "tx_ready (0 + 2) s1" "cprev_out s1 = last (cprev_out s # str)"
    "line s1 = line s @ con_text (cprev_out s) str" using put_chars_ready [OF assms(1,2)] by (auto simp: numeral_2_eq_2)
  from console_putchar_ready [OF 1(2), of 10]
  obtain s2 where 2: "console_putchar 10 s1 = Ret s2" "line s2 = line s1 @ con_text (cprev_out s1) [10]" by blast
  have l: "cprev_out s1 \<noteq> 13" using 1(3) assms(3,4) by (auto dest: last_in_set)
  have "con_text v str = concat (map (\<lambda>c. if c = 10 then [13, 10] else [c]) str)" if "v \<noteq> 13" for v
    using that assms(4) by (induction str arbitrary: v) auto
  with 1(1,4) 2 l assms(3) show ?thesis by (simp add: console_puts_def)
qed

definition demo_console :: console where
  "demo_console = \<lparr>cprev_out = 0, cprev_in = 0, tx_polls = replicate 12 0x20, rx_polls = [], line = [],
     console_initialized = True, intr_initialized = True, con_sie = True\<rparr>"

theorem console_puts_correct_witness:
  "\<exists>s'. console_puts [104, 10, 105, 0] demo_console = Ret s' \<and> line s' = [104, 13, 10, 105, 13, 10]"
proof -
  have "cstr [104, 10, 105, 0] [104, 10, 105]" by (simp add: cstr_def)
  from console_puts_correct [OF this, of demo_console] show ?thesis
    by (auto simp: demo_console_def tx_ready_def LSR_THRE_def)
qed

text \<open>
  C27: a text that already has both characters gets an extra line feed: the carriage return is written with a
  line feed of its own, and the line feed that follows it in the text is written once more.
\<close>
theorem console_crlf_doubled:
  assumes "tx_ready 4 s"
  shows "\<exists>s1 s2. console_putchar 13 s = Ret s1 \<and> console_putchar 10 s1 = Ret s2 \<and> line s2 = line s @ [13, 10, 10]"
proof -
  obtain s1 where 1: "console_putchar 13 s = Ret s1" "tx_ready (0 + 2) s1" "cprev_out s1 = 13"
    "line s1 = line s @ [13, 10]" using console_putchar_ready [of 2 s 13] assms by (auto simp: eval_nat_numeral)
  from console_putchar_ready [OF 1(2), of 10] 1 show ?thesis by auto
qed

theorem console_crlf_doubled_witness:
  "\<exists>s1 s2. console_putchar 13 demo_console = Ret s1 \<and> console_putchar 10 s1 = Ret s2 \<and> line s2 = [13, 10, 10]"
  using console_crlf_doubled [of demo_console] by (simp add: demo_console_def tx_ready_def LSR_THRE_def)

end
