(* ===== verification/Device.thy ===== *)
theory Device
  imports CString
begin

text \<open>
  \<^verbatim>\<open>kern/device.c\<close>: the table of devices. A slot has the name and the open function of a driver with its
  argument; a null pointer is \<open>None\<close>. The result of an open function is of the driver's type \<open>'r\<close>.
\<close>

record 'r device =
  dev_name :: "u8 list option"
  openfn :: "(u64 \<Rightarrow> 'r) option"
  dev_aux :: u64

definition NDEV :: nat where "NDEV = 16"

type_synonym 'r devtab = "'r device list"

text \<open>The search of \<open>device_register\<close>: the first slot without a name, and the number of slots before it with this name.\<close>

fun register_search :: "'r devtab \<Rightarrow> u8 list option \<Rightarrow> nat \<Rightarrow> nat \<Rightarrow> (nat \<times> nat) outcome" where
  "register_search [] name devno instno = Ret (devno, instno)"
| "register_search (d # ds) name devno instno =
     (if dev_name d = None then Ret (devno, instno)
      else
        obind (strcmp (dev_name d) name) (\<lambda>c.
          register_search ds name (Suc devno) (if c = 0 then Suc instno else instno)))"

definition device_register ::
    "u8 list option \<Rightarrow> (u64 \<Rightarrow> 'r) option \<Rightarrow> u64 \<Rightarrow> 'r devtab \<Rightarrow> (nat \<times> 'r devtab) outcome" where
  "device_register name fn aux tab =
     obind (c_assert (name \<noteq> None)) (\<lambda>_.
     obind (c_assert (fn \<noteq> None)) (\<lambda>_.
     obind (register_search tab name 0 0) (\<lambda>(devno, instno).
       if devno = NDEV then Panic ''Too many devices (increase NDEV)''
       else Ret (instno, tab[devno := \<lparr>dev_name = name, openfn = fn, dev_aux = aux\<rparr>]))))"

text \<open>The search of \<open>device_open\<close> for instance \<open>instno\<close>; \<open>NDEV\<close> if there is none.\<close>

fun open_search :: "'r devtab \<Rightarrow> u8 list option \<Rightarrow> int \<Rightarrow> nat \<Rightarrow> int \<Rightarrow> nat outcome" where
  "open_search [] name instno devno k = Ret devno"
| "open_search (d # ds) name instno devno k =
     (if openfn d \<noteq> None then
        obind (strcmp (dev_name d) name) (\<lambda>c.
          if c = 0 then
            if k = instno then Ret devno else open_search ds name instno (Suc devno) (k + 1)
          else open_search ds name instno (Suc devno) k)
      else open_search ds name instno (Suc devno) k)"

definition device_open :: "u8 list option \<Rightarrow> int \<Rightarrow> 'r devtab \<Rightarrow> (int + 'r) outcome" where
  "device_open name instno tab =
     obind (open_search tab name instno 0 0) (\<lambda>devno.
       if devno = NDEV then Ret (Inl (- ENODEV))
       else
         case openfn (tab ! devno) of
           None \<Rightarrow> Fault
         | Some fn \<Rightarrow> Ret (Inr (fn (dev_aux (tab ! devno)))))"

section \<open>Well-formed tables\<close>

text \<open>The first \<open>n\<close> slots are in use, the others empty; names are C strings.\<close>

definition is_name :: "u8 list option \<Rightarrow> u8 list \<Rightarrow> bool" where
  "is_name p s \<longleftrightarrow> (\<exists>q. p = Some q \<and> cstr q s)"

definition devs :: "'r devtab \<Rightarrow> (u8 list \<times> (u64 \<Rightarrow> 'r) \<times> u64) list \<Rightarrow> bool" where
  "devs tab ds \<longleftrightarrow> length tab = NDEV \<and> length ds \<le> NDEV \<and>
     (\<forall>i < length ds. is_name (dev_name (tab ! i)) (fst (ds ! i)) \<and> openfn (tab ! i) = Some (fst (snd (ds ! i))) \<and>
        dev_aux (tab ! i) = snd (snd (ds ! i))) \<and>
     (\<forall>i. length ds \<le> i \<and> i < NDEV \<longrightarrow> dev_name (tab ! i) = None \<and> openfn (tab ! i) = None)"

definition instances :: "u8 list \<Rightarrow> (u8 list \<times> (u64 \<Rightarrow> 'r) \<times> u64) list \<Rightarrow> ((u64 \<Rightarrow> 'r) \<times> u64) list" where
  "instances nm ds = map snd (filter (\<lambda>d. fst d = nm) ds)"

lemma strcmp_names: "is_name p s \<Longrightarrow> is_name q t \<Longrightarrow> \<exists>c. strcmp p q = Ret c \<and> (c = 0 \<longleftrightarrow> s = t)"
  using strcmp_loop_cstr [of _ s _ t] by (auto simp: is_name_def strcmp_def)

lemma register_search_Ret:
  assumes "is_name name nm" and "list_all2 (\<lambda>t d. is_name (dev_name t) (fst d)) tab ds"
    and "\<forall>t \<in> set rest. dev_name t = None"
  shows "register_search (tab @ rest) name devno instno =
     Ret (devno + length ds, instno + length (filter (\<lambda>d. fst d = nm) ds))"
  using assms(2)
proof (induction tab ds arbitrary: devno instno rule: list_all2_induct)
  case Nil
  show ?case
  proof (cases rest)
    case (Cons t ts)
    then have "dev_name t = None" using assms(3) by simp
    then show ?thesis by (simp add: Cons)
  qed simp
next
  case (Cons t ts d ds)
  obtain c where "strcmp (dev_name t) name = Ret c" "c = 0 \<longleftrightarrow> fst d = nm"
    using strcmp_names [OF Cons(1) assms(1)] by auto
  moreover have "dev_name t \<noteq> None" using Cons(1) by (auto simp: is_name_def)
  ultimately show ?case using Cons(3) by (auto simp del: obind_eq_Ret)
qed

lemma open_search_Ret:
  assumes "is_name name nm" and "list_all2 (\<lambda>t d. is_name (dev_name t) (fst d) \<and> openfn t = Some (fst (snd d))) tab ds"
    and "\<forall>t \<in> set rest. openfn t = None" and "0 \<le> k" and "k \<le> instno"
  shows "if nat (instno - k) < length (filter (\<lambda>d. fst d = nm) ds)
    then \<exists>i < length ds. open_search (tab @ rest) name instno devno k = Ret (devno + i) \<and>
      snd (ds ! i) = instances nm ds ! nat (instno - k)
    else open_search (tab @ rest) name instno devno k = Ret (devno + length tab + length rest)"
  using assms(2,4,5)
proof (induction tab ds arbitrary: devno k rule: list_all2_induct)
  case Nil
  have "open_search rest name instno devno k = Ret (devno + length rest)"
    using assms(3) by (induction rest arbitrary: devno) auto
  then show ?case by simp
next
  case (Cons t ts d ds)
  obtain c where c: "strcmp (dev_name t) name = Ret c" "c = 0 \<longleftrightarrow> fst d = nm"
    using strcmp_names [of "dev_name t" "fst d" name nm] Cons(1) assms(1) by auto
  have o: "openfn t \<noteq> None" using Cons(1) by simp
  consider "fst d = nm" "k = instno" | "fst d = nm" "k < instno" | "fst d \<noteq> nm" using Cons.prems(2) by fastforce
  then show ?case
  proof cases
    case 1
    then show ?thesis using c o by (auto simp: instances_def simp del: obind_eq_Ret intro!: exI [of _ 0])
  next
    case 2
    have e: "open_search ((t # ts) @ rest) name instno devno k = open_search (ts @ rest) name instno (Suc devno) (k + 1)"
      using 2 c o by (simp del: obind_eq_Ret)
    have n: "nat (instno - k) = Suc (nat (instno - (k + 1)))" using 2 by simp
    have "0 \<le> k + 1" "k + 1 \<le> instno" using 2 Cons.prems by auto
    from Cons(3) [OF this, of "Suc devno"] show ?thesis unfolding e n using 2
      by (auto simp: instances_def intro: exI [of _ "Suc i" for i] split: if_splits)
  next
    case 3
    have e: "open_search ((t # ts) @ rest) name instno devno k = open_search (ts @ rest) name instno (Suc devno) k"
      using 3 c o by (simp del: obind_eq_Ret)
    from Cons(3) [OF Cons.prems, of "Suc devno"] show ?thesis unfolding e using 3
      by (auto simp: instances_def intro: exI [of _ "Suc i" for i] split: if_splits)
  qed
qed

lemma devs_split:
  assumes "devs tab ds"
  shows "list_all2 (\<lambda>t d. is_name (dev_name t) (fst d) \<and> openfn t = Some (fst (snd d))) (take (length ds) tab) ds"
    and "\<forall>t \<in> set (drop (length ds) tab). dev_name t = None \<and> openfn t = None"
proof -
  have l: "length tab = NDEV" "length ds \<le> NDEV" using assms by (simp_all add: devs_def)
  then show "list_all2 (\<lambda>t d. is_name (dev_name t) (fst d) \<and> openfn t = Some (fst (snd d))) (take (length ds) tab) ds"
    using assms by (auto simp: list_all2_conv_all_nth devs_def)
  show "\<forall>t \<in> set (drop (length ds) tab). dev_name t = None \<and> openfn t = None"
  proof
    fix t
    assume "t \<in> set (drop (length ds) tab)"
    then obtain k where "k < length tab - length ds" "t = tab ! (length ds + k)" by (auto simp: in_set_conv_nth)
    then show "dev_name t = None \<and> openfn t = None" using assms l by (auto simp: devs_def)
  qed
qed

lemma device_register_Ret:
  assumes d: "devs tab ds" and n: "is_name name nm" and "length ds < NDEV"
  shows "\<exists>tab'. device_register name (Some fn) aux tab = Ret (length (instances nm ds), tab') \<and>
    devs tab' (ds @ [(nm, fn, aux)])"
proof -
  have l: "length tab = NDEV" using d by (simp add: devs_def)
  have a: "list_all2 (\<lambda>t d. is_name (dev_name t) (fst d)) (take (length ds) tab) ds"
    using devs_split(1) [OF d] by (rule list_all2_mono) simp
  have "register_search (take (length ds) tab @ drop (length ds) tab) name 0 0 =
      Ret (0 + length ds, 0 + length (filter (\<lambda>d. fst d = nm) ds))"
    by (rule register_search_Ret [OF n a]) (use devs_split(2) [OF d] in blast)
  then have r: "register_search tab name 0 0 = Ret (length ds, length (instances nm ds))" by (simp add: instances_def)
  have "name \<noteq> None" using n by (auto simp: is_name_def)
  moreover have "devs (tab[length ds := \<lparr>dev_name = name, openfn = Some fn, dev_aux = aux\<rparr>]) (ds @ [(nm, fn, aux)])"
    using d assms(3) n l by (auto simp: devs_def nth_append nth_list_update less_Suc_eq)
  ultimately show ?thesis using r assms(3) by (simp add: device_register_def)
qed

lemma device_open_Ret:
  assumes d: "devs tab ds" and n: "is_name name nm" and i: "0 \<le> instno"
  shows "device_open name instno tab =
    Ret (if nat instno < length (instances nm ds)
         then case instances nm ds ! nat instno of (fn, aux) \<Rightarrow> Inr (fn aux) else Inl (- ENODEV))"
proof -
  have l: "length tab = NDEV" "length ds \<le> NDEV" using d by (simp_all add: devs_def)
  have len: "length (instances nm ds) = length (filter (\<lambda>d. fst d = nm) ds)" by (simp add: instances_def)
  have o: "\<forall>t \<in> set (drop (length ds) tab). openfn t = None" using devs_split(2) [OF d] by blast
  note s = open_search_Ret [OF n devs_split(1) [OF d] o order_refl i, of 0]
  show ?thesis
  proof (cases "nat instno < length (instances nm ds)")
    case True
    then obtain i where i: "i < length ds" "open_search tab name instno 0 0 = Ret i"
      "snd (ds ! i) = instances nm ds ! nat instno" using s by (auto simp: len)
    then have "openfn (tab ! i) = Some (fst (instances nm ds ! nat instno))" "dev_aux (tab ! i) = snd (instances nm ds ! nat instno)"
      using d by (auto simp: devs_def)
    with i l True show ?thesis by (simp add: device_open_def case_prod_beta)
  next
    case False
    then have "open_search tab name instno 0 0 = Ret NDEV" using s l by (simp add: len)
    with False show ?thesis by (simp add: device_open_def)
  qed
qed

text \<open>
  C28: registering and opening agree. A driver that registers a device gets the number of devices of that name
  registered before; opening that instance then calls the driver's open function with its argument, every
  device registered earlier can be opened as before, and an instance number that is too large gives an error.
\<close>
theorem device_register_open:
  assumes "devs tab ds" and "is_name name nm" and "length ds < NDEV" and "is_name other om" and "0 \<le> k"
  shows "\<exists>instno tab'. device_register name (Some fn) aux tab = Ret (instno, tab') \<and>
    device_open name (int instno) tab' = Ret (Inr (fn aux)) \<and>
    (\<not> (om = nm \<and> k = int instno) \<longrightarrow> device_open other k tab' = device_open other k tab) \<and>
    device_open name (int instno + 1) tab' = Ret (Inl (- ENODEV))"
proof -
  obtain tab' where 1: "device_register name (Some fn) aux tab = Ret (length (instances nm ds), tab')"
    and 2: "devs tab' (ds @ [(nm, fn, aux)])" using device_register_Ret [OF assms(1-3)] by blast
  have i: "instances m (ds @ [(nm, fn, aux)]) = instances m ds @ (if m = nm then [(fn, aux)] else [])" for m
    by (simp add: instances_def)
  have "device_open other k tab' = device_open other k tab" if "\<not> (om = nm \<and> k = int (length (instances nm ds)))"
    using that device_open_Ret [OF 2 assms(4,5)] device_open_Ret [OF assms(1,4,5)] assms(5)
    by (cases "nat k < length (instances om ds)") (auto simp: i nth_append)
  moreover have "device_open name (int (length (instances nm ds))) tab' = Ret (Inr (fn aux))"
    using device_open_Ret [OF 2 assms(2), of "int (length (instances nm ds))"] by (simp add: i)
  moreover have "device_open name (int (length (instances nm ds)) + 1) tab' = Ret (Inl (- ENODEV))"
    using device_open_Ret [OF 2 assms(2), of "int (length (instances nm ds)) + 1"] by (simp add: i nat_add_distrib)
  ultimately show ?thesis using 1 by blast
qed

theorem device_register_open_witness:
  "\<exists>instno tab'. device_register (Some [98, 108, 107, 0]) (Some (\<lambda>aux. aux + 1)) 5
      (replicate NDEV \<lparr>dev_name = None, openfn = None, dev_aux = 0\<rparr>) = Ret (instno, tab') \<and>
    device_open (Some [98, 108, 107, 0]) (int instno) tab' = Ret (Inr ((\<lambda>aux. aux + 1) 5))"
proof -
  let ?t = "replicate NDEV \<lparr>dev_name = None, openfn = None, dev_aux = 0\<rparr>"
  have "devs ?t []" by (auto simp: devs_def)
  moreover have "is_name (Some [98, 108, 107, 0]) [98, 108, 107]" by (simp add: is_name_def cstr_def)
  ultimately show ?thesis
    using device_register_open [of ?t "[]" "Some [98, 108, 107, 0]" "[98, 108, 107]" "Some [98, 108, 107, 0]"
      "[98, 108, 107]" 0 "\<lambda>aux. aux + 1" 5] by (auto simp: NDEV_def)
qed

end
