(* ===== verification/Spec2Isabelle.thy ===== *)
theory Spec2Isabelle
  imports Syscall Console Device
begin

text \<open>
  A verification library for the kernel in \<^verbatim>\<open>src/kern\<close>, a small operating system for 64-bit RISC-V: physical
  and virtual memory, threads and processes, interrupts, device drivers, a file system and an ELF loader.

  \<^bold>\<open>How the parts interact.\<close> Boot code initialises the heap and the page pool, then threads, interrupts, drivers and the
  file system. A thread runs until it yields, blocks on a condition variable or is interrupted; drivers and the
  file system block in \<open>condition_wait\<close>, and interrupt handlers wake them with \<open>condition_broadcast\<close>. User programs
  enter the kernel by traps: page faults map a page, interrupts are dispatched to the timer and to the drivers.

  \<^bold>\<open>Conventions.\<close> Machine integers are words of their width (\<^typ>\<open>u8\<close> to \<^typ>\<open>u64\<close>), so wrap-around is that of the code;
  \<open>int\<close> results are HOL integers, converted by \<^const>\<open>int_of\<close> and \<^const>\<open>long_of\<close> where C converts. An operation returns an
  \<open>outcome\<close>: a value, a panic with its message, a \<open>Fault\<close> (an access outside the object the C code was given),
  \<open>Running\<close> (a loop without a bound in the source has not ended within the given fuel, or the call waits for another thread or
  for the device), or the regular halt of the machine. Every early return, error code and panic of the source is a branch.

  \<^item> \<^verbatim>\<open>Prelude\<close>: machine types, outcomes, error numbers (\<^verbatim>\<open>error.h\<close>), linked lists as \<^const>\<open>chain\<close>.
  \<^item> \<^verbatim>\<open>CString\<close> (\<^verbatim>\<open>string.c\<close>): C strings as byte lists, memory functions, \<open>printf\<close> formatting. Comparison is the
    lexicographic order; \<open>vsnprintf\<close> stores the specified text truncated to the buffer; printed digits denote the number.
  \<^item> \<^verbatim>\<open>Uart\<close> (\<^verbatim>\<open>uart.c\<close>): ring buffers, driver and interrupt routine; the device is a list of interrupts that arrive
    while a call waits. Reads return the received stream, writes append to the line, no wake-up is lost.
  \<^item> \<^verbatim>\<open>Pages\<close>, \<^verbatim>\<open>Heap\<close> (\<^verbatim>\<open>ezheap.c\<close>), \<^verbatim>\<open>Memory\<close> (\<^verbatim>\<open>memory.c\<close>), \<^verbatim>\<open>PageTable\<close>, \<^verbatim>\<open>Space\<close>, \<^verbatim>\<open>Reclaim\<close>: physical memory as a store
    of 64-bit words by address, the free list, heap blocks, Sv39 page tables. \<^verbatim>\<open>Memory\<close> holds the definitions; the others show
    that blocks and pages never overlap, what mapping, page faults and pointer validation do, and that unmapping and
    reclaiming free exactly the pages of the user part.
  \<^item> \<^verbatim>\<open>Thread\<close> (\<^verbatim>\<open>thread.c\<close>, \<^verbatim>\<open>thrasm.s\<close>, \<^verbatim>\<open>intr.h\<close>): thread structures in a store, linked lists, context switch, conditions.
    \<^verbatim>\<open>ThreadQueue\<close> gives the list operations the contract of a queue (locale \<open>thread_queue\<close>), \<^verbatim>\<open>Scheduler\<close> relates each
    operation to abstract queues, \<^verbatim>\<open>Kernel\<close> has the transition system \<^const>\<open>kstep\<close> with its invariant, fairness, and
    the behaviour of exit, fork and the thread table.
  \<^item> \<^verbatim>\<open>Lock\<close> (\<^verbatim>\<open>lock.h\<close>): sleep locks over the scheduler; mutual exclusion over all interleavings, hand-over to a waiter.
  \<^item> \<^verbatim>\<open>Timer\<close> (\<^verbatim>\<open>timer.c\<close>): the ordered list of alarms; the interrupt wakes exactly the due ones.
  \<^item> \<^verbatim>\<open>Intr\<close> (\<^verbatim>\<open>intr.c\<close>, \<^verbatim>\<open>plic.c\<close>): registers of the interrupt controller, dispatch, preemption of user threads.
  \<^item> \<^verbatim>\<open>Device\<close> (\<^verbatim>\<open>device.c\<close>): the device table; registering and opening agree.
  \<^item> \<^verbatim>\<open>Console\<close> (\<^verbatim>\<open>console.c\<close>, \<^verbatim>\<open>halt.c\<close>): the polled console and its line endings.
  \<^item> \<^verbatim>\<open>Io\<close> (\<^verbatim>\<open>io.c\<close>, \<^verbatim>\<open>io.h\<close>): I/O objects as records of operations over a device state, literals and terminals.
  \<^item> \<^verbatim>\<open>Kfs\<close> (\<^verbatim>\<open>kfs.c\<close>, \<^verbatim>\<open>fs.h\<close>): the file system over any I/O object.

  \<^bold>\<open>Fuel.\<close> The list of alarms and of waiting threads is walked with fuel; the theorems need no more than its length
  (a condition has at most \<^const>\<open>NTHR\<close> waiters). Terminal input has no bound in the code, and fuel counts its rounds.

  \<^bold>\<open>Not modelled.\<close> Start-up and trap entry in assembly and the CSR accessors (no C code, except the switch and the timer
  hand-over, which are); the test drivers and boot programs, which only call the components; the sample user
  programs and the copies of \<^verbatim>\<open>string.c\<close> and \<^verbatim>\<open>io.c\<close> linked into them.
\<close>

end
